(* ===== verification/Prelude.thy ===== *)
theory Prelude
  imports Main
    "HOL-Library.Word"
    "HOL-Library.Char_ord"
    "HOL-Library.List_Lexorder"
    "HOL-Library.Product_Lexorder"
    "HOL-Library.Multiset"
begin

text \<open>
  Shared vocabulary of the development: the machine integers of the Go structs, the result
  type of a fallible call, the three collections of facts the component proofs add to the
  simplifier, and the generic lemmas on lists, sets and maps that several components use.
\<close>

section \<open>Types\<close>

text \<open>
  Go's \<open>int32\<close>, \<open>uint32\<close> and \<open>int64\<close> keep their width. The same bits are read with
  \<open>sint\<close> where the Go type is signed and with \<open>unat\<close> where it is not.
\<close>

type_synonym i32 = "32 word"
type_synonym u32 = "32 word"
type_synonym i64 = "64 word"

text \<open>
  A Go call that returns \<open>(T, error)\<close> is a sum: \<open>Inl\<close> carries the error and \<open>Inr\<close> the
  value; a call that returns only \<open>error\<close> has \<open>unit\<close> on the right.
\<close>

type_synonym ('e, 'a) result = "'e + 'a"

section \<open>Collections of facts\<close>

named_theorems store_ops \<open>definitions of the operations of the stores\<close>
named_theorems handler_ops \<open>definitions of the handlers of the gRPC server\<close>
named_theorems codec_simps \<open>equations of the JSON codecs\<close>

section \<open>Tuples\<close>

lemma triple_eq: "x = (fst x, fst (snd x), snd (snd x))"
  by simp

section \<open>Lists\<close>

lemma find_Some_in: "find P xs = Some x \<Longrightarrow> x \<in> set xs \<and> P x"
  by (induction xs) (auto split: if_splits)

lemma find_None_all: "find P xs = None \<longleftrightarrow> (\<forall>x \<in> set xs. \<not> P x)"
  by (induction xs) auto

lemma find_distinct_key:
  "distinct (map f xs) \<Longrightarrow> x \<in> set xs \<Longrightarrow> find (\<lambda>y. f y = f x) xs = Some x"
  by (induction xs) (auto simp: image_iff)

lemma filter_distinct_key:
  "distinct (map f xs) \<Longrightarrow>
   filter (\<lambda>y. f y = k) xs = (case find (\<lambda>y. f y = k) xs of None \<Rightarrow> [] | Some x \<Rightarrow> [x])"
proof (induction xs)
  case Nil
  then show ?case by simp
next
  case (Cons x xs)
  show ?case
  proof (cases "f x = k")
    case True
    with Cons.prems have "\<forall>y \<in> set xs. f y \<noteq> k" by (auto simp: image_iff)
    then have "filter (\<lambda>y. f y = k) xs = []" by simp
    with True show ?thesis by simp
  next
    case False
    with Cons show ?thesis by simp
  qed
qed

text \<open>
  Two sortings of the same elements by a key that separates them are equal: the result of
  Go's sort does not depend on the order in which a map was ranged over.
\<close>

lemma sort_key_unique:
  assumes "mset xs = mset ys" and "inj_on f (set xs)"
  shows "sort_key f xs = sort_key f ys"
proof (rule properties_for_sort_key)
  show "mset (sort_key f ys) = mset xs" using assms(1) by simp
  show "sorted (map f (sort_key f ys))" by simp
  have set_eq: "set xs = set ys" using assms(1) by (metis set_mset_mset)
  fix k
  assume k: "k \<in> set (sort_key f ys)"
  have one: "filter (\<lambda>x. f k = f x) zs = replicate (count_list zs k) k"
    if "set zs \<subseteq> set xs" for zs
    using that k set_eq assms(2)
    by (induction zs) (auto simp: inj_on_eq_iff)
  have "filter (\<lambda>x. f k = f x) (sort_key f ys) = filter (\<lambda>x. f k = f x) ys"
    using sort_key_stable [of f "f k" ys] by (simp add: eq_commute)
  also have "\<dots> = filter (\<lambda>x. f k = f x) xs"
    using one [of ys] one [of xs] set_eq assms(1)
    by (metis count_mset order_refl)
  finally show "filter (\<lambda>x. f k = f x) (sort_key f ys) = filter (\<lambda>x. f k = f x) xs" .
qed

lemma sort_mset_unique: "mset xs = mset ys \<Longrightarrow> sort xs = sort ys"
  using sort_key_unique [of xs ys "\<lambda>x. x"] by simp

section \<open>Maps\<close>

lemma ran_upd_Some: "m k = None \<Longrightarrow> ran (m(k \<mapsto> v)) = insert v (ran m)"
  by (rule ran_map_upd)

lemma ran_del_sub: "ran (m(k := None)) \<subseteq> ran m"
  by (auto simp: ran_def split: if_splits)

lemma ranE: "x \<in> ran m \<Longrightarrow> (\<And>k. m k = Some x \<Longrightarrow> P) \<Longrightarrow> P"
  by (auto simp: ran_def)

text \<open>
  A Go \<open>range\<close> over a map visits every key once, in an order the runtime picks. An
  \<^emph>\<open>enumeration\<close> of a map is such an order; an operation that ranges over a map takes one
  as an argument, and its lemmas hold for all of them.
\<close>

definition enumerates :: "'k list \<Rightarrow> ('k \<rightharpoonup> 'v) \<Rightarrow> bool" where
  "enumerates ks m \<longleftrightarrow> distinct ks \<and> set ks = dom m"

definition range_vals :: "'k list \<Rightarrow> ('k \<rightharpoonup> 'v) \<Rightarrow> 'v list" where
  "range_vals ks m = List.map_filter m ks"

lemma range_vals_Nil [simp]: "range_vals [] m = []"
  by (simp add: range_vals_def)

lemma range_vals_Cons [simp]:
  "range_vals (k # ks) m = (case m k of None \<Rightarrow> range_vals ks m | Some v \<Rightarrow> v # range_vals ks m)"
  by (simp add: range_vals_def split: option.splits)

lemma set_range_vals_sub: "set (range_vals ks m) = {v. \<exists>k \<in> set ks. m k = Some v}"
  by (induction ks) (auto split: option.splits)

lemma set_range_vals: "enumerates ks m \<Longrightarrow> set (range_vals ks m) = ran m"
  by (auto simp: enumerates_def set_range_vals_sub ran_def)

lemma mset_range_vals:
  "distinct ks \<Longrightarrow> set ks = dom m \<Longrightarrow>
   mset (range_vals ks m) = image_mset (\<lambda>k. the (m k)) (mset_set (dom m))"
proof -
  assume d: "distinct ks" and s: "set ks = dom m"
  have "mset (range_vals ks m) = image_mset (\<lambda>k. the (m k)) (mset ks)"
    if "set ks \<subseteq> dom m" for ks
    using that by (induction ks) (auto split: option.splits)
  then have "mset (range_vals ks m) = image_mset (\<lambda>k. the (m k)) (mset ks)"
    using s by simp
  also have "mset ks = mset_set (dom m)"
    using d s by (metis mset_set_set)
  finally show ?thesis .
qed

lemma range_vals_perm:
  "enumerates ks m \<Longrightarrow> enumerates ks' m \<Longrightarrow> mset (range_vals ks m) = mset (range_vals ks' m)"
  by (simp add: enumerates_def mset_range_vals)

lemma distinct_range_vals:
  "distinct ks \<Longrightarrow> inj_on m (dom m) \<Longrightarrow> distinct (range_vals ks m)"
  by (induction ks)
     (auto simp: set_range_vals_sub inj_on_def dom_def split: option.splits, metis)

end
