(* ===== verification/Go_Strings.thy ===== *)
theory Go_Strings
  imports Prelude
begin

text \<open>
  The part of Go's \<^verbatim>\<open>strings\<close>, \<^verbatim>\<open>strconv\<close>, \<^verbatim>\<open>encoding/hex\<close> and \<^verbatim>\<open>fmt\<close> packages the daemon
  uses. A Go string is a sequence of bytes and so is a value of type \<open>string\<close>: a multi-byte
  rune is several characters, and \<open><\<close> on strings (lexicographic on the byte values) is Go's.
\<close>

section \<open>Prefixes, suffixes and separators\<close>

definition has_prefix :: "string \<Rightarrow> string \<Rightarrow> bool" where
  "has_prefix s p \<longleftrightarrow> take (length p) s = p"

definition has_suffix :: "string \<Rightarrow> string \<Rightarrow> bool" where
  "has_suffix s p \<longleftrightarrow> length p \<le> length s \<and> drop (length s - length p) s = p"

definition trim_prefix :: "string \<Rightarrow> string \<Rightarrow> string" where
  "trim_prefix s p = (if has_prefix s p then drop (length p) s else s)"

definition trim_suffix :: "string \<Rightarrow> string \<Rightarrow> string" where
  "trim_suffix s p = (if has_suffix s p then take (length s - length p) s else s)"

lemma has_prefix_iff: "has_prefix s p \<longleftrightarrow> (\<exists>t. s = p @ t)"
  unfolding has_prefix_def by (metis append_eq_conv_conj append_take_drop_id)

lemma has_suffix_iff: "has_suffix s p \<longleftrightarrow> (\<exists>t. s = t @ p)"
proof
  assume "has_suffix s p"
  then have "s = take (length s - length p) s @ p"
    unfolding has_suffix_def by (metis append_take_drop_id)
  then show "\<exists>t. s = t @ p" ..
qed (auto simp: has_suffix_def)

lemma has_prefix_append [simp]: "has_prefix (p @ t) p"
  by (simp add: has_prefix_def)

lemma has_suffix_append [simp]: "has_suffix (t @ p) p"
  by (simp add: has_suffix_def)

lemma trim_prefix_append [simp]: "trim_prefix (p @ t) p = t"
  by (simp add: trim_prefix_def)

lemma trim_suffix_append [simp]: "trim_suffix (t @ p) p = t"
  by (simp add: trim_suffix_def)

text \<open>\<^verbatim>\<open>strings.LastIndexByte\<close>: the offset of the last occurrence, if there is one.\<close>

fun last_index_byte :: "string \<Rightarrow> char \<Rightarrow> nat option" where
  "last_index_byte [] c = None"
| "last_index_byte (d # s) c =
     (case last_index_byte s c of
        Some i \<Rightarrow> Some (Suc i)
      | None \<Rightarrow> (if d = c then Some 0 else None))"

lemma last_index_byte_None: "last_index_byte s c = None \<longleftrightarrow> c \<notin> set s"
  by (induction s) (auto split: option.splits)

lemma last_index_byte_Some:
  "last_index_byte s c = Some i \<Longrightarrow>
   i < length s \<and> s ! i = c \<and> c \<notin> set (drop (Suc i) s) \<and> s = take i s @ c # drop (Suc i) s"
  by (induction s arbitrary: i)
     (auto simp: last_index_byte_None split: option.splits if_splits)

lemma last_index_byte_split:
  "c \<notin> set b \<Longrightarrow> last_index_byte (a @ c # b) c = Some (length a)"
  using last_index_byte_None [of b c] by (induction a) auto

text \<open>\<^verbatim>\<open>strings.Split\<close> on a one-byte separator, and \<^verbatim>\<open>strings.Join\<close>.\<close>

fun split_on :: "char \<Rightarrow> string \<Rightarrow> string list" where
  "split_on c [] = [[]]"
| "split_on c (d # s) =
     (if d = c then [] # split_on c s
      else (case split_on c s of [] \<Rightarrow> [[d]] | w # ws \<Rightarrow> (d # w) # ws))"

fun join_with :: "string \<Rightarrow> string list \<Rightarrow> string" where
  "join_with sep [] = []"
| "join_with sep [w] = w"
| "join_with sep (w # ws) = w @ sep @ join_with sep ws"

lemma split_on_nonempty [simp]: "split_on c s \<noteq> []"
  by (cases s) (auto split: list.splits)

lemma split_on_no_sep: "w \<in> set (split_on c s) \<Longrightarrow> c \<notin> set w"
  by (induction s arbitrary: w) (auto split: list.splits if_splits)

lemma join_split: "join_with [c] (split_on c s) = s"
proof (induction s)
  case (Cons d s)
  obtain w ws where "split_on c s = w # ws" by (cases "split_on c s") auto
  with Cons show ?case by (cases ws) auto
qed simp

section \<open>White space and case\<close>

text \<open>
  \<^verbatim>\<open>strings.TrimSpace\<close> drops leading and trailing runes with Unicode's White_Space
  property. These are their UTF-8 encodings.
\<close>

definition space_seqs :: "string list" where
  "space_seqs =
     [[CHR 0x09], [CHR 0x0A], [CHR 0x0B], [CHR 0x0C], [CHR 0x0D], [CHR 0x20],
      [CHR 0xC2, CHR 0x85], [CHR 0xC2, CHR 0xA0], [CHR 0xE1, CHR 0x9A, CHR 0x80],
      [CHR 0xE2, CHR 0x80, CHR 0x80], [CHR 0xE2, CHR 0x80, CHR 0x81],
      [CHR 0xE2, CHR 0x80, CHR 0x82], [CHR 0xE2, CHR 0x80, CHR 0x83],
      [CHR 0xE2, CHR 0x80, CHR 0x84], [CHR 0xE2, CHR 0x80, CHR 0x85],
      [CHR 0xE2, CHR 0x80, CHR 0x86], [CHR 0xE2, CHR 0x80, CHR 0x87],
      [CHR 0xE2, CHR 0x80, CHR 0x88], [CHR 0xE2, CHR 0x80, CHR 0x89],
      [CHR 0xE2, CHR 0x80, CHR 0x8A], [CHR 0xE2, CHR 0x80, CHR 0xA8],
      [CHR 0xE2, CHR 0x80, CHR 0xA9], [CHR 0xE2, CHR 0x80, CHR 0xAF],
      [CHR 0xE2, CHR 0x81, CHR 0x9F], [CHR 0xE3, CHR 0x80, CHR 0x80]]"

definition lead_seq :: "string list \<Rightarrow> string \<Rightarrow> string option" where
  "lead_seq qs s = find (\<lambda>q. q \<noteq> [] \<and> has_prefix s q) qs"

function strip_seqs :: "string list \<Rightarrow> string \<Rightarrow> string" where
  "strip_seqs qs s =
     (case lead_seq qs s of None \<Rightarrow> s | Some q \<Rightarrow> strip_seqs qs (drop (length q) s))"
  by pat_completeness auto
termination
proof (relation "measure (\<lambda>(qs, s). length s)")
  fix qs s q
  assume "lead_seq qs s = Some q"
  then have "q \<noteq> []" "has_prefix s q"
    by (auto simp: lead_seq_def dest!: find_Some_in)
  then have "0 < length q" "s \<noteq> []" by (auto simp: has_prefix_def)
  then show "((qs, drop (length q) s), (qs, s)) \<in> measure (\<lambda>(qs, s). length s)"
    by simp
qed simp

declare strip_seqs.simps [simp del]

definition trim_space :: "string \<Rightarrow> string" where
  "trim_space s = rev (strip_seqs (map rev space_seqs) (rev (strip_seqs space_seqs s)))"

lemma strip_seqs_stop: "lead_seq qs (strip_seqs qs s) = None"
proof (induction qs s rule: strip_seqs.induct)
  case (1 qs s)
  then show ?case by (cases "lead_seq qs s") (simp_all add: strip_seqs.simps [of qs s])
qed

lemma strip_seqs_id: "lead_seq qs s = None \<Longrightarrow> strip_seqs qs s = s"
  by (simp add: strip_seqs.simps)

lemma strip_seqs_suffix: "\<exists>t. s = t @ strip_seqs qs s"
proof (induction qs s rule: strip_seqs.induct)
  case (1 qs s)
  show ?case
  proof (cases "lead_seq qs s")
    case None
    then show ?thesis by (simp add: strip_seqs.simps [of qs s])
  next
    case (Some q)
    with "1.IH" obtain t where "drop (length q) s = t @ strip_seqs qs s"
      by (auto simp: strip_seqs.simps [of qs s])
    then have "s = (take (length q) s @ t) @ strip_seqs qs s"
      by (metis append.assoc append_take_drop_id)
    then show ?thesis ..
  qed
qed

text \<open>Trimming on the right does not bring a space to the front.\<close>

lemma lead_seq_prefix_None:
  "lead_seq qs (s @ t) = None \<Longrightarrow> lead_seq qs s = None"
  unfolding lead_seq_def find_None_all has_prefix_iff by fastforce

lemma trim_space_idem [simp]: "trim_space (trim_space s) = trim_space s"
proof -
  let ?l = "strip_seqs space_seqs s"
  let ?r = "strip_seqs (map rev space_seqs) (rev ?l)"
  obtain t where "rev ?l = t @ ?r" using strip_seqs_suffix by blast
  then have "?l = rev ?r @ rev t" by (metis rev_append rev_rev_ident)
  then have "lead_seq space_seqs (rev ?r) = None"
    by (metis lead_seq_prefix_None strip_seqs_stop)
  then have "strip_seqs space_seqs (rev ?r) = rev ?r" by (rule strip_seqs_id)
  moreover have "strip_seqs (map rev space_seqs) ?r = ?r"
    by (rule strip_seqs_id) (rule strip_seqs_stop)
  ultimately show ?thesis by (simp add: trim_space_def)
qed

text \<open>Printable ASCII without the space is left alone.\<close>

lemma trim_space_plain:
  assumes "\<forall>c \<in> set s. 33 \<le> (of_char c :: nat) \<and> (of_char c :: nat) \<le> 126"
  shows "trim_space s = s"
proof -
  have none: "lead_seq qs t = None"
    if "\<forall>q \<in> set qs. q \<noteq> [] \<and> \<not> (33 \<le> (of_char (hd q) :: nat) \<and> (of_char (hd q) :: nat) \<le> 126)" and "set t \<subseteq> set s" for qs t
  proof -
    have "\<not> has_prefix t q" if q: "q \<in> set qs" for q
    proof
      assume "has_prefix t q"
      then obtain u where "t = q @ u" unfolding has_prefix_iff by blast
      moreover have "q \<noteq> []" using q \<open>\<forall>q \<in> set qs. _ q\<close> by blast
      ultimately have "hd q \<in> set s" using \<open>set t \<subseteq> set s\<close> by (cases q) auto
      then show False using assms q \<open>\<forall>q \<in> set qs. _ q\<close> by blast
    qed
    then show ?thesis unfolding lead_seq_def find_None_all by blast
  qed
  have "strip_seqs space_seqs s = s" by (rule strip_seqs_id, rule none) (simp_all add: space_seqs_def)
  moreover have "strip_seqs (map rev space_seqs) (rev s) = rev s"
    by (rule strip_seqs_id, rule none) (simp_all add: space_seqs_def)
  ultimately show ?thesis by (simp add: trim_space_def)
qed

lemma trim_space_Nil [simp]: "trim_space [] = []"
  by code_simp

text \<open>
  Upper and lower case. The code compares the result with ASCII words only, so what matters
  are the runes whose image is ASCII: the letters, and (upper) the long s and the dotless i,
  (lower) the Kelvin sign and the dotted capital I. Any other rune beyond ASCII is kept;
  Go maps it to a rune beyond ASCII.
\<close>

definition upper_char :: "char \<Rightarrow> char" where
  "upper_char c = (let n = of_char c :: nat in
     if 97 \<le> n \<and> n \<le> 122 then char_of (n - 32) else c)"

definition lower_char :: "char \<Rightarrow> char" where
  "lower_char c = (let n = of_char c :: nat in
     if 65 \<le> n \<and> n \<le> 90 then char_of (n + 32) else c)"

fun to_upper :: "string \<Rightarrow> string" where
  "to_upper [] = []"
| "to_upper [c] = [upper_char c]"
| "to_upper (c # d # s) =
     (if c = CHR 0xC5 \<and> d = CHR 0xBF then CHR ''S'' # to_upper s
      else if c = CHR 0xC4 \<and> d = CHR 0xB1 then CHR ''I'' # to_upper s
      else upper_char c # to_upper (d # s))"

fun to_lower :: "string \<Rightarrow> string" where
  "to_lower [] = []"
| "to_lower [c] = [lower_char c]"
| "to_lower [c, d] =
     (if c = CHR 0xC4 \<and> d = CHR 0xB0 then ''i'' else [lower_char c, lower_char d])"
| "to_lower (c # d # e # s) =
     (if c = CHR 0xC4 \<and> d = CHR 0xB0 then CHR ''i'' # to_lower (e # s)
      else if c = CHR 0xE2 \<and> d = CHR 0x84 \<and> e = CHR 0xAA then CHR ''k'' # to_lower s
      else lower_char c # to_lower (d # e # s))"

section \<open>Numbers\<close>

definition digit_char :: "nat \<Rightarrow> char" where
  "digit_char d = char_of (48 + d)"

definition is_digit :: "char \<Rightarrow> bool" where
  "is_digit c \<longleftrightarrow> 48 \<le> (of_char c :: nat) \<and> (of_char c :: nat) \<le> 57"

definition digit_val :: "char \<Rightarrow> nat" where
  "digit_val c = of_char c - 48"

fun dec_digits :: "nat \<Rightarrow> string" where
  "dec_digits n = (if n < 10 then [digit_char n] else dec_digits (n div 10) @ [digit_char (n mod 10)])"

declare dec_digits.simps [simp del]

text \<open>\<^verbatim>\<open>fmt.Sprintf("%d", n)\<close>.\<close>

definition show_int :: "int \<Rightarrow> string" where
  "show_int n = (if n < 0 then CHR ''-'' # dec_digits (nat (- n)) else dec_digits (nat n))"

definition dec_val :: "string \<Rightarrow> nat" where
  "dec_val s = foldl (\<lambda>acc c. 10 * acc + digit_val c) 0 s"

text \<open>\<^verbatim>\<open>strconv.ParseUint(s, 10, bits)\<close>: digits only, at least one, and in range.\<close>

definition parse_uint :: "nat \<Rightarrow> string \<Rightarrow> nat option" where
  "parse_uint bits s =
     (if s = [] \<or> \<not> list_all is_digit s then None
      else if dec_val s < 2 ^ bits then Some (dec_val s) else None)"

lemma digit_char_props [simp]:
  assumes "d < 10"
  shows "is_digit (digit_char d)" and "digit_val (digit_char d) = d"
  using assms by (auto simp: is_digit_def digit_val_def digit_char_def)

lemma dec_digits_digits: "list_all is_digit (dec_digits n)"
  by (induction n rule: dec_digits.induct) (subst dec_digits.simps, simp)

lemma dec_digits_nonempty [simp]: "dec_digits n \<noteq> []"
  by (subst dec_digits.simps) simp

lemma dec_val_snoc [simp]: "dec_val (s @ [c]) = 10 * dec_val s + digit_val c"
  by (simp add: dec_val_def)

lemma dec_val_digits [simp]: "dec_val (dec_digits n) = n"
proof (induction n rule: dec_digits.induct)
  case (1 n)
  show ?case
  proof (cases "n < 10")
    case True
    then show ?thesis by (simp add: dec_digits.simps [of n] dec_val_def)
  next
    case False
    with 1 show ?thesis by (simp add: dec_digits.simps [of n])
  qed
qed

lemma dec_digits_inj [simp]: "dec_digits m = dec_digits n \<longleftrightarrow> m = n"
  by (metis dec_val_digits)

lemma parse_uint_digits: "n < 2 ^ bits \<Longrightarrow> parse_uint bits (dec_digits n) = Some n"
  by (simp add: parse_uint_def dec_digits_digits)

lemma dec_digits_no_char: "\<not> is_digit c \<Longrightarrow> c \<notin> set (dec_digits n)"
  using dec_digits_digits [of n] by (auto simp: list_all_iff)

text \<open>\<^verbatim>\<open>hex.EncodeToString\<close>: two lower-case digits per byte.\<close>

definition hex_digit :: "nat \<Rightarrow> char" where
  "hex_digit d = (if d < 10 then char_of (48 + d) else char_of (87 + d))"

definition hex_encode :: "8 word list \<Rightarrow> string" where
  "hex_encode bs = concat (map (\<lambda>b. [hex_digit (unat b div 16), hex_digit (unat b mod 16)]) bs)"

lemma length_hex_encode [simp]: "length (hex_encode bs) = 2 * length bs"
  by (induction bs) (auto simp: hex_encode_def)

lemma hex_digit_inj: "a < 16 \<Longrightarrow> b < 16 \<Longrightarrow> hex_digit a = hex_digit b \<longleftrightarrow> a = b"
proof -
  assume "a < 16" "b < 16"
  then have "of_char (hex_digit a) = (of_char (hex_digit b) :: nat) \<longleftrightarrow> a = b"
    by (auto simp: hex_digit_def)
  then show ?thesis by simp
qed

lemma unat8_div16: "unat (b :: 8 word) div 16 < 16"
  using unsigned_less [of b, where 'a = nat] by simp

lemma hex_encode_inj: "hex_encode as = hex_encode bs \<longleftrightarrow> as = bs"
proof (induction as arbitrary: bs)
  case Nil
  then show ?case by (cases bs) (auto simp: hex_encode_def)
next
  case (Cons a as)
  show ?case
  proof (cases bs)
    case Nil
    then show ?thesis by (simp add: hex_encode_def)
  next
    case (Cons b bs')
    have "a = b" if "unat a div 16 = unat b div 16" "unat a mod 16 = unat b mod 16"
      using that by (metis div_mult_mod_eq unsigned_word_eqI)
    with Cons Cons.IH [of bs'] show ?thesis
      by (auto simp: hex_encode_def hex_digit_inj unat8_div16)
  qed
qed

end
