(* ===== verification/Go_Json.thy ===== *)
theory Go_Json
  imports Go_Strings
begin

text \<open>
  \<^verbatim>\<open>encoding/json\<close> as the stores use it, between Go structs and JSON documents. A document
  is a tree; the lexical layer between bytes and trees is not modelled, and bytes that are not
  JSON at all are a value of their own (\<open>Junk\<close>), which every decoder refuses.

  A struct codec is a table with one entry per exported field: its JSON name and its setter.
  As in Go, keys are matched exactly or else up to case, unknown keys are skipped, a later key
  overwrites an earlier one, \<open>null\<close> leaves a string or a number as it was and empties a slice,
  a field that is missing keeps its zero value, and a value of the wrong kind or out of range
  fails the whole call.
\<close>

section \<open>Documents\<close>

datatype json =
    JNull
  | JBool bool
  | JNum int
  | JFrac string
  | JStr string
  | JArr "json list"
  | JObj "(string \<times> json) list"

datatype etcd_value = Doc json | Junk string

section \<open>Field setters\<close>

type_synonym 'a field = "string \<times> ('a \<Rightarrow> json \<Rightarrow> 'a option)"

definition set_str :: "(string \<Rightarrow> 'a \<Rightarrow> 'a) \<Rightarrow> 'a \<Rightarrow> json \<Rightarrow> 'a option" where
  "set_str upd a j = (case j of JStr s \<Rightarrow> Some (upd s a) | JNull \<Rightarrow> Some a | _ \<Rightarrow> None)"

definition set_signed :: "nat \<Rightarrow> (int \<Rightarrow> 'a \<Rightarrow> 'a) \<Rightarrow> 'a \<Rightarrow> json \<Rightarrow> 'a option" where
  "set_signed bits upd a j =
     (case j of
        JNum n \<Rightarrow> if - (2 ^ (bits - 1)) \<le> n \<and> n < 2 ^ (bits - 1) then Some (upd n a) else None
      | JNull \<Rightarrow> Some a
      | _ \<Rightarrow> None)"

definition set_unsigned :: "nat \<Rightarrow> (int \<Rightarrow> 'a \<Rightarrow> 'a) \<Rightarrow> 'a \<Rightarrow> json \<Rightarrow> 'a option" where
  "set_unsigned bits upd a j =
     (case j of
        JNum n \<Rightarrow> if 0 \<le> n \<and> n < 2 ^ bits then Some (upd n a) else None
      | JNull \<Rightarrow> Some a
      | _ \<Rightarrow> None)"

fun json_strs :: "json list \<Rightarrow> string list option" where
  "json_strs [] = Some []"
| "json_strs (JStr s # js) = map_option (\<lambda>ss. s # ss) (json_strs js)"
| "json_strs (JNull # js) = map_option (\<lambda>ss. [] # ss) (json_strs js)"
| "json_strs (_ # js) = None"

definition set_strs :: "(string list \<Rightarrow> 'a \<Rightarrow> 'a) \<Rightarrow> 'a \<Rightarrow> json \<Rightarrow> 'a option" where
  "set_strs upd a j =
     (case j of
        JArr js \<Rightarrow> map_option (\<lambda>ss. upd ss a) (json_strs js)
      | JNull \<Rightarrow> Some (upd [] a)
      | _ \<Rightarrow> None)"

section \<open>Decoding\<close>

text \<open>
  Case folding of field names: ASCII letters, the long s (with s) and the Kelvin sign (with k).
\<close>

fun fold_name :: "string \<Rightarrow> string" where
  "fold_name [] = []"
| "fold_name [c] = [upper_char c]"
| "fold_name [c, d] =
     (if c = CHR 0xC5 \<and> d = CHR 0xBF then ''S'' else [upper_char c, upper_char d])"
| "fold_name (c # d # e # s) =
     (if c = CHR 0xC5 \<and> d = CHR 0xBF then CHR ''S'' # fold_name (e # s)
      else if c = CHR 0xE2 \<and> d = CHR 0x84 \<and> e = CHR 0xAA then CHR ''K'' # fold_name s
      else upper_char c # fold_name (d # e # s))"

definition find_field :: "'a field list \<Rightarrow> string \<Rightarrow> ('a \<Rightarrow> json \<Rightarrow> 'a option) option" where
  "find_field fs k =
     (case map_of fs k of
        Some f \<Rightarrow> Some f
      | None \<Rightarrow> map_option snd (find (\<lambda>(n, f). fold_name n = fold_name k) fs))"

fun decode_fields :: "'a field list \<Rightarrow> 'a \<Rightarrow> (string \<times> json) list \<Rightarrow> 'a option" where
  "decode_fields fs a [] = Some a"
| "decode_fields fs a ((k, j) # kvs) =
     (case find_field fs k of
        None \<Rightarrow> decode_fields fs a kvs
      | Some f \<Rightarrow> (case f a j of None \<Rightarrow> None | Some a' \<Rightarrow> decode_fields fs a' kvs))"

text \<open>\<^verbatim>\<open>json.Unmarshal(data, &zero)\<close>; \<open>None\<close> is a non-nil error.\<close>

fun unmarshal :: "'a field list \<Rightarrow> 'a \<Rightarrow> etcd_value \<Rightarrow> 'a option" where
  "unmarshal fs zero (Doc (JObj kvs)) = decode_fields fs zero kvs"
| "unmarshal fs zero (Doc JNull) = Some zero"
| "unmarshal fs zero _ = None"

text \<open>A slice of strings; the stores hold \<open>nil\<close> for an empty one, which encodes as \<open>null\<close>.\<close>

definition json_of_strs :: "string list \<Rightarrow> json" where
  "json_of_strs ss = (if ss = [] then JNull else JArr (map JStr ss))"

section \<open>What the codecs rest on\<close>

lemma json_strs_map [simp]: "json_strs (map JStr ss) = Some ss"
  by (induction ss) auto

lemma set_str_JStr [codec_simps]: "set_str upd a (JStr s) = Some (upd s a)"
  by (simp add: set_str_def)

lemma set_strs_of_strs [codec_simps]: "set_strs upd a (json_of_strs ss) = Some (upd ss a)"
  by (auto simp: set_strs_def json_of_strs_def)

lemma set_signed_sint32 [codec_simps]:
  "set_signed 32 upd a (JNum (sint (w :: i32))) = Some (upd (sint w) a)"
  using sint_range_size [of w] by (simp add: set_signed_def word_size)

lemma set_signed_sint64 [codec_simps]:
  "set_signed 64 upd a (JNum (sint (w :: i64))) = Some (upd (sint w) a)"
  using sint_range_size [of w] by (simp add: set_signed_def word_size)

lemma set_unsigned_uint32 [codec_simps]:
  "set_unsigned 32 upd a (JNum (uint (w :: u32))) = Some (upd (uint w) a)"
  using uint_range_size [of w] by (simp add: set_unsigned_def word_size)

lemma find_field_exact: "map_of fs k = Some f \<Longrightarrow> find_field fs k = Some f"
  by (simp add: find_field_def)

text \<open>Decoding what a complete encoder wrote: every key is found and its setter runs.\<close>

lemma decode_fields_Cons_exact [codec_simps]:
  "map_of fs k = Some f \<Longrightarrow> f a j = Some a' \<Longrightarrow>
   decode_fields fs a ((k, j) # kvs) = decode_fields fs a' kvs"
  by (simp add: find_field_exact)

end
