(* ===== verification/Etcd_Client.thy ===== *)
theory Etcd_Client
  imports Go_Json
begin

text \<open>
  The etcd client the stores are written against. The service itself is not code of this
  repository: it is a parameter, a record of the four calls the stores make, and what the
  stores rely on is stated in \<open>Etcd_Contract\<close> by two locales over it, against the revisioned
  key-value table defined here.

  A store operation is a program over those calls (\<open>etcd_prog\<close>): one constructor per call,
  with the continuation on its response. \<open>exec\<close> runs a program against a service.
\<close>

section \<open>The key-value table\<close>

type_synonym rpc_err = string

record kv =
  kv_key :: string
  kv_val :: etcd_value
  create_rev :: nat
  mod_rev :: nat

record kvdb =
  db_rev :: nat
  db_kvs :: "kv list"

definition db_empty :: kvdb where
  "db_empty = \<lparr>db_rev = 1, db_kvs = []\<rparr>"

text \<open>
  How a read selects and orders keys: one key, a prefix in key order, or a prefix in the order
  of the create revisions.
\<close>

datatype get_opt = Exact | Prefix | PrefixByCreate

definition db_lookup :: "kvdb \<Rightarrow> string \<Rightarrow> kv option" where
  "db_lookup db k = find (\<lambda>x. kv_key x = k) (db_kvs db)"

definition db_value :: "kvdb \<Rightarrow> string \<Rightarrow> etcd_value option" where
  "db_value db k = map_option kv_val (db_lookup db k)"

fun db_get :: "string \<Rightarrow> get_opt \<Rightarrow> kvdb \<Rightarrow> kv list" where
  "db_get k Exact db = (case db_lookup db k of None \<Rightarrow> [] | Some x \<Rightarrow> [x])"
| "db_get k Prefix db = sort_key kv_key (filter (\<lambda>x. has_prefix (kv_key x) k) (db_kvs db))"
| "db_get k PrefixByCreate db = sort_key create_rev (filter (\<lambda>x. has_prefix (kv_key x) k) (db_kvs db))"

definition kvs_put :: "nat \<Rightarrow> string \<Rightarrow> etcd_value \<Rightarrow> kv list \<Rightarrow> kv list" where
  "kvs_put r k v xs =
     (if k \<in> kv_key ` set xs
      then map (\<lambda>x. if kv_key x = k then x\<lparr>kv_val := v, mod_rev := r\<rparr> else x) xs
      else xs @ [\<lparr>kv_key = k, kv_val = v, create_rev = r, mod_rev = r\<rparr>])"

definition kvs_del :: "string \<Rightarrow> kv list \<Rightarrow> kv list" where
  "kvs_del k xs = filter (\<lambda>x. kv_key x \<noteq> k) xs"

text \<open>Comparisons and operations of a transaction; a missing key has revision 0.\<close>

datatype cmp = CreateRevEq string nat | CreateRevNe string nat | ModRevEq string nat

datatype op = OpPut string etcd_value | OpDelete string

definition rev_of :: "(kv \<Rightarrow> nat) \<Rightarrow> kvdb \<Rightarrow> string \<Rightarrow> nat" where
  "rev_of f db k = (case db_lookup db k of None \<Rightarrow> 0 | Some x \<Rightarrow> f x)"

fun db_cmp :: "cmp \<Rightarrow> kvdb \<Rightarrow> bool" where
  "db_cmp (CreateRevEq k n) db \<longleftrightarrow> rev_of create_rev db k = n"
| "db_cmp (CreateRevNe k n) db \<longleftrightarrow> rev_of create_rev db k \<noteq> n"
| "db_cmp (ModRevEq k n) db \<longleftrightarrow> rev_of mod_rev db k = n"

fun op_apply :: "nat \<Rightarrow> op \<Rightarrow> kv list \<Rightarrow> kv list" where
  "op_apply r (OpPut k v) xs = kvs_put r k v xs"
| "op_apply r (OpDelete k) xs = kvs_del k xs"

text \<open>A group of writes is one revision; a group that deletes nothing is none.\<close>

definition db_apply :: "op list \<Rightarrow> kvdb \<Rightarrow> kvdb" where
  "db_apply ops db =
     (let r = Suc (db_rev db); xs = fold (op_apply r) ops (db_kvs db) in
      if xs = db_kvs db then db else \<lparr>db_rev = r, db_kvs = xs\<rparr>)"

text \<open>The server's default for \<^verbatim>\<open>--max-txn-ops\<close>.\<close>

definition max_txn_ops :: nat where
  "max_txn_ops = 128"

definition db_put :: "string \<Rightarrow> etcd_value \<Rightarrow> kvdb \<Rightarrow> (rpc_err, unit) result \<times> kvdb" where
  "db_put k v db = (Inr (), db_apply [OpPut k v] db)"

definition db_del :: "string \<Rightarrow> kvdb \<Rightarrow> (rpc_err, nat) result \<times> kvdb" where
  "db_del k db = (Inr (case db_lookup db k of None \<Rightarrow> 0 | Some _ \<Rightarrow> 1), db_apply [OpDelete k] db)"

definition db_txn :: "cmp \<Rightarrow> op list \<Rightarrow> kvdb \<Rightarrow> (rpc_err, bool) result \<times> kvdb" where
  "db_txn c ops db =
     (if max_txn_ops < length ops then (Inl ''etcdserver: too many operations in txn request'', db)
      else if db_cmp c db then (Inr True, db_apply ops db)
      else (Inr False, db))"

section \<open>Clients and programs\<close>

record 's etcd_client =
  c_get :: "string \<Rightarrow> get_opt \<Rightarrow> 's \<Rightarrow> (rpc_err, kv list) result \<times> 's"
  c_put :: "string \<Rightarrow> etcd_value \<Rightarrow> 's \<Rightarrow> (rpc_err, unit) result \<times> 's"
  c_del :: "string \<Rightarrow> 's \<Rightarrow> (rpc_err, nat) result \<times> 's"
  c_txn :: "cmp \<Rightarrow> op list \<Rightarrow> 's \<Rightarrow> (rpc_err, bool) result \<times> 's"

datatype 'a etcd_prog =
    Done 'a
  | Get string get_opt "(rpc_err, kv list) result \<Rightarrow> 'a etcd_prog"
  | Put string etcd_value "(rpc_err, unit) result \<Rightarrow> 'a etcd_prog"
  | Del string "(rpc_err, nat) result \<Rightarrow> 'a etcd_prog"
  | Txn cmp "op list" "(rpc_err, bool) result \<Rightarrow> 'a etcd_prog"

primrec bind_prog :: "'a etcd_prog \<Rightarrow> ('a \<Rightarrow> 'b etcd_prog) \<Rightarrow> 'b etcd_prog" where
  "bind_prog (Done a) f = f a"
| "bind_prog (Get k o' c) f = Get k o' (\<lambda>r. bind_prog (c r) f)"
| "bind_prog (Put k v c) f = Put k v (\<lambda>r. bind_prog (c r) f)"
| "bind_prog (Del k c) f = Del k (\<lambda>r. bind_prog (c r) f)"
| "bind_prog (Txn g ops c) f = Txn g ops (\<lambda>r. bind_prog (c r) f)"

primrec exec :: "('s, 'm) etcd_client_scheme \<Rightarrow> 'a etcd_prog \<Rightarrow> 's \<Rightarrow> 'a \<times> 's" where
  "exec cl (Done a) s = (a, s)"
| "exec cl (Get k o' c) s = (let (r, s') = c_get cl k o' s in exec cl (c r) s')"
| "exec cl (Put k v c) s = (let (r, s') = c_put cl k v s in exec cl (c r) s')"
| "exec cl (Del k c) s = (let (r, s') = c_del cl k s in exec cl (c r) s')"
| "exec cl (Txn g ops c) s = (let (r, s') = c_txn cl g ops s in exec cl (c r) s')"

lemma exec_bind:
  "exec cl (bind_prog p f) s = (let (a, s') = exec cl p s in exec cl (f a) s')"
  by (induction p arbitrary: s) (auto simp: Let_def split: prod.splits)

text \<open>The client that talks to the table directly.\<close>

definition kv_client :: "kvdb etcd_client" where
  "kv_client =
     \<lparr>c_get = (\<lambda>k o' db. (Inr (db_get k o' db), db)), c_put = db_put, c_del = db_del, c_txn = db_txn\<rparr>"

lemma kv_client_sels [simp]:
  "c_get kv_client k o' db = (Inr (db_get k o' db), db)"
  "c_put kv_client k v db = db_put k v db"
  "c_del kv_client k db = db_del k db"
  "c_txn kv_client g ops db = db_txn g ops db"
  by (simp_all add: kv_client_def)

section \<open>Well-formed tables\<close>

definition wf_db :: "kvdb \<Rightarrow> bool" where
  "wf_db db \<longleftrightarrow>
     distinct (map kv_key (db_kvs db)) \<and>
     (\<forall>x \<in> set (db_kvs db). 1 \<le> create_rev x \<and> create_rev x \<le> mod_rev x \<and> mod_rev x \<le> db_rev db)"

lemma wf_db_empty [simp]: "wf_db db_empty"
  by (simp add: wf_db_def db_empty_def)

lemma map_kv_key_upd [simp]:
  "map (kv_key \<circ> (\<lambda>x. if kv_key x = k then x\<lparr>kv_val := v, mod_rev := r\<rparr> else x)) xs = map kv_key xs"
  by (induction xs) auto

lemma distinct_kvs_put:
  "distinct (map kv_key xs) \<Longrightarrow> distinct (map kv_key (kvs_put r k v xs))"
  by (auto simp: kvs_put_def)

lemma distinct_kvs_del:
  "distinct (map kv_key xs) \<Longrightarrow> distinct (map kv_key (kvs_del k xs))"
  by (simp add: kvs_del_def distinct_map_filter)

lemma distinct_op_apply:
  "distinct (map kv_key xs) \<Longrightarrow> distinct (map kv_key (op_apply r o' xs))"
  by (cases o') (auto simp: distinct_kvs_put distinct_kvs_del)

lemma distinct_ops:
  "distinct (map kv_key xs) \<Longrightarrow> distinct (map kv_key (fold (op_apply r) ops xs))"
  by (induction ops arbitrary: xs) (auto simp: distinct_op_apply)

lemma op_apply_from:
  "x \<in> set (op_apply r o' xs) \<Longrightarrow>
   x \<in> set xs \<or> (mod_rev x = r \<and> (create_rev x = r \<or> (\<exists>y \<in> set xs. create_rev x = create_rev y)))"
  by (cases o') (auto simp: kvs_put_def kvs_del_def split: if_splits)

lemma ops_from:
  "x \<in> set (fold (op_apply r) ops xs) \<Longrightarrow>
   x \<in> set xs \<or> (mod_rev x = r \<and> (create_rev x = r \<or> (\<exists>y \<in> set xs. create_rev x = create_rev y)))"
proof (induction ops arbitrary: xs)
  case (Cons o' ops)
  from Cons.IH [of "op_apply r o' xs"] Cons.prems
  have "x \<in> set (op_apply r o' xs) \<or>
    (mod_rev x = r \<and> (create_rev x = r \<or> (\<exists>y \<in> set (op_apply r o' xs). create_rev x = create_rev y)))"
    by simp
  then show ?case by (metis op_apply_from)
qed simp

lemma wf_db_apply: "wf_db db \<Longrightarrow> wf_db (db_apply ops db)"
proof -
  assume wf: "wf_db db"
  have "1 \<le> create_rev x \<and> create_rev x \<le> mod_rev x \<and> mod_rev x \<le> Suc (db_rev db)"
    if "x \<in> set (fold (op_apply (Suc (db_rev db))) ops (db_kvs db))" for x
    using ops_from [OF that] wf unfolding wf_db_def by fastforce
  with wf show ?thesis
    by (auto simp: db_apply_def Let_def wf_db_def distinct_ops)
qed

lemma db_rev_apply: "db_rev db \<le> db_rev (db_apply ops db)"
  by (auto simp: db_apply_def Let_def)

section \<open>Reading back\<close>

definition kvs_lookup :: "kv list \<Rightarrow> string \<Rightarrow> kv option" where
  "kvs_lookup xs k = find (\<lambda>x. kv_key x = k) xs"

lemma db_lookup_kvs: "db_lookup db k = kvs_lookup (db_kvs db) k"
  by (simp add: db_lookup_def kvs_lookup_def)

lemma kvs_lookup_None: "kvs_lookup xs k = None \<longleftrightarrow> k \<notin> kv_key ` set xs"
  by (auto simp: kvs_lookup_def find_None_all)

lemma kvs_lookup_put:
  "kvs_lookup (kvs_put r k v xs) j =
     (if j = k then
        Some (case kvs_lookup xs k of
                None \<Rightarrow> \<lparr>kv_key = k, kv_val = v, create_rev = r, mod_rev = r\<rparr>
              | Some x \<Rightarrow> x\<lparr>kv_val := v, mod_rev := r\<rparr>)
      else kvs_lookup xs j)"
proof (cases "k \<in> kv_key ` set xs")
  case True
  have upd: "find (\<lambda>x. kv_key x = j) (map (\<lambda>x. if kv_key x = k then x\<lparr>kv_val := v, mod_rev := r\<rparr> else x) ys) =
    (if j = k then map_option (\<lambda>x. x\<lparr>kv_val := v, mod_rev := r\<rparr>) (find (\<lambda>x. kv_key x = k) ys)
     else find (\<lambda>x. kv_key x = j) ys)" for ys
    by (induction ys) auto
  obtain y where "kvs_lookup xs k = Some y"
    using True kvs_lookup_None [of xs k] by (cases "kvs_lookup xs k") auto
  with True show ?thesis by (auto simp: kvs_put_def kvs_lookup_def upd)
next
  case False
  have app: "find P (ys @ [y]) = (case find P ys of Some x \<Rightarrow> Some x | None \<Rightarrow> if P y then Some y else None)"
    for P :: "kv \<Rightarrow> bool" and ys y
    by (induction ys) auto
  from False have "kvs_lookup xs k = None" by (simp add: kvs_lookup_None)
  with False show ?thesis
    by (auto simp: kvs_put_def kvs_lookup_def app split: option.splits)
qed

lemma kvs_lookup_del:
  "kvs_lookup (kvs_del k xs) j = (if j = k then None else kvs_lookup xs j)"
  by (induction xs) (auto simp: kvs_del_def kvs_lookup_def)

lemma kvs_put_changes: "kvs_put (Suc n) k v xs = xs \<Longrightarrow> (\<forall>x \<in> set xs. mod_rev x \<le> n) \<Longrightarrow> False"
proof -
  assume eq: "kvs_put (Suc n) k v xs = xs" and old: "\<forall>x \<in> set xs. mod_rev x \<le> n"
  obtain x where "kvs_lookup (kvs_put (Suc n) k v xs) k = Some x" and rev: "mod_rev x = Suc n"
    by (auto simp: kvs_lookup_put split: option.splits)
  then have "x \<in> set xs" using eq by (auto simp: kvs_lookup_def dest!: find_Some_in)
  with old rev show False by fastforce
qed

lemma kvs_del_id: "kvs_del k xs = xs \<longleftrightarrow> kvs_lookup xs k = None"
  by (auto simp: kvs_del_def kvs_lookup_None filter_id_conv image_iff)

end
