(* ===== verification/Etcd_Contract.thy ===== *)
theory Etcd_Contract
  imports Etcd_Client
begin

text \<open>
  What the stores rely on of the etcd service. \<open>iexec\<close> is the run of a program with other
  clients' writes between its own calls and with calls that fail; \<open>etcd_shared\<close> is the contract
  of a service that may be used by others and may fail, and its runs are such runs.
  \<open>etcd_exclusive\<close> is the contract of a service with no other client and no failure: its runs
  are those of the key-value table itself, so what is proved of a store on the table holds on
  every such service.
\<close>

section \<open>Other clients\<close>

inductive env_step :: "kvdb \<Rightarrow> kvdb \<Rightarrow> bool" where
  env_write: "env_step db (db_apply ops db)"

abbreviation env_steps :: "kvdb \<Rightarrow> kvdb \<Rightarrow> bool" where
  "env_steps \<equiv> env_step\<^sup>*\<^sup>*"

inductive_cases env_stepE [elim!]: "env_step db db'"

lemma env_steps_write [intro]: "env_steps db (db_apply ops db)"
  by (blast intro: env_write)

lemma env_steps_wf: "env_steps db db' \<Longrightarrow> wf_db db \<Longrightarrow> wf_db db'"
  by (induction rule: rtranclp_induct) (auto simp: wf_db_apply)

lemma env_steps_rev: "env_steps db db' \<Longrightarrow> db_rev db \<le> db_rev db'"
  by (induction rule: rtranclp_induct) (auto intro: order_trans db_rev_apply)

text \<open>
  A key's value cannot change and come back under the same mod revision: this is what a
  compare on the mod revision rests on.
\<close>

lemma db_apply_lookup:
  assumes "db_lookup (db_apply ops db) k = Some y" and "wf_db db"
  shows "db_lookup db k = Some y \<or> mod_rev y = Suc (db_rev db)"
proof (cases "fold (op_apply (Suc (db_rev db))) ops (db_kvs db) = db_kvs db")
  case True
  with assms show ?thesis by (simp add: db_apply_def)
next
  case False
  with assms(1) have "y \<in> set (fold (op_apply (Suc (db_rev db))) ops (db_kvs db))" and "kv_key y = k"
    by (auto simp: db_apply_def Let_def db_lookup_def dest!: find_Some_in)
  with ops_from assms(2) find_distinct_key [of kv_key "db_kvs db" y] show ?thesis
    by (auto simp: wf_db_def db_lookup_def)
qed

lemma env_steps_lookup:
  assumes "env_steps db db'" and "wf_db db" and "db_lookup db' k = Some y"
  shows "db_lookup db k = Some y \<or> db_rev db < mod_rev y"
  using assms
proof (induction arbitrary: y rule: rtranclp_induct)
  case base
  then show ?case by simp
next
  case (step m m')
  then obtain ops where m': "m' = db_apply ops m" by auto
  have wf: "wf_db m" using step.hyps(1) step.prems(1) by (rule env_steps_wf)
  from db_apply_lookup [OF _ wf] step.prems(2) m'
  have "db_lookup m k = Some y \<or> mod_rev y = Suc (db_rev m)" by simp
  then show ?case
  proof
    assume "db_lookup m k = Some y"
    with step.IH step.prems(1) show ?case by blast
  next
    assume "mod_rev y = Suc (db_rev m)"
    with env_steps_rev [OF step.hyps(1)] show ?case by simp
  qed
qed

lemma same_mod_rev:
  assumes "env_steps db db'" and "wf_db db"
    and "db_lookup db k = Some x" and "db_cmp (ModRevEq k (mod_rev x)) db'"
  shows "db_lookup db' k = Some x"
proof (cases "db_lookup db' k")
  case None
  have "1 \<le> mod_rev x"
    using assms(2,3) by (auto simp: wf_db_def db_lookup_def dest!: find_Some_in)
  with None assms(4) show ?thesis by (simp add: rev_of_def)
next
  case (Some y)
  have "mod_rev x \<le> db_rev db"
    using assms(2,3) by (auto simp: wf_db_def db_lookup_def dest!: find_Some_in)
  moreover from Some assms(4) have "mod_rev y = mod_rev x" by (simp add: rev_of_def)
  ultimately have "db_lookup db k = Some y"
    using env_steps_lookup [OF assms(1,2) Some] by simp
  with assms(3) Some show ?thesis by simp
qed

section \<open>Runs with interference and failures\<close>

inductive iexec :: "'a etcd_prog \<Rightarrow> kvdb \<Rightarrow> 'a \<Rightarrow> kvdb \<Rightarrow> bool" where
  iDone: "iexec (Done a) db a db"
| iGet: "env_steps db m \<Longrightarrow> iexec (c (Inr (db_get k o' m))) m a db' \<Longrightarrow> iexec (Get k o' c) db a db'"
| iGetFail: "env_steps db m \<Longrightarrow> iexec (c (Inl e)) m a db' \<Longrightarrow> iexec (Get k o' c) db a db'"
| iPut: "env_steps db m \<Longrightarrow> db_put k v m = (r, m') \<Longrightarrow> iexec (c r) m' a db' \<Longrightarrow> iexec (Put k v c) db a db'"
| iPutFail: "env_steps db m \<Longrightarrow> m' = m \<or> m' = snd (db_put k v m) \<Longrightarrow> iexec (c (Inl e)) m' a db'
    \<Longrightarrow> iexec (Put k v c) db a db'"
| iDel: "env_steps db m \<Longrightarrow> db_del k m = (r, m') \<Longrightarrow> iexec (c r) m' a db' \<Longrightarrow> iexec (Del k c) db a db'"
| iDelFail: "env_steps db m \<Longrightarrow> m' = m \<or> m' = snd (db_del k m) \<Longrightarrow> iexec (c (Inl e)) m' a db'
    \<Longrightarrow> iexec (Del k c) db a db'"
| iTxn: "env_steps db m \<Longrightarrow> db_txn g ops m = (r, m') \<Longrightarrow> iexec (c r) m' a db' \<Longrightarrow> iexec (Txn g ops c) db a db'"
| iTxnFail: "env_steps db m \<Longrightarrow> m' = m \<or> m' = snd (db_txn g ops m) \<Longrightarrow> iexec (c (Inl e)) m' a db'
    \<Longrightarrow> iexec (Txn g ops c) db a db'"

inductive_simps iexec_Done [simp]: "iexec (Done b) db a db'"
inductive_cases iexec_GetE: "iexec (Get k o' c) db a db'"
inductive_cases iexec_PutE: "iexec (Put k v c) db a db'"
inductive_cases iexec_DelE: "iexec (Del k c) db a db'"
inductive_cases iexec_TxnE: "iexec (Txn g ops c) db a db'"

lemma snd_db_put: "snd (db_put k v m) = db_apply [OpPut k v] m"
  by (simp add: db_put_def)

lemma snd_db_del: "snd (db_del k m) = db_apply [OpDelete k] m"
  by (simp add: db_del_def)

lemma snd_db_txn: "snd (db_txn g ops m) \<in> {m, db_apply ops m}"
  by (simp add: db_txn_def)

lemma db_writes_env:
  "env_steps m (snd (db_put k v m))" "env_steps m (snd (db_del k m))" "env_steps m (snd (db_txn g ops m))"
  using snd_db_txn [of g ops m] by (auto simp: snd_db_put snd_db_del)

lemma db_writes_env_eq:
  "db_put k v m = (u, m') \<Longrightarrow> env_steps m m'"
  "db_del k m = (n, m') \<Longrightarrow> env_steps m m'"
  "db_txn g ops m = (b, m') \<Longrightarrow> env_steps m m'"
  "m' = m \<or> m' = snd (db_put k v m) \<Longrightarrow> env_steps m m'"
  "m' = m \<or> m' = snd (db_del k m) \<Longrightarrow> env_steps m m'"
  "m' = m \<or> m' = snd (db_txn g ops m) \<Longrightarrow> env_steps m m'"
  using db_writes_env by (metis rtranclp.rtrancl_refl snd_conv)+

text \<open>A run only ever moves the table by writes, so revisions and well-formedness carry over.\<close>

lemma iexec_env: "iexec p db a db' \<Longrightarrow> env_steps db db'"
  by (induction rule: iexec.induct)
     (auto intro: rtranclp_trans dest!: db_writes_env_eq)

section \<open>The contract of a shared service\<close>

locale etcd_shared =
  fixes cl :: "'s etcd_client" and view :: "'s \<Rightarrow> kvdb" and ok :: "'s \<Rightarrow> bool"
  assumes ok_wf: "ok s \<Longrightarrow> wf_db (view s)"
    and get_law: "ok s \<Longrightarrow> c_get cl k o' s = (x, s') \<Longrightarrow>
      ok s' \<and> env_steps (view s) (view s') \<and> (x = Inr (db_get k o' (view s')) \<or> (\<exists>e. x = Inl e))"
    and put_law: "ok s \<Longrightarrow> c_put cl k v s = (u, s') \<Longrightarrow>
      ok s' \<and> (\<exists>m. env_steps (view s) m \<and>
        ((u, view s') = db_put k v m \<or> (\<exists>e. u = Inl e \<and> view s' \<in> {m, snd (db_put k v m)})))"
    and del_law: "ok s \<Longrightarrow> c_del cl k s = (n, s') \<Longrightarrow>
      ok s' \<and> (\<exists>m. env_steps (view s) m \<and>
        ((n, view s') = db_del k m \<or> (\<exists>e. n = Inl e \<and> view s' \<in> {m, snd (db_del k m)})))"
    and txn_law: "ok s \<Longrightarrow> c_txn cl g ops s = (b, s') \<Longrightarrow>
      ok s' \<and> (\<exists>m. env_steps (view s) m \<and>
        ((b, view s') = db_txn g ops m \<or> (\<exists>e. b = Inl e \<and> view s' \<in> {m, snd (db_txn g ops m)})))"
begin

lemma exec_iexec: "ok s \<Longrightarrow> exec cl p s = (a, s') \<Longrightarrow> iexec p (view s) a (view s') \<and> ok s'"
proof (induction p arbitrary: s)
  case (Done b)
  then show ?case by simp
next
  case (Get k o' c)
  obtain r t where t: "c_get cl k o' s = (r, t)" by fastforce
  from get_law [OF Get.prems(1) t] Get.IH [OF rangeI [of c r], of t] Get.prems(2) t show ?case
    by (auto intro: iGet iGetFail)
next
  case (Put k v c)
  obtain r t where t: "c_put cl k v s = (r, t)" by fastforce
  from put_law [OF Put.prems(1) t] Put.IH [OF rangeI [of c r], of t] Put.prems(2) t show ?case
    by (auto intro: iPut [OF _ sym] iPutFail)
next
  case (Del k c)
  obtain r t where t: "c_del cl k s = (r, t)" by fastforce
  from del_law [OF Del.prems(1) t] Del.IH [OF rangeI [of c r], of t] Del.prems(2) t show ?case
    by (auto intro: iDel [OF _ sym] iDelFail)
next
  case (Txn g ops c)
  obtain r t where t: "c_txn cl g ops s = (r, t)" by fastforce
  from txn_law [OF Txn.prems(1) t] Txn.IH [OF rangeI [of c r], of t] Txn.prems(2) t show ?case
    by (auto intro: iTxn [OF _ sym] iTxnFail)
qed

end

section \<open>The contract of an exclusive, reliable service\<close>

locale etcd_exclusive =
  fixes cl :: "'s etcd_client" and view :: "'s \<Rightarrow> kvdb" and ok :: "'s \<Rightarrow> bool"
  assumes wf_view: "ok s \<Longrightarrow> wf_db (view s)"
    and get_exact: "ok s \<Longrightarrow> \<exists>s'. c_get cl k o' s = (Inr (db_get k o' (view s)), s') \<and> view s' = view s \<and> ok s'"
    and put_exact: "ok s \<Longrightarrow> \<exists>r s'. c_put cl k v s = (r, s') \<and> db_put k v (view s) = (r, view s') \<and> ok s'"
    and del_exact: "ok s \<Longrightarrow> \<exists>n s'. c_del cl k s = (n, s') \<and> db_del k (view s) = (n, view s') \<and> ok s'"
    and txn_exact: "ok s \<Longrightarrow> \<exists>b s'. c_txn cl g ops s = (b, s') \<and> db_txn g ops (view s) = (b, view s') \<and> ok s'"
begin

lemma exec_sim:
  "ok s \<Longrightarrow> exec cl p s = (a, s') \<Longrightarrow> exec kv_client p (view s) = (a, view s') \<and> ok s'"
proof (induction p arbitrary: s)
  case (Done b)
  then show ?case by simp
next
  case (Get k o' c)
  from get_exact [OF Get.prems(1), of k o'] Get.IH Get.prems(2) show ?case by fastforce
next
  case (Put k v c)
  from put_exact [OF Put.prems(1), of k v] Put.IH Put.prems(2) show ?case by fastforce
next
  case (Del k c)
  from del_exact [OF Del.prems(1), of k] Del.IH Del.prems(2) show ?case by fastforce
next
  case (Txn g ops c)
  from txn_exact [OF Txn.prems(1), of g ops] Txn.IH Txn.prems(2) show ?case by fastforce
qed

text \<open>A fact about every run on the table is a fact about every run on the service.\<close>

lemma exec_view:
  assumes "ok s" and "exec kv_client p (view s) = (a, db')"
  shows "\<exists>s'. exec cl p s = (a, s') \<and> view s' = db' \<and> ok s'"
proof -
  obtain b s' where run: "exec cl p s = (b, s')" by fastforce
  with exec_sim [OF assms(1) run] assms(2) show ?thesis by auto
qed

end

sublocale etcd_exclusive \<subseteq> etcd_shared cl view ok
proof (unfold_locales, goal_cases)
  case (1 s)
  then show ?case by (rule wf_view)
next
  case (2 s k o' r s')
  with get_exact [of s k o'] show ?case by auto
next
  case (3 s k v r s')
  with put_exact [of s k v] show ?case by auto
next
  case (4 s k r' s')
  with del_exact [of s k] show ?case by auto
next
  case (5 s g ops b s')
  with txn_exact [of s g ops] show ?case by auto
qed

lemma wf_db_writes:
  "wf_db m \<Longrightarrow> wf_db (snd (db_put k v m))"
  "wf_db m \<Longrightarrow> wf_db (snd (db_del k m))"
  "wf_db m \<Longrightarrow> wf_db (snd (db_txn g ops m))"
  using snd_db_txn [of g ops m] by (auto simp: snd_db_put snd_db_del wf_db_apply)

interpretation table: etcd_exclusive kv_client "\<lambda>db. db" wf_db
proof (unfold_locales, goal_cases)
  case (3 s k v)
  with wf_db_writes(1) [of s k v] show ?case by (cases "db_put k v s") auto
next
  case (4 s k)
  with wf_db_writes(2) [of s k] show ?case by (cases "db_del k s") auto
next
  case (5 s g ops)
  with wf_db_writes(3) [of s g ops] show ?case by (cases "db_txn g ops s") auto
qed auto

end
