(* ===== verification/Etcd_Rows.thy ===== *)
theory Etcd_Rows
  imports Etcd_Contract
begin

text \<open>
  Rows in the key-value table. Every store keeps one kind of struct under a prefix of its own,
  JSON-encoded, keyed by uuid. \<open>rows_of\<close> reads the rows of a prefix as a map from uuid to
  struct; the locale \<open>row_codec\<close> states what a codec promises (decoding what was encoded gives
  it back) and derives how reads and writes of the table act on the rows.
\<close>

definition rows_of :: "string \<Rightarrow> (etcd_value \<Rightarrow> 'v option) \<Rightarrow> kvdb \<Rightarrow> string \<rightharpoonup> 'v" where
  "rows_of pfx dec db u = (case db_value db (pfx @ u) of None \<Rightarrow> None | Some x \<Rightarrow> dec x)"

text \<open>Every value under the prefix decodes, to a struct that carries the uuid of its key.\<close>

definition rows_ok :: "string \<Rightarrow> (etcd_value \<Rightarrow> 'v option) \<Rightarrow> ('v \<Rightarrow> string) \<Rightarrow> kvdb \<Rightarrow> bool" where
  "rows_ok pfx dec uid db \<longleftrightarrow>
     (\<forall>x \<in> set (db_kvs db). \<forall>u. kv_key x = pfx @ u \<longrightarrow>
        (\<exists>v. dec (kv_val x) = Some v \<and> uid v = u))"

lemma rows_ok_empty [simp]: "rows_ok pfx dec uid db_empty"
  by (simp add: rows_ok_def db_empty_def)

lemma rows_of_empty [simp]: "rows_of pfx dec db_empty = Map.empty"
  by (rule ext) (simp add: rows_of_def db_value_def db_lookup_def db_empty_def)

section \<open>Single writes\<close>

lemma db_apply_kvs: "db_kvs (db_apply ops db) = fold (op_apply (Suc (db_rev db))) ops (db_kvs db)"
  by (simp add: db_apply_def Let_def)

lemma db_value_put:
  "db_value (db_apply [OpPut k v] db) j = (if j = k then Some v else db_value db j)"
  by (simp add: db_value_def db_lookup_kvs db_apply_kvs kvs_lookup_put split: option.splits)

lemma db_value_del:
  "db_value (db_apply [OpDelete k] db) j = (if j = k then None else db_value db j)"
  by (simp add: db_value_def db_lookup_kvs db_apply_kvs kvs_lookup_del)

lemma set_kvs_put:
  "x \<in> set (kvs_put r k v xs) \<Longrightarrow> x \<in> set xs \<and> kv_key x \<noteq> k \<or> kv_key x = k \<and> kv_val x = v"
  by (auto simp: kvs_put_def split: if_splits)

lemma set_kvs_del: "x \<in> set (kvs_del k xs) \<longleftrightarrow> x \<in> set xs \<and> kv_key x \<noteq> k"
  by (auto simp: kvs_del_def)

lemma db_lookup_in: "db_lookup db k = Some x \<Longrightarrow> x \<in> set (db_kvs db) \<and> kv_key x = k"
  by (auto simp: db_lookup_def dest!: find_Some_in)

lemma in_db_lookup: "wf_db db \<Longrightarrow> x \<in> set (db_kvs db) \<Longrightarrow> db_lookup db (kv_key x) = Some x"
  by (simp add: db_lookup_def wf_db_def find_distinct_key)

lemma rev_of_create_0: "wf_db db \<Longrightarrow> rev_of create_rev db k = 0 \<longleftrightarrow> db_lookup db k = None"
  by (fastforce simp: rev_of_def wf_db_def split: option.splits dest: db_lookup_in)

lemma has_prefix_key: "has_prefix (pfx @ u) pfx"
  by (rule has_prefix_append)

lemma set_db_get_prefix:
  "set (db_get pfx Prefix db) = {x \<in> set (db_kvs db). \<exists>u. kv_key x = pfx @ u}"
  "set (db_get pfx PrefixByCreate db) = {x \<in> set (db_kvs db). \<exists>u. kv_key x = pfx @ u}"
  by (auto simp: has_prefix_iff)

text \<open>Writes elsewhere leave the rows of a prefix as they are.\<close>

lemma rows_of_put_other:
  "(\<And>u. k \<noteq> pfx @ u) \<Longrightarrow> rows_of pfx dec (db_apply [OpPut k v] db) = rows_of pfx dec db"
  by (rule ext) (auto simp: rows_of_def db_value_put)

lemma rows_ok_put_other:
  "(\<And>u. k \<noteq> pfx @ u) \<Longrightarrow> rows_ok pfx dec uid db \<Longrightarrow> rows_ok pfx dec uid (db_apply [OpPut k v] db)"
  unfolding rows_ok_def db_apply_kvs by (fastforce dest: set_kvs_put)

section \<open>The scan loops\<close>

text \<open>
  Two loops every store runs over the pairs of a prefix: the uniqueness scan, which stops at the
  first struct for which \<open>same\<close> holds, and the listing, which collects the structs that are not
  skipped. Both pass over values that do not decode.
\<close>

fun scan_dup :: "(etcd_value \<Rightarrow> 'v option) \<Rightarrow> ('v \<Rightarrow> bool) \<Rightarrow> kv list \<Rightarrow> bool" where
  "scan_dup dec same [] = False"
| "scan_dup dec same (x # xs) =
     (case dec (kv_val x) of
        None \<Rightarrow> scan_dup dec same xs
      | Some v \<Rightarrow> (if same v then True else scan_dup dec same xs))"

fun scan_list :: "(etcd_value \<Rightarrow> 'v option) \<Rightarrow> ('v \<Rightarrow> bool) \<Rightarrow> kv list \<Rightarrow> 'v list" where
  "scan_list dec skip [] = []"
| "scan_list dec skip (x # xs) =
     (case dec (kv_val x) of
        None \<Rightarrow> scan_list dec skip xs
      | Some v \<Rightarrow> (if skip v then scan_list dec skip xs else v # scan_list dec skip xs))"

lemma scan_dup_iff: "scan_dup dec same xs \<longleftrightarrow> (\<exists>x \<in> set xs. \<exists>v. dec (kv_val x) = Some v \<and> same v)"
  by (induction xs) (auto split: option.splits)

lemma set_scan_list:
  "set (scan_list dec skip xs) = {v. (\<exists>x \<in> set xs. dec (kv_val x) = Some v) \<and> \<not> skip v}"
  by (induction xs) (auto split: option.splits)

lemma scan_list_append [simp]:
  "scan_list dec skip (xs @ ys) = scan_list dec skip xs @ scan_list dec skip ys"
  by (induction xs) (auto split: option.splits)

lemma sort_key_snoc_max:
  assumes "\<forall>y \<in> set xs. f y \<le> f x"
  shows "sort_key f (xs @ [x]) = sort_key f xs @ [x]"
proof (rule properties_for_sort_key)
  show "mset (sort_key f xs @ [x]) = mset (xs @ [x])" by simp
  show "sorted (map f (sort_key f xs @ [x]))" using assms by (auto simp: sorted_append)
  fix k
  show "filter (\<lambda>y. f k = f y) (sort_key f xs @ [x]) = filter (\<lambda>y. f k = f y) (xs @ [x])"
    using sort_key_stable [of f "f k" xs] by (simp add: eq_commute)
qed

section \<open>Codecs\<close>

locale row_codec =
  fixes pfx :: string
    and enc :: "'v \<Rightarrow> etcd_value"
    and dec :: "etcd_value \<Rightarrow> 'v option"
    and uid :: "'v \<Rightarrow> string"
  assumes dec_enc: "dec (enc v) = Some v"
begin

lemma rows_put:
  "rows_of pfx dec (db_apply [OpPut (pfx @ u) (enc v)] db) = (rows_of pfx dec db)(u \<mapsto> v)"
  by (rule ext) (simp add: rows_of_def db_value_put dec_enc)

lemma rows_del:
  "rows_of pfx dec (db_apply [OpDelete (pfx @ u)] db) = (rows_of pfx dec db)(u := None)"
  by (rule ext) (simp add: rows_of_def db_value_del)

lemma ok_put:
  "rows_ok pfx dec uid db \<Longrightarrow> uid v = u \<Longrightarrow> rows_ok pfx dec uid (db_apply [OpPut (pfx @ u) (enc v)] db)"
  unfolding rows_ok_def db_apply_kvs by (fastforce simp: dec_enc dest: set_kvs_put)

lemma ok_del:
  "rows_ok pfx dec uid db \<Longrightarrow> rows_ok pfx dec uid (db_apply [OpDelete k] db)"
  by (auto simp: rows_ok_def db_apply_kvs set_kvs_del)

lemma rows_None:
  "rows_ok pfx dec uid db \<Longrightarrow> rows_of pfx dec db u = None \<longleftrightarrow> db_lookup db (pfx @ u) = None"
  by (fastforce simp: rows_of_def db_value_def rows_ok_def split: option.splits dest: db_lookup_in)

lemma rows_Some:
  "rows_of pfx dec db u = Some v \<longleftrightarrow> (\<exists>x. db_lookup db (pfx @ u) = Some x \<and> dec (kv_val x) = Some v)"
  by (auto simp: rows_of_def db_value_def split: option.splits)

lemma rows_uid:
  "rows_ok pfx dec uid db \<Longrightarrow> rows_of pfx dec db u = Some v \<Longrightarrow> uid v = u"
  by (fastforce simp: rows_Some rows_ok_def dest: db_lookup_in)

text \<open>The two outcomes of reading one key.\<close>

lemma get_cases [consumes 1, case_names miss hit]:
  assumes "rows_ok pfx dec uid db"
  obtains "rows_of pfx dec db u = None" and "db_lookup db (pfx @ u) = None"
  | x v where "rows_of pfx dec db u = Some v" and "db_lookup db (pfx @ u) = Some x"
      and "dec (kv_val x) = Some v" and "uid v = u"
proof (cases "db_lookup db (pfx @ u)")
  case None
  with assms that(1) rows_None show ?thesis by simp
next
  case (Some x)
  with assms rows_None [of db u] obtain v where "rows_of pfx dec db u = Some v" by auto
  with Some that(2) rows_Some rows_uid [OF assms] show ?thesis by auto
qed

text \<open>The values a scan of the prefix decodes are the rows.\<close>

lemma scan_rows:
  assumes "wf_db db" and "o' \<noteq> Exact"
  shows "ran (rows_of pfx dec db) = {v. \<exists>x \<in> set (db_get pfx o' db). dec (kv_val x) = Some v}"
proof -
  have set_get: "set (db_get pfx o' db) = {x \<in> set (db_kvs db). \<exists>u. kv_key x = pfx @ u}"
    using set_db_get_prefix [of pfx db] assms(2) by (cases o') auto
  show ?thesis
    unfolding set_get ran_def rows_Some
    using assms(1) by (auto dest: db_lookup_in) (metis in_db_lookup)
qed

lemma scan_dup_rows:
  "wf_db db \<Longrightarrow> scan_dup dec same (db_get pfx Prefix db) \<longleftrightarrow> (\<exists>v \<in> ran (rows_of pfx dec db). same v)"
  by (auto simp: scan_dup_iff scan_rows [of db Prefix] simp del: db_get.simps)

lemma scan_list_rows:
  "wf_db db \<Longrightarrow>
   set (scan_list dec skip (db_get pfx PrefixByCreate db)) = {v \<in> ran (rows_of pfx dec db). \<not> skip v}"
  by (auto simp: set_scan_list scan_rows [of db PrefixByCreate] simp del: db_get.simps)

text \<open>A new row is listed last.\<close>

lemma scan_list_put_new:
  assumes "wf_db db" and "db_lookup db (pfx @ u) = None"
  shows "scan_list dec skip (db_get pfx PrefixByCreate (db_apply [OpPut (pfx @ u) (enc v)] db)) =
    scan_list dec skip (db_get pfx PrefixByCreate db) @ (if skip v then [] else [v])"
proof -
  let ?x = "\<lparr>kv_key = pfx @ u, kv_val = enc v, create_rev = Suc (db_rev db), mod_rev = Suc (db_rev db)\<rparr>"
  have kvs: "db_kvs (db_apply [OpPut (pfx @ u) (enc v)] db) = db_kvs db @ [?x]"
    using assms(2) by (simp add: db_apply_kvs kvs_put_def db_lookup_kvs kvs_lookup_None)
  have "\<forall>y \<in> set (db_kvs db). create_rev y \<le> create_rev ?x"
    using assms(1) by (fastforce simp: wf_db_def)
  then have "db_get pfx PrefixByCreate (db_apply [OpPut (pfx @ u) (enc v)] db) =
    db_get pfx PrefixByCreate db @ [?x]"
    by (simp add: kvs has_prefix_key sort_key_snoc_max)
  then show ?thesis by (simp add: dec_enc del: db_get.simps)
qed

end

end
