(* ===== verification/Store_Contract.thy ===== *)
theory Store_Contract
  imports Etcd_Rows
begin

text \<open>
  The contract of the row stores (scheduling rules, routers, load balancers): the Go \<open>Store\<close>
  interface of each package, as an abstract specification over a map from uuid to row, and the
  locale that says an implementation refines it. Both backends of each package interpret it.
\<close>

section \<open>Errors\<close>

text \<open>
  The sentinel errors of the store packages, an error of the etcd client wrapped with the text
  of the call site, errors that are only a message, and a run-time panic (which is no Go error
  value: a lemma about it says that it does not happen).
\<close>

datatype store_err =
    ErrAlreadyExists
  | ErrNotFound
  | ErrZoneNotFound
  | ErrWrap string rpc_err
  | ErrMsg string
  | GoPanic string

section \<open>The specification\<close>

definition spec_create ::
  "('v \<Rightarrow> string) \<Rightarrow> ('v \<Rightarrow> 'k) \<Rightarrow> 'v \<Rightarrow> (string \<rightharpoonup> 'v) \<Rightarrow> (store_err, 'v) result \<times> (string \<rightharpoonup> 'v)" where
  "spec_create uid pkey v m =
     (if \<exists>x \<in> ran m. pkey x = pkey v then (Inl ErrAlreadyExists, m) else (Inr v, m(uid v \<mapsto> v)))"

definition spec_delete :: "string \<Rightarrow> (string \<rightharpoonup> 'v) \<Rightarrow> (store_err, unit) result \<times> (string \<rightharpoonup> 'v)" where
  "spec_delete u m = (case m u of None \<Rightarrow> (Inl ErrNotFound, m) | Some _ \<Rightarrow> (Inr (), m(u := None)))"

definition spec_get :: "string \<Rightarrow> (string \<rightharpoonup> 'v) \<Rightarrow> (store_err, 'v) result" where
  "spec_get u m = (case m u of None \<Rightarrow> Inl ErrNotFound | Some v \<Rightarrow> Inr v)"

definition spec_update ::
  "('v \<Rightarrow> 'v) \<Rightarrow> string \<Rightarrow> (string \<rightharpoonup> 'v) \<Rightarrow> (store_err, 'v) result \<times> (string \<rightharpoonup> 'v)" where
  "spec_update f u m =
     (case m u of None \<Rightarrow> (Inl ErrNotFound, m) | Some v \<Rightarrow> (Inr (f v), m(u \<mapsto> f v)))"

text \<open>Sequences of calls, and their results.\<close>

datatype 'v store_call = Create 'v | Delete string | Fetch string

datatype 'v reply = Created "(store_err, 'v) result" | Deleted "(store_err, unit) result"
  | Fetched "(store_err, 'v) result"

fun spec_call ::
  "('v \<Rightarrow> string) \<Rightarrow> ('v \<Rightarrow> 'k) \<Rightarrow> 'v store_call \<Rightarrow> (string \<rightharpoonup> 'v) \<Rightarrow> 'v reply \<times> (string \<rightharpoonup> 'v)" where
  "spec_call uid pkey (Create v) m = apfst Created (spec_create uid pkey v m)"
| "spec_call uid pkey (Delete u) m = apfst Deleted (spec_delete u m)"
| "spec_call uid pkey (Fetch u) m = (Fetched (spec_get u m), m)"

fun run_calls :: "('c \<Rightarrow> 's \<Rightarrow> 'r \<times> 's) \<Rightarrow> 'c list \<Rightarrow> 's \<Rightarrow> 'r list \<times> 's" where
  "run_calls f [] s = ([], s)"
| "run_calls f (c # cs) s = (let (r, s1) = f c s; (rs, s2) = run_calls f cs s1 in (r # rs, s2))"

text \<open>One call on an implementation, given its three operations.\<close>

definition dispatch ::
  "('v \<Rightarrow> 's \<Rightarrow> (store_err, 'v) result \<times> 's) \<Rightarrow> (string \<Rightarrow> 's \<Rightarrow> (store_err, unit) result \<times> 's) \<Rightarrow>
   (string \<Rightarrow> 's \<Rightarrow> (store_err, 'v) result \<times> 's) \<Rightarrow> 'v store_call \<Rightarrow> 's \<Rightarrow> 'v reply \<times> 's" where
  "dispatch create delete fetch c s = (case c of
     Create v \<Rightarrow> apfst Created (create v s)
   | Delete u \<Rightarrow> apfst Deleted (delete u s)
   | Fetch u \<Rightarrow> apfst Fetched (fetch u s))"

text \<open>No \<open>Create\<close> of the sequence reuses the uuid of a row: the server draws 16 random bytes.\<close>

fun fresh_calls :: "('v \<Rightarrow> string) \<Rightarrow> ('v \<Rightarrow> 'k) \<Rightarrow> 'v store_call list \<Rightarrow> (string \<rightharpoonup> 'v) \<Rightarrow> bool" where
  "fresh_calls uid pkey [] m \<longleftrightarrow> True"
| "fresh_calls uid pkey (c # cs) m \<longleftrightarrow>
     (case c of Create v \<Rightarrow> m (uid v) = None | _ \<Rightarrow> True) \<and>
     fresh_calls uid pkey cs (snd (spec_call uid pkey c m))"

section \<open>The contract\<close>

definition rows_keyed :: "('v \<Rightarrow> string) \<Rightarrow> (string \<rightharpoonup> 'v) \<Rightarrow> bool" where
  "rows_keyed uid m \<longleftrightarrow> (\<forall>u v. m u = Some v \<longrightarrow> uid v = u)"

definition rows_unique :: "('v \<Rightarrow> 'k) \<Rightarrow> (string \<rightharpoonup> 'v) \<Rightarrow> bool" where
  "rows_unique pkey m \<longleftrightarrow>
     (\<forall>u v w x. m u = Some v \<longrightarrow> m w = Some x \<longrightarrow> pkey v = pkey x \<longrightarrow> u = w)"

lemma rows_keyed_upd [intro]: "rows_keyed uid m \<Longrightarrow> uid v = u \<Longrightarrow> rows_keyed uid (m(u \<mapsto> v))"
  by (simp add: rows_keyed_def)

lemma rows_keyed_del [intro]: "rows_keyed uid m \<Longrightarrow> rows_keyed uid (m(u := None))"
  by (simp add: rows_keyed_def)

lemma rows_uniqueI:
  "(\<And>u v w x. m u = Some v \<Longrightarrow> m w = Some x \<Longrightarrow> pkey v = pkey x \<Longrightarrow> u = w) \<Longrightarrow> rows_unique pkey m"
  by (simp add: rows_unique_def)

lemma rows_uniqueD:
  "rows_unique pkey m \<Longrightarrow> m u = Some v \<Longrightarrow> m w = Some x \<Longrightarrow> pkey v = pkey x \<Longrightarrow> u = w"
  by (simp add: rows_unique_def)

lemma rows_unique_new:
  assumes "rows_unique pkey m" and "\<not> (\<exists>x \<in> ran m. pkey x = pkey v)"
  shows "rows_unique pkey (m(u \<mapsto> v))"
proof (rule rows_uniqueI)
  fix a x b y
  assume "(m(u \<mapsto> v)) a = Some x" "(m(u \<mapsto> v)) b = Some y" "pkey x = pkey y"
  then show "a = b"
    using assms(2) rows_uniqueD [OF assms(1)] by (cases "a = u"; cases "b = u") (auto simp: ran_def)
qed

lemma rows_unique_del [intro]: "rows_unique pkey m \<Longrightarrow> rows_unique pkey (m(u := None))"
  by (simp add: rows_unique_def)

lemma rows_unique_upd:
  assumes "rows_unique pkey m" and "m u = Some v" and "pkey w = pkey v"
  shows "rows_unique pkey (m(u \<mapsto> w))"
proof (rule rows_uniqueI)
  fix a x b y
  assume "(m(u \<mapsto> w)) a = Some x" "(m(u \<mapsto> w)) b = Some y" "pkey x = pkey y"
  then show "a = b"
    using assms(2,3) rows_uniqueD [OF assms(1)] by (cases "a = u"; cases "b = u") auto
qed

section \<open>The (project, name) index of the memory backends\<close>

text \<open>
  Each in-memory store keeps its rows by uuid and, beside them, an index from
  \<open>"<project>|<name>"\<close> to uuid. The index is exact: it has an entry for every row and no other.
\<close>

definition project_key :: "string \<Rightarrow> string \<Rightarrow> string" where
  "project_key project name = project @ ''|'' @ name"

definition index_inv :: "('v \<Rightarrow> string) \<Rightarrow> ('v \<Rightarrow> 'k) \<Rightarrow> (string \<rightharpoonup> 'v) \<Rightarrow> ('k \<rightharpoonup> string) \<Rightarrow> bool" where
  "index_inv uid pk m idx \<longleftrightarrow>
     rows_keyed uid m \<and> rows_unique pk m \<and> (\<forall>k u. idx k = Some u \<longleftrightarrow> (\<exists>v. m u = Some v \<and> pk v = k))"

lemma index_empty [simp]: "index_inv uid pk Map.empty Map.empty"
  by (simp add: index_inv_def rows_keyed_def rows_unique_def)

lemma index_iff:
  "index_inv uid pk m idx \<Longrightarrow> idx k = Some u \<longleftrightarrow> (\<exists>v. m u = Some v \<and> pk v = k)"
  by (simp add: index_inv_def)

lemma index_lookup: "index_inv uid pk m idx \<Longrightarrow> idx (pk v) = None \<longleftrightarrow> \<not> (\<exists>x \<in> ran m. pk x = pk v)"
  using index_iff [of uid pk m idx "pk v"]
  by (cases "idx (pk v)") (auto simp: ran_def, blast)

lemma index_create:
  assumes idx: "index_inv uid pk m idx" and "m (uid v) = None" and "idx (pk v) = None"
  shows "index_inv uid pk (m(uid v \<mapsto> v)) (idx(pk v \<mapsto> uid v))"
proof -
  have new: "\<not> (\<exists>x \<in> ran m. pk x = pk v)" using index_lookup [OF idx] assms(3) by blast
  have "(idx(pk v \<mapsto> uid v)) k = Some u \<longleftrightarrow> (\<exists>x. (m(uid v \<mapsto> v)) u = Some x \<and> pk x = k)" for k u
    using assms(2) index_iff [OF idx, of k u] new by (cases "k = pk v"; cases "u = uid v") (auto simp: ran_def)
  with idx rows_unique_new [OF _ new] show ?thesis by (auto simp: index_inv_def)
qed

lemma index_delete:
  assumes idx: "index_inv uid pk m idx" and m: "m u = Some v"
  shows "index_inv uid pk (m(u := None)) (idx(pk v := None))"
proof -
  have "(idx(pk v := None)) k = Some w \<longleftrightarrow> (\<exists>x. (m(u := None)) w = Some x \<and> pk x = k)" for k w
  proof (cases "k = pk v")
    case True
    then show ?thesis using idx m rows_uniqueD [of pk m w _ u v] by (auto simp: index_inv_def)
  next
    case False
    then show ?thesis using m index_iff [OF idx, of k w] by (cases "w = u") auto
  qed
  with idx show ?thesis by (auto simp: index_inv_def)
qed

lemma index_update:
  assumes "index_inv uid pk m idx" and "m u = Some v" and "uid w = uid v" and "pk w = pk v"
  shows "index_inv uid pk (m(u \<mapsto> w)) idx"
  using assms rows_unique_upd [of pk m u v w] by (auto simp: index_inv_def rows_keyed_def)

text \<open>The concatenated key tells (project, name) apart where projects have no bar.\<close>

lemma project_key_inj:
  assumes "CHR ''|'' \<notin> set p" and "CHR ''|'' \<notin> set q"
  shows "project_key p m = project_key q n \<longleftrightarrow> p = q \<and> m = n"
proof -
  have "takeWhile (\<lambda>c. c \<noteq> CHR ''|'') (project_key r k) = r" if "CHR ''|'' \<notin> set r" for r k
    using that by (induction r) (auto simp: project_key_def)
  from this [OF assms(1)] this [OF assms(2)] show ?thesis
    by (metis append_same_eq project_key_def same_append_eq)
qed

section \<open>Implementations\<close>

locale row_store =
  fixes rows :: "'s \<Rightarrow> string \<rightharpoonup> 'v"
    and good :: "'s \<Rightarrow> bool"
    and create :: "'v \<Rightarrow> 's \<Rightarrow> (store_err, 'v) result \<times> 's"
    and delete :: "string \<Rightarrow> 's \<Rightarrow> (store_err, unit) result \<times> 's"
    and fetch :: "string \<Rightarrow> 's \<Rightarrow> (store_err, 'v) result \<times> 's"
    and uid :: "'v \<Rightarrow> string"
    and pkey :: "'v \<Rightarrow> 'k"
  assumes inv_keyed: "good s \<Longrightarrow> rows_keyed uid (rows s)"
    and inv_unique: "good s \<Longrightarrow> rows_unique pkey (rows s)"
    and create_sim: "good s \<Longrightarrow> rows s (uid v) = None \<Longrightarrow> create v s = (r, s') \<Longrightarrow>
      spec_create uid pkey v (rows s) = (r, rows s') \<and> good s'"
    and delete_sim: "good s \<Longrightarrow> delete u s = (d, s') \<Longrightarrow> spec_delete u (rows s) = (d, rows s') \<and> good s'"
    and fetch_sim: "good s \<Longrightarrow> fetch u s = (r, s') \<Longrightarrow> r = spec_get u (rows s) \<and> rows s' = rows s \<and> good s'"
begin

lemma call_sim:
  assumes "good s" and "fresh_calls uid pkey [c] (rows s)" and "dispatch create delete fetch c s = (r, s')"
  shows "spec_call uid pkey c (rows s) = (r, rows s') \<and> good s'"
proof (cases c)
  case (Create v)
  obtain x t where "create v s = (x, t)" by fastforce
  with Create assms create_sim [of s v x t] show ?thesis by (auto simp: dispatch_def)
next
  case (Delete u)
  obtain x t where "delete u s = (x, t)" by fastforce
  with Delete assms delete_sim [of s u x t] show ?thesis by (auto simp: dispatch_def)
next
  case (Fetch u)
  obtain x t where "fetch u s = (x, t)" by fastforce
  with Fetch assms fetch_sim [of s u x t] show ?thesis by (auto simp: dispatch_def)
qed

text \<open>The refinement, for any sequence of calls.\<close>

lemma calls_sim:
  "good s \<Longrightarrow> fresh_calls uid pkey cs (rows s) \<Longrightarrow> run_calls (dispatch create delete fetch) cs s = (rs, s') \<Longrightarrow>
   run_calls (spec_call uid pkey) cs (rows s) = (rs, rows s') \<and> good s'"
proof (induction cs arbitrary: s rs)
  case Nil
  then show ?case by simp
next
  case (Cons c cs)
  obtain r s1 where step: "dispatch create delete fetch c s = (r, s1)" by fastforce
  with Cons.prems have "spec_call uid pkey c (rows s) = (r, rows s1) \<and> good s1"
    by (intro call_sim) auto
  with Cons step show ?case by (auto simp: Let_def split: prod.splits)
qed

text \<open>What a client sees of one row.\<close>

lemma create_fetch:
  assumes "good s" and "rows s (uid v) = None" and "create v s = (Inr w, s')" and "fetch (uid v) s' = (r, s2)"
  shows "w = v \<and> r = Inr v"
proof -
  from create_sim [OF assms(1,2,3)] have "w = v" "rows s' = (rows s)(uid v \<mapsto> v)" "good s'"
    by (auto simp: spec_create_def split: if_splits)
  with fetch_sim [OF _ assms(4)] show ?thesis by (simp add: spec_get_def)
qed

lemma create_delete:
  assumes "good s" and "rows s (uid v) = None" and "create v s = (Inr w, s')" and "delete (uid v) s' = (d, s2)"
  shows "d = Inr () \<and> rows s2 = rows s"
proof -
  from create_sim [OF assms(1,2,3)] have "rows s' = (rows s)(uid v \<mapsto> v)" "good s'"
    by (auto simp: spec_create_def split: if_splits)
  with delete_sim [OF _ assms(4)] assms(2) show ?thesis
    by (auto simp: spec_delete_def fun_upd_idem)
qed

lemma delete_fetch:
  assumes "good s" and "delete u s = (d, s')" and "fetch u s' = (r, s2)"
  shows "r = Inl ErrNotFound"
proof -
  from delete_sim [OF assms(1,2)] have "rows s' u = None" "good s'"
    by (auto simp: spec_delete_def dest!: sym [of _ "rows s'"] split: option.splits)
  with fetch_sim [OF _ assms(3)] show ?thesis by (simp add: spec_get_def)
qed

text \<open>A row keeps its (project, name) to itself, until it is deleted.\<close>

lemma create_twice:
  assumes "good s" and "rows s (uid v) = None" and "create v s = (Inr w, s')"
    and "pkey v' = pkey v" and "rows s' (uid v') = None" and "create v' s' = (r, s2)"
  shows "r = Inl ErrAlreadyExists \<and> rows s2 = rows s'"
proof -
  from create_sim [OF assms(1,2,3)] have "v \<in> ran (rows s')" "good s'"
    by (auto simp: spec_create_def ran_def dest!: sym [of _ "rows s'"] split: if_splits)
  with create_sim [OF _ assms(5,6)] assms(4) show ?thesis
    by (auto simp: spec_create_def split: if_splits)
qed

end

text \<open>Stores with an operation that rewrites one row in place.\<close>

locale updating_store = row_store rows good create delete fetch uid pkey
  for rows :: "'s \<Rightarrow> string \<rightharpoonup> 'v" and good create delete fetch uid and pkey :: "'v \<Rightarrow> 'k" +
  fixes update :: "'p \<Rightarrow> string \<Rightarrow> 's \<Rightarrow> (store_err, 'r) result \<times> 's"
    and change :: "'p \<Rightarrow> 'v \<Rightarrow> 'v"
    and ret :: "'v \<Rightarrow> 'r"
  assumes change_keys: "uid (change p v) = uid v" "pkey (change p v) = pkey v"
    and update_sim: "good s \<Longrightarrow> update p u s = (r, s') \<Longrightarrow>
      apfst (map_sum id ret) (spec_update (change p) u (rows s)) = (r, rows s') \<and> good s'"
begin

lemma update_frame:
  assumes "good s" and "update p u s = (r, s')"
  shows "dom (rows s') = dom (rows s)" and "w \<noteq> u \<Longrightarrow> rows s' w = rows s w"
    and "rows_unique pkey (rows s')"
  using update_sim [OF assms] inv_unique [of s']
  by (auto simp: spec_update_def dest!: sym [of _ "rows s'"] split: option.splits if_splits)

end

text \<open>The specification depends on the key function only through the equality of keys.\<close>

lemma spec_calls_pkey:
  assumes "\<And>v w. P v \<Longrightarrow> P w \<Longrightarrow> pk1 v = pk1 w \<longleftrightarrow> pk2 v = pk2 w"
    and "\<forall>v \<in> ran m. P v" and "\<forall>v. Create v \<in> set cs \<longrightarrow> P v"
  shows "run_calls (spec_call uid pk1) cs m = run_calls (spec_call uid pk2) cs m \<and>
    fresh_calls uid pk1 cs m = fresh_calls uid pk2 cs m"
  using assms(2,3)
proof (induction cs arbitrary: m)
  case (Cons c cs)
  have same: "spec_call uid pk1 c m = spec_call uid pk2 c m"
    using Cons.prems assms(1) by (cases c) (auto simp: spec_create_def)
  have "\<forall>v \<in> ran (snd (spec_call uid pk2 c m)). P v"
    using Cons.prems by (cases c) (auto simp: spec_create_def spec_delete_def ran_def split: option.splits if_splits)
  with Cons.IH Cons.prems(2) same show ?case by (auto simp: Let_def split: prod.splits)
qed simp

text \<open>
  Two implementations of the same specification that start from the same rows answer every
  sequence of calls alike.
\<close>

lemma row_store_equiv:
  assumes "row_store rows1 good1 create1 delete1 fetch1 uid pkey"
    and "row_store rows2 good2 create2 delete2 fetch2 uid pkey"
    and "good1 s" and "good2 t" and "rows1 s = rows2 t" and "fresh_calls uid pkey cs (rows1 s)"
    and "run_calls (dispatch create1 delete1 fetch1) cs s = (rs, s')"
    and "run_calls (dispatch create2 delete2 fetch2) cs t = (rs', t')"
  shows "rs = rs' \<and> rows1 s' = rows2 t'"
  using row_store.calls_sim [OF assms(1,3,6,7)] row_store.calls_sim [OF assms(2,4) _ assms(8)] assms(5,6)
  by simp

section \<open>On every exclusive service\<close>

context etcd_exclusive
begin

text \<open>A store that implements the specification on the table does so on the service.\<close>

lemma lift_row_store:
  assumes r: "row_store rows good (\<lambda>v. exec kv_client (c v)) (\<lambda>u. exec kv_client (d u)) (\<lambda>u. exec kv_client (g u)) uid pkey"
  shows "row_store (\<lambda>s. rows (view s)) (\<lambda>s. ok s \<and> good (view s))
    (\<lambda>v. exec cl (c v)) (\<lambda>u. exec cl (d u)) (\<lambda>u. exec cl (g u)) uid pkey"
proof (rule row_store.intro, goal_cases)
  case (1 s)
  then show ?case using row_store.inv_keyed [OF r] by blast
next
  case (2 s)
  then show ?case using row_store.inv_unique [OF r] by blast
next
  case (3 s v x s')
  then show ?case using row_store.create_sim [OF r] exec_sim [of s "c v" x s'] by blast
next
  case (4 s u x s')
  then show ?case using row_store.delete_sim [OF r] exec_sim [of s "d u" x s'] by blast
next
  case (5 s u x s')
  then show ?case using row_store.fetch_sim [OF r] exec_sim [of s "g u" x s'] by blast
qed

end

end
