(* ===== verification/Scheduling_Store.thy ===== *)
theory Scheduling_Store
  imports Store_Contract
begin

text \<open>
  Scheduling rules: \<^verbatim>\<open>internal/store/scheduling\<close>. The struct and its JSON codec, the in-memory
  backend, the etcd backend, and the proofs that both refine the specification of
  \<open>Store_Contract\<close>.
\<close>

section \<open>The rule\<close>

record Rule =
  rule_uuid :: string
  rule_name :: string
  rule_count :: i32
  rule_ready :: i32
  rule_selector :: string
  rule_az :: string
  rule_rack :: string
  rule_host :: string
  rule_project :: string
  rule_status :: string
  rule_created :: i64

definition rule_zero :: Rule where
  "rule_zero = \<lparr>rule_uuid = [], rule_name = [], rule_count = 0, rule_ready = 0, rule_selector = [],
     rule_az = [], rule_rack = [], rule_host = [], rule_project = [], rule_status = [], rule_created = 0\<rparr>"

text \<open>The wire message \<^verbatim>\<open>SchedulingRuleInfo\<close>.\<close>

record RuleInfo =
  ri_uuid :: string
  ri_name :: string
  ri_count :: i32
  ri_ready :: i32
  ri_selector :: string
  ri_az :: string
  ri_rack :: string
  ri_host :: string
  ri_project :: string
  ri_status :: string
  ri_created :: i64

definition rule_to_proto :: "Rule \<Rightarrow> RuleInfo" where
  "rule_to_proto r =
     \<lparr>ri_uuid = rule_uuid r, ri_name = rule_name r, ri_count = rule_count r, ri_ready = rule_ready r,
      ri_selector = rule_selector r, ri_az = rule_az r, ri_rack = rule_rack r, ri_host = rule_host r,
      ri_project = rule_project r, ri_status = rule_status r, ri_created = rule_created r\<rparr>"

text \<open>The struct has no JSON tags: the keys are the Go field names.\<close>

definition rule_fields :: "Rule field list" where
  "rule_fields =
     [(''UUID'', set_str (\<lambda>s. rule_uuid_update (\<lambda>_. s))),
      (''Name'', set_str (\<lambda>s. rule_name_update (\<lambda>_. s))),
      (''Count'', set_signed 32 (\<lambda>n. rule_count_update (\<lambda>_. word_of_int n))),
      (''Ready'', set_signed 32 (\<lambda>n. rule_ready_update (\<lambda>_. word_of_int n))),
      (''Selector'', set_str (\<lambda>s. rule_selector_update (\<lambda>_. s))),
      (''AZ'', set_str (\<lambda>s. rule_az_update (\<lambda>_. s))),
      (''Rack'', set_str (\<lambda>s. rule_rack_update (\<lambda>_. s))),
      (''Host'', set_str (\<lambda>s. rule_host_update (\<lambda>_. s))),
      (''Project'', set_str (\<lambda>s. rule_project_update (\<lambda>_. s))),
      (''Status'', set_str (\<lambda>s. rule_status_update (\<lambda>_. s))),
      (''CreatedAtNs'', set_signed 64 (\<lambda>n. rule_created_update (\<lambda>_. word_of_int n)))]"

definition marshal_rule :: "Rule \<Rightarrow> etcd_value" where
  "marshal_rule r = Doc (JObj
     [(''UUID'', JStr (rule_uuid r)), (''Name'', JStr (rule_name r)),
      (''Count'', JNum (sint (rule_count r))), (''Ready'', JNum (sint (rule_ready r))),
      (''Selector'', JStr (rule_selector r)), (''AZ'', JStr (rule_az r)), (''Rack'', JStr (rule_rack r)),
      (''Host'', JStr (rule_host r)), (''Project'', JStr (rule_project r)),
      (''Status'', JStr (rule_status r)), (''CreatedAtNs'', JNum (sint (rule_created r)))])"

definition unmarshal_rule :: "etcd_value \<Rightarrow> Rule option" where
  "unmarshal_rule = unmarshal rule_fields rule_zero"

lemma unmarshal_marshal_rule [codec_simps]: "unmarshal_rule (marshal_rule r) = Some r"
  by (simp add: unmarshal_rule_def marshal_rule_def rule_fields_def rule_zero_def find_field_def
      set_str_def set_signed_sint32 set_signed_sint64)

section \<open>The in-memory backend\<close>

record sched_mem =
  sm_by_uuid :: "string \<rightharpoonup> Rule"
  sm_by_pj_name :: "string \<rightharpoonup> string"

definition sched_mem_new :: sched_mem where
  "sched_mem_new = \<lparr>sm_by_uuid = Map.empty, sm_by_pj_name = Map.empty\<rparr>"

definition projectNameKey :: "string \<Rightarrow> string \<Rightarrow> string" where
  "projectNameKey project name = project @ ''|'' @ name"

text \<open>\<open>order\<close> is the order in which the runtime ranges over the map.\<close>

definition sched_mem_list :: "string list \<Rightarrow> string \<Rightarrow> sched_mem \<Rightarrow> Rule list" where
  "sched_mem_list order project s =
     sort_key (\<lambda>r. (sint (rule_created r), rule_name r))
       (filter (\<lambda>r. \<not> (project \<noteq> [] \<and> rule_project r \<noteq> project)) (range_vals order (sm_by_uuid s)))"

definition sched_mem_create :: "Rule \<Rightarrow> sched_mem \<Rightarrow> (store_err, Rule) result \<times> sched_mem" where
  "sched_mem_create r s =
     (let key = projectNameKey (rule_project r) (rule_name r) in
      case sm_by_pj_name s key of
        Some _ \<Rightarrow> (Inl ErrAlreadyExists, s)
      | None \<Rightarrow>
          (Inr r, s\<lparr>sm_by_uuid := (sm_by_uuid s)(rule_uuid r \<mapsto> r),
                    sm_by_pj_name := (sm_by_pj_name s)(key \<mapsto> rule_uuid r)\<rparr>))"

definition sched_mem_delete :: "string \<Rightarrow> sched_mem \<Rightarrow> (store_err, unit) result \<times> sched_mem" where
  "sched_mem_delete uuid s =
     (case sm_by_uuid s uuid of
        None \<Rightarrow> (Inl ErrNotFound, s)
      | Some r \<Rightarrow>
          (Inr (), s\<lparr>sm_by_uuid := (sm_by_uuid s)(uuid := None),
                     sm_by_pj_name := (sm_by_pj_name s)(projectNameKey (rule_project r) (rule_name r) := None)\<rparr>))"

definition sched_mem_get :: "string \<Rightarrow> sched_mem \<Rightarrow> (store_err, Rule) result \<times> sched_mem" where
  "sched_mem_get uuid s =
     (case sm_by_uuid s uuid of None \<Rightarrow> (Inl ErrNotFound, s) | Some r \<Rightarrow> (Inr r, s))"

abbreviation rule_bar_key :: "Rule \<Rightarrow> string" where
  "rule_bar_key r \<equiv> projectNameKey (rule_project r) (rule_name r)"

definition sched_mem_inv :: "sched_mem \<Rightarrow> bool" where
  "sched_mem_inv s \<longleftrightarrow> index_inv rule_uuid rule_bar_key (sm_by_uuid s) (sm_by_pj_name s)"

lemma sched_mem_new_inv [simp]: "sched_mem_inv sched_mem_new"
  by (simp add: sched_mem_inv_def sched_mem_new_def)

lemmas sched_mem_ops = sched_mem_create_def sched_mem_delete_def sched_mem_get_def sched_mem_inv_def

interpretation sched_mem: row_store sm_by_uuid sched_mem_inv sched_mem_create sched_mem_delete
  sched_mem_get rule_uuid rule_bar_key
proof (unfold_locales, goal_cases)
  case (3 s v r s')
  then show ?case
    using index_lookup [of rule_uuid rule_bar_key "sm_by_uuid s" "sm_by_pj_name s" v]
      index_create [of rule_uuid rule_bar_key "sm_by_uuid s" "sm_by_pj_name s" v]
    by (auto simp: sched_mem_ops spec_create_def Let_def split: option.splits)
next
  case (4 s u d s')
  then show ?case
    using index_delete [of rule_uuid rule_bar_key "sm_by_uuid s" "sm_by_pj_name s" u]
    by (auto simp: sched_mem_ops spec_delete_def split: option.splits)
qed (auto simp: sched_mem_ops spec_get_def index_inv_def split: option.splits)

section \<open>The etcd backend\<close>

definition sched_prefix :: string where
  "sched_prefix = ''/weft/network/scheduling-rules/''"

definition rule_key :: "string \<Rightarrow> string" where
  "rule_key uuid = sched_prefix @ uuid"

definition uuidFromKey :: "string \<Rightarrow> string" where
  "uuidFromKey key = trim_prefix key sched_prefix"

definition sched_etcd_list :: "string \<Rightarrow> (store_err, Rule list) result etcd_prog" where
  "sched_etcd_list project =
     Get sched_prefix PrefixByCreate (\<lambda>resp. case resp of
       Inl e \<Rightarrow> Done (Inl (ErrWrap (''etcd get '' @ sched_prefix @ ''*'') e))
     | Inr kvs \<Rightarrow>
         Done (Inr (scan_list unmarshal_rule (\<lambda>r. project \<noteq> [] \<and> rule_project r \<noteq> project) kvs)))"

definition sched_etcd_create :: "Rule \<Rightarrow> (store_err, Rule) result etcd_prog" where
  "sched_etcd_create r =
     Get sched_prefix Prefix (\<lambda>resp. case resp of
       Inl e \<Rightarrow> Done (Inl (ErrWrap ''etcd uniqueness scan'' e))
     | Inr kvs \<Rightarrow>
         if scan_dup unmarshal_rule
              (\<lambda>existing. rule_project existing = rule_project r \<and> rule_name existing = rule_name r) kvs
         then Done (Inl ErrAlreadyExists)
         else
           Txn (CreateRevEq (rule_key (rule_uuid r)) 0)
             [OpPut (rule_key (rule_uuid r)) (marshal_rule r)] (\<lambda>tr. case tr of
               Inl e \<Rightarrow> Done (Inl (ErrWrap ''etcd put'' e))
             | Inr succeeded \<Rightarrow>
                 if \<not> succeeded then Done (Inl (ErrMsg ''scheduling rule uuid %q already exists in etcd''))
                 else Done (Inr r)))"

definition sched_etcd_delete :: "string \<Rightarrow> (store_err, unit) result etcd_prog" where
  "sched_etcd_delete uuid =
     Del (rule_key uuid) (\<lambda>resp. case resp of
       Inl e \<Rightarrow> Done (Inl (ErrWrap ''etcd delete'' e))
     | Inr deleted \<Rightarrow> if deleted = 0 then Done (Inl ErrNotFound) else Done (Inr ()))"

definition sched_etcd_get :: "string \<Rightarrow> (store_err, Rule) result etcd_prog" where
  "sched_etcd_get uuid =
     Get (rule_key uuid) Exact (\<lambda>resp. case resp of
       Inl e \<Rightarrow> Done (Inl (ErrWrap ''etcd get'' e))
     | Inr kvs \<Rightarrow>
         (case kvs of
            [] \<Rightarrow> Done (Inl ErrNotFound)
          | kv # _ \<Rightarrow>
              (case unmarshal_rule (kv_val kv) of
                 None \<Rightarrow> Done (Inl (ErrMsg (''decode rule '' @ uuid)))
               | Some r \<Rightarrow> Done (Inr r))))"

lemma uuidFromKey_rule_key: "uuidFromKey (rule_key u) = u"
  by (simp add: uuidFromKey_def rule_key_def)

interpretation rule_codec: row_codec sched_prefix marshal_rule unmarshal_rule rule_uuid
  by unfold_locales (rule unmarshal_marshal_rule)

abbreviation rule_rows :: "kvdb \<Rightarrow> string \<rightharpoonup> Rule" where
  "rule_rows \<equiv> rows_of sched_prefix unmarshal_rule"

abbreviation rule_pair :: "Rule \<Rightarrow> string \<times> string" where
  "rule_pair r \<equiv> (rule_project r, rule_name r)"

definition sched_db_inv :: "kvdb \<Rightarrow> bool" where
  "sched_db_inv db \<longleftrightarrow>
     wf_db db \<and> rows_ok sched_prefix unmarshal_rule rule_uuid db \<and> rows_unique rule_pair (rule_rows db)"

lemma sched_db_inv_empty [simp]: "sched_db_inv db_empty"
  by (simp add: sched_db_inv_def rows_unique_def)

lemma sched_etcd_create_run:
  assumes "sched_db_inv db" and "rule_rows db (rule_uuid r) = None"
  shows "exec kv_client (sched_etcd_create r) db =
    (if \<exists>x \<in> ran (rule_rows db). rule_pair x = rule_pair r then (Inl ErrAlreadyExists, db)
     else (Inr r, db_apply [OpPut (sched_prefix @ rule_uuid r) (marshal_rule r)] db))"
proof -
  have wf: "wf_db db" and okd: "rows_ok sched_prefix unmarshal_rule rule_uuid db"
    using assms(1) by (auto simp: sched_db_inv_def)
  have "db_lookup db (sched_prefix @ rule_uuid r) = None"
    using assms(2) rule_codec.rows_None [OF okd] by simp
  then show ?thesis
    using rule_codec.scan_dup_rows [OF wf]
    by (auto simp: sched_etcd_create_def db_txn_def max_txn_ops_def rev_of_def rule_key_def
        simp del: db_get.simps)
qed

lemma sched_etcd_delete_run:
  assumes "sched_db_inv db"
  shows "exec kv_client (sched_etcd_delete u) db =
    (fst (spec_delete u (rule_rows db)), db_apply [OpDelete (sched_prefix @ u)] db)"
proof -
  from assms have "rows_ok sched_prefix unmarshal_rule rule_uuid db" by (simp add: sched_db_inv_def)
  then show ?thesis
    by (cases rule: rule_codec.get_cases [where u = u])
       (auto simp: sched_etcd_delete_def db_del_def spec_delete_def rule_key_def)
qed

lemma sched_etcd_get_run:
  assumes "sched_db_inv db"
  shows "exec kv_client (sched_etcd_get u) db = (spec_get u (rule_rows db), db)"
proof -
  from assms have "rows_ok sched_prefix unmarshal_rule rule_uuid db" by (simp add: sched_db_inv_def)
  then show ?thesis
    by (cases rule: rule_codec.get_cases [where u = u]) (auto simp: sched_etcd_get_def spec_get_def rule_key_def)
qed

interpretation sched_etcd: row_store rule_rows sched_db_inv
  "\<lambda>r. exec kv_client (sched_etcd_create r)" "\<lambda>u. exec kv_client (sched_etcd_delete u)"
  "\<lambda>u. exec kv_client (sched_etcd_get u)" rule_uuid rule_pair
proof (unfold_locales, goal_cases)
  case (1 s)
  then show ?case by (auto simp: sched_db_inv_def rows_keyed_def rule_codec.rows_uid)
next
  case (2 s)
  then show ?case by (simp add: sched_db_inv_def)
next
  case (3 s v r s')
  then show ?case
    using sched_etcd_create_run [of s v] rows_unique_new [of rule_pair "rule_rows s" v "rule_uuid v"]
    by (auto simp: spec_create_def sched_db_inv_def rule_codec.rows_put rule_codec.ok_put wf_db_apply
        split: if_splits)
next
  case (4 s u d s')
  then show ?case
    by (auto simp: sched_etcd_delete_run sched_db_inv_def spec_delete_def rule_codec.rows_del
        rule_codec.ok_del wf_db_apply fun_upd_idem split: option.splits)
next
  case (5 s u r s')
  then show ?case by (auto simp: sched_etcd_get_run)
qed

context etcd_exclusive
begin

lemma sched_row_store: "row_store (\<lambda>s. rule_rows (view s)) (\<lambda>s. ok s \<and> sched_db_inv (view s))
  (\<lambda>r. exec cl (sched_etcd_create r)) (\<lambda>u. exec cl (sched_etcd_delete u)) (\<lambda>u. exec cl (sched_etcd_get u)) rule_uuid rule_pair"
  by (rule lift_row_store) (rule sched_etcd.row_store_axioms)

end

sublocale etcd_exclusive \<subseteq> sched: row_store "\<lambda>s. rule_rows (view s)" "\<lambda>s. ok s \<and> sched_db_inv (view s)"
  "\<lambda>r. exec cl (sched_etcd_create r)" "\<lambda>u. exec cl (sched_etcd_delete u)"
  "\<lambda>u. exec cl (sched_etcd_get u)" rule_uuid rule_pair
  by (rule sched_row_store)

end
