(* ===== verification/Router_Store.thy ===== *)
theory Router_Store
  imports Store_Contract
begin

text \<open>
  Routers: \<^verbatim>\<open>internal/store/router\<close>. The struct and its JSON codec, the in-memory backend and the
  etcd backend, each with \<open>UpdateStatus\<close>, the one operation that rewrites a row, and the proofs
  that both refine the specification of \<open>Store_Contract\<close>.
\<close>

section \<open>The router\<close>

record Router =
  router_uuid :: string
  router_name :: string
  router_kind :: string
  router_backend :: string
  router_networks :: "string list"
  router_external :: string
  router_prefixes :: "string list"
  router_replicas :: i64
  router_peer_state :: string
  router_project :: string
  router_status :: string
  router_created :: i64

definition router_zero :: Router where
  "router_zero = \<lparr>router_uuid = [], router_name = [], router_kind = [], router_backend = [],
     router_networks = [], router_external = [], router_prefixes = [], router_replicas = 0,
     router_peer_state = [], router_project = [], router_status = [], router_created = 0\<rparr>"

text \<open>The wire message \<^verbatim>\<open>RouterInfo\<close>; the replica count narrows to 32 bits.\<close>

record RouterInfo =
  roi_uuid :: string
  roi_name :: string
  roi_kind :: string
  roi_backend :: string
  roi_networks :: "string list"
  roi_external :: string
  roi_prefixes :: "string list"
  roi_replicas :: i32
  roi_peer_state :: string
  roi_project :: string
  roi_status :: string
  roi_created :: i64

definition router_to_proto :: "Router \<Rightarrow> RouterInfo" where
  "router_to_proto r =
     \<lparr>roi_uuid = router_uuid r, roi_name = router_name r, roi_kind = router_kind r,
      roi_backend = router_backend r, roi_networks = router_networks r, roi_external = router_external r,
      roi_prefixes = router_prefixes r, roi_replicas = ucast (router_replicas r),
      roi_peer_state = router_peer_state r, roi_project = router_project r,
      roi_status = router_status r, roi_created = router_created r\<rparr>"

definition router_fields :: "Router field list" where
  "router_fields =
     [(''UUID'', set_str (\<lambda>s. router_uuid_update (\<lambda>_. s))),
      (''Name'', set_str (\<lambda>s. router_name_update (\<lambda>_. s))),
      (''Kind'', set_str (\<lambda>s. router_kind_update (\<lambda>_. s))),
      (''Backend'', set_str (\<lambda>s. router_backend_update (\<lambda>_. s))),
      (''Networks'', set_strs (\<lambda>ss. router_networks_update (\<lambda>_. ss))),
      (''External'', set_str (\<lambda>s. router_external_update (\<lambda>_. s))),
      (''Prefixes'', set_strs (\<lambda>ss. router_prefixes_update (\<lambda>_. ss))),
      (''Replicas'', set_signed 64 (\<lambda>n. router_replicas_update (\<lambda>_. word_of_int n))),
      (''PeerState'', set_str (\<lambda>s. router_peer_state_update (\<lambda>_. s))),
      (''Project'', set_str (\<lambda>s. router_project_update (\<lambda>_. s))),
      (''Status'', set_str (\<lambda>s. router_status_update (\<lambda>_. s))),
      (''CreatedAtNs'', set_signed 64 (\<lambda>n. router_created_update (\<lambda>_. word_of_int n)))]"

definition marshal_router :: "Router \<Rightarrow> etcd_value" where
  "marshal_router r = Doc (JObj
     [(''UUID'', JStr (router_uuid r)), (''Name'', JStr (router_name r)),
      (''Kind'', JStr (router_kind r)), (''Backend'', JStr (router_backend r)),
      (''Networks'', json_of_strs (router_networks r)), (''External'', JStr (router_external r)),
      (''Prefixes'', json_of_strs (router_prefixes r)), (''Replicas'', JNum (sint (router_replicas r))),
      (''PeerState'', JStr (router_peer_state r)), (''Project'', JStr (router_project r)),
      (''Status'', JStr (router_status r)), (''CreatedAtNs'', JNum (sint (router_created r)))])"

definition unmarshal_router :: "etcd_value \<Rightarrow> Router option" where
  "unmarshal_router = unmarshal router_fields router_zero"

lemma unmarshal_marshal_router [codec_simps]: "unmarshal_router (marshal_router r) = Some r"
  by (simp add: unmarshal_router_def marshal_router_def router_fields_def router_zero_def find_field_def
      set_str_def set_signed_sint64 set_strs_of_strs)

section \<open>The in-memory backend\<close>

record router_mem =
  rm_by_uuid :: "string \<rightharpoonup> Router"
  rm_by_pj_name :: "string \<rightharpoonup> string"

definition router_mem_new :: router_mem where
  "router_mem_new = \<lparr>rm_by_uuid = Map.empty, rm_by_pj_name = Map.empty\<rparr>"

definition router_name_key :: "string \<Rightarrow> string \<Rightarrow> string" where
  "router_name_key project name = project @ ''|'' @ name"

text \<open>\<open>order\<close> is the order in which the runtime ranges over the map.\<close>

definition router_mem_list :: "string list \<Rightarrow> string \<Rightarrow> router_mem \<Rightarrow> Router list" where
  "router_mem_list order project s =
     sort_key (\<lambda>r. (sint (router_created r), router_name r))
       (filter (\<lambda>r. \<not> (project \<noteq> [] \<and> router_project r \<noteq> project)) (range_vals order (rm_by_uuid s)))"

definition router_mem_create :: "Router \<Rightarrow> router_mem \<Rightarrow> (store_err, Router) result \<times> router_mem" where
  "router_mem_create r s =
     (let key = router_name_key (router_project r) (router_name r) in
      case rm_by_pj_name s key of
        Some _ \<Rightarrow> (Inl ErrAlreadyExists, s)
      | None \<Rightarrow>
          (Inr r, s\<lparr>rm_by_uuid := (rm_by_uuid s)(router_uuid r \<mapsto> r),
                    rm_by_pj_name := (rm_by_pj_name s)(key \<mapsto> router_uuid r)\<rparr>))"

definition router_mem_delete :: "string \<Rightarrow> router_mem \<Rightarrow> (store_err, unit) result \<times> router_mem" where
  "router_mem_delete uuid s =
     (case rm_by_uuid s uuid of
        None \<Rightarrow> (Inl ErrNotFound, s)
      | Some r \<Rightarrow>
          (Inr (), s\<lparr>rm_by_uuid := (rm_by_uuid s)(uuid := None),
                     rm_by_pj_name := (rm_by_pj_name s)(router_name_key (router_project r) (router_name r) := None)\<rparr>))"

definition router_mem_get :: "string \<Rightarrow> router_mem \<Rightarrow> (store_err, Router) result \<times> router_mem" where
  "router_mem_get uuid s =
     (case rm_by_uuid s uuid of None \<Rightarrow> (Inl ErrNotFound, s) | Some r \<Rightarrow> (Inr r, s))"

abbreviation router_bar_key :: "Router \<Rightarrow> string" where
  "router_bar_key r \<equiv> router_name_key (router_project r) (router_name r)"

definition router_mem_inv :: "router_mem \<Rightarrow> bool" where
  "router_mem_inv s \<longleftrightarrow> index_inv router_uuid router_bar_key (rm_by_uuid s) (rm_by_pj_name s)"

lemma router_mem_new_inv [simp]: "router_mem_inv router_mem_new"
  by (simp add: router_mem_inv_def router_mem_new_def)

lemmas router_mem_ops = router_mem_create_def router_mem_delete_def router_mem_get_def router_mem_inv_def

interpretation router_mem: row_store rm_by_uuid router_mem_inv router_mem_create router_mem_delete
  router_mem_get router_uuid router_bar_key
proof (unfold_locales, goal_cases)
  case (3 s v r s')
  then show ?case
    using index_lookup [of router_uuid router_bar_key "rm_by_uuid s" "rm_by_pj_name s" v]
      index_create [of router_uuid router_bar_key "rm_by_uuid s" "rm_by_pj_name s" v]
    by (auto simp: router_mem_ops spec_create_def Let_def split: option.splits)
next
  case (4 s u d s')
  then show ?case
    using index_delete [of router_uuid router_bar_key "rm_by_uuid s" "rm_by_pj_name s" u]
    by (auto simp: router_mem_ops spec_delete_def split: option.splits)
qed (auto simp: router_mem_ops spec_get_def index_inv_def split: option.splits)

text \<open>\<open>UpdateStatus\<close> writes the two live-state fields and nothing else.\<close>

definition set_status :: "string \<times> string \<Rightarrow> Router \<Rightarrow> Router" where
  "set_status st r = r\<lparr>router_status := fst st, router_peer_state := snd st\<rparr>"

definition router_mem_update_status ::
  "string \<times> string \<Rightarrow> string \<Rightarrow> router_mem \<Rightarrow> (store_err, unit) result \<times> router_mem" where
  "router_mem_update_status st uuid s =
     (case rm_by_uuid s uuid of
        None \<Rightarrow> (Inl ErrNotFound, s)
      | Some r \<Rightarrow> (Inr (), s\<lparr>rm_by_uuid := (rm_by_uuid s)(uuid \<mapsto> set_status st r)\<rparr>))"

lemma set_status_sels [simp]:
  "router_uuid (set_status st r) = router_uuid r" "router_project (set_status st r) = router_project r"
  "router_name (set_status st r) = router_name r" "router_created (set_status st r) = router_created r"
  "router_networks (set_status st r) = router_networks r" "router_kind (set_status st r) = router_kind r"
  "router_backend (set_status st r) = router_backend r" "router_external (set_status st r) = router_external r"
  "router_prefixes (set_status st r) = router_prefixes r" "router_replicas (set_status st r) = router_replicas r"
  "router_status (set_status st r) = fst st" "router_peer_state (set_status st r) = snd st"
  by (simp_all add: set_status_def)

interpretation router_mem_upd: updating_store rm_by_uuid router_mem_inv router_mem_create router_mem_delete
  router_mem_get router_uuid router_bar_key router_mem_update_status set_status "\<lambda>_. ()"
proof (unfold_locales, goal_cases)
  case (3 s st u r s')
  then show ?case
    using index_update [of router_uuid router_bar_key "rm_by_uuid s" "rm_by_pj_name s" u]
    by (auto simp: router_mem_update_status_def spec_update_def router_mem_inv_def split: option.splits)
qed auto

section \<open>The etcd backend\<close>

definition router_prefix :: string where
  "router_prefix = ''/weft/network/routers/''"

definition router_key :: "string \<Rightarrow> string" where
  "router_key uuid = router_prefix @ uuid"

definition router_etcd_list :: "string \<Rightarrow> (store_err, Router list) result etcd_prog" where
  "router_etcd_list project =
     Get router_prefix PrefixByCreate (\<lambda>resp. case resp of
       Inl e \<Rightarrow> Done (Inl (ErrWrap ''etcd list routers'' e))
     | Inr kvs \<Rightarrow>
         Done (Inr (scan_list unmarshal_router (\<lambda>r. project \<noteq> [] \<and> router_project r \<noteq> project) kvs)))"

definition router_etcd_create :: "Router \<Rightarrow> (store_err, Router) result etcd_prog" where
  "router_etcd_create r =
     Get router_prefix Prefix (\<lambda>resp. case resp of
       Inl e \<Rightarrow> Done (Inl (ErrWrap ''etcd router uniqueness scan'' e))
     | Inr kvs \<Rightarrow>
         if scan_dup unmarshal_router
              (\<lambda>existing. router_project existing = router_project r \<and> router_name existing = router_name r) kvs
         then Done (Inl ErrAlreadyExists)
         else
           Txn (CreateRevEq (router_key (router_uuid r)) 0)
             [OpPut (router_key (router_uuid r)) (marshal_router r)] (\<lambda>tr. case tr of
               Inl e \<Rightarrow> Done (Inl (ErrWrap ''etcd put router'' e))
             | Inr succeeded \<Rightarrow>
                 if \<not> succeeded then Done (Inl (ErrMsg ''router uuid %q already exists in etcd''))
                 else Done (Inr r)))"

definition router_etcd_delete :: "string \<Rightarrow> (store_err, unit) result etcd_prog" where
  "router_etcd_delete uuid =
     Del (router_key uuid) (\<lambda>resp. case resp of
       Inl e \<Rightarrow> Done (Inl (ErrWrap ''etcd delete router'' e))
     | Inr deleted \<Rightarrow> if deleted = 0 then Done (Inl ErrNotFound) else Done (Inr ()))"

definition router_etcd_get :: "string \<Rightarrow> (store_err, Router) result etcd_prog" where
  "router_etcd_get uuid =
     Get (router_key uuid) Exact (\<lambda>resp. case resp of
       Inl e \<Rightarrow> Done (Inl (ErrWrap ''etcd get router'' e))
     | Inr kvs \<Rightarrow>
         (case kvs of
            [] \<Rightarrow> Done (Inl ErrNotFound)
          | kv # _ \<Rightarrow>
              (case unmarshal_router (kv_val kv) of
                 None \<Rightarrow> Done (Inl (ErrMsg (''decode router '' @ uuid)))
               | Some r \<Rightarrow> Done (Inr r))))"

text \<open>\<open>UpdateStatus\<close> reads, changes and writes back, with no comparison in between.\<close>

definition router_etcd_update_status ::
  "string \<times> string \<Rightarrow> string \<Rightarrow> (store_err, unit) result etcd_prog" where
  "router_etcd_update_status st uuid =
     bind_prog (router_etcd_get uuid) (\<lambda>got. case got of
       Inl err \<Rightarrow> Done (Inl err)
     | Inr r \<Rightarrow>
         Put (router_key uuid) (marshal_router (set_status st r)) (\<lambda>resp. case resp of
           Inl e \<Rightarrow> Done (Inl (ErrWrap ''etcd put router'' e))
         | Inr _ \<Rightarrow> Done (Inr ())))"

interpretation router_codec: row_codec router_prefix marshal_router unmarshal_router router_uuid
  by unfold_locales (rule unmarshal_marshal_router)

abbreviation router_rows :: "kvdb \<Rightarrow> string \<rightharpoonup> Router" where
  "router_rows \<equiv> rows_of router_prefix unmarshal_router"

abbreviation router_pair :: "Router \<Rightarrow> string \<times> string" where
  "router_pair r \<equiv> (router_project r, router_name r)"

definition router_db_inv :: "kvdb \<Rightarrow> bool" where
  "router_db_inv db \<longleftrightarrow>
     wf_db db \<and> rows_ok router_prefix unmarshal_router router_uuid db \<and> rows_unique router_pair (router_rows db)"

lemma router_db_inv_empty [simp]: "router_db_inv db_empty"
  by (simp add: router_db_inv_def rows_unique_def)

lemma router_etcd_create_run:
  assumes "router_db_inv db" and "router_rows db (router_uuid r) = None"
  shows "exec kv_client (router_etcd_create r) db =
    (if \<exists>x \<in> ran (router_rows db). router_pair x = router_pair r then (Inl ErrAlreadyExists, db)
     else (Inr r, db_apply [OpPut (router_prefix @ router_uuid r) (marshal_router r)] db))"
proof -
  have wf: "wf_db db" and okd: "rows_ok router_prefix unmarshal_router router_uuid db"
    using assms(1) by (auto simp: router_db_inv_def)
  have "db_lookup db (router_prefix @ router_uuid r) = None"
    using assms(2) router_codec.rows_None [OF okd] by simp
  then show ?thesis
    using router_codec.scan_dup_rows [OF wf]
    by (auto simp: router_etcd_create_def db_txn_def max_txn_ops_def rev_of_def router_key_def
        simp del: db_get.simps)
qed

lemma router_etcd_delete_run:
  assumes "router_db_inv db"
  shows "exec kv_client (router_etcd_delete u) db =
    (fst (spec_delete u (router_rows db)), db_apply [OpDelete (router_prefix @ u)] db)"
proof -
  from assms have "rows_ok router_prefix unmarshal_router router_uuid db" by (simp add: router_db_inv_def)
  then show ?thesis
    by (cases rule: router_codec.get_cases [where u = u])
       (auto simp: router_etcd_delete_def db_del_def spec_delete_def router_key_def)
qed

lemma router_etcd_get_run:
  assumes "router_db_inv db"
  shows "exec kv_client (router_etcd_get u) db = (spec_get u (router_rows db), db)"
proof -
  from assms have "rows_ok router_prefix unmarshal_router router_uuid db" by (simp add: router_db_inv_def)
  then show ?thesis
    by (cases rule: router_codec.get_cases [where u = u]) (auto simp: router_etcd_get_def spec_get_def router_key_def)
qed

interpretation router_etcd: row_store router_rows router_db_inv
  "\<lambda>r. exec kv_client (router_etcd_create r)" "\<lambda>u. exec kv_client (router_etcd_delete u)"
  "\<lambda>u. exec kv_client (router_etcd_get u)" router_uuid router_pair
proof (unfold_locales, goal_cases)
  case (1 s)
  then show ?case by (auto simp: router_db_inv_def rows_keyed_def router_codec.rows_uid)
next
  case (2 s)
  then show ?case by (simp add: router_db_inv_def)
next
  case (3 s v r s')
  then show ?case
    using router_etcd_create_run [of s v] rows_unique_new [of router_pair "router_rows s" v "router_uuid v"]
    by (auto simp: spec_create_def router_db_inv_def router_codec.rows_put router_codec.ok_put wf_db_apply
        split: if_splits)
next
  case (4 s u d s')
  then show ?case
    by (auto simp: router_etcd_delete_run router_db_inv_def spec_delete_def router_codec.rows_del
        router_codec.ok_del wf_db_apply fun_upd_idem split: option.splits)
next
  case (5 s u r s')
  then show ?case by (auto simp: router_etcd_get_run)
qed

lemma router_etcd_update_run:
  assumes "router_db_inv db"
  shows "exec kv_client (router_etcd_update_status st u) db =
    (case router_rows db u of
       None \<Rightarrow> (Inl ErrNotFound, db)
     | Some r \<Rightarrow> (Inr (), db_apply [OpPut (router_prefix @ u) (marshal_router (set_status st r))] db))"
  using router_etcd_get_run [OF assms]
  by (auto simp: router_etcd_update_status_def exec_bind spec_get_def router_key_def db_put_def
      split: option.splits)

interpretation router_etcd_upd: updating_store router_rows router_db_inv
  "\<lambda>r. exec kv_client (router_etcd_create r)" "\<lambda>u. exec kv_client (router_etcd_delete u)"
  "\<lambda>u. exec kv_client (router_etcd_get u)" router_uuid router_pair
  "\<lambda>st u. exec kv_client (router_etcd_update_status st u)" set_status "\<lambda>_. ()"
proof (unfold_locales, goal_cases)
  case (3 s st u r s')
  then have okd: "rows_ok router_prefix unmarshal_router router_uuid s" by (simp add: router_db_inv_def)
  from 3 rows_unique_upd [of router_pair "router_rows s" u] router_codec.rows_uid [OF okd, of u] show ?case
    by (auto simp: router_etcd_update_run spec_update_def router_db_inv_def router_codec.rows_put
        router_codec.ok_put wf_db_apply split: option.splits)
qed auto

context etcd_exclusive
begin

lemma routers_row_store: "row_store (\<lambda>s. router_rows (view s)) (\<lambda>s. ok s \<and> router_db_inv (view s))
  (\<lambda>r. exec cl (router_etcd_create r)) (\<lambda>u. exec cl (router_etcd_delete u)) (\<lambda>u. exec cl (router_etcd_get u)) router_uuid router_pair"
  by (rule lift_row_store) (rule router_etcd.row_store_axioms)

end

sublocale etcd_exclusive \<subseteq> routers: row_store "\<lambda>s. router_rows (view s)" "\<lambda>s. ok s \<and> router_db_inv (view s)"
  "\<lambda>r. exec cl (router_etcd_create r)" "\<lambda>u. exec cl (router_etcd_delete u)"
  "\<lambda>u. exec cl (router_etcd_get u)" router_uuid router_pair
  by (rule routers_row_store)

end
