(* ===== verification/LB_Store.thy ===== *)
theory LB_Store
  imports Store_Contract
begin

text \<open>
  Load balancers: \<^verbatim>\<open>internal/store/lb\<close>. The struct and its JSON codec, the in-memory backend and
  the etcd backend, each with \<open>SetBackends\<close>, which on etcd is an optimistic compare-and-swap loop
  of three attempts, and the proofs that both refine the specification of \<open>Store_Contract\<close>.
\<close>

section \<open>The load balancer\<close>

record LoadBalancer =
  lb_uuid :: string
  lb_name :: string
  lb_mode :: string
  lb_address :: string
  lb_port :: u32
  lb_backends :: "string list"
  lb_az :: string
  lb_controller :: string
  lb_project :: string
  lb_status :: string
  lb_created :: i64

definition lb_zero :: LoadBalancer where
  "lb_zero = \<lparr>lb_uuid = [], lb_name = [], lb_mode = [], lb_address = [], lb_port = 0, lb_backends = [],
     lb_az = [], lb_controller = [], lb_project = [], lb_status = [], lb_created = 0\<rparr>"

text \<open>The wire message \<^verbatim>\<open>LoadBalancerInfo\<close>.\<close>

record LoadBalancerInfo =
  lbi_uuid :: string
  lbi_name :: string
  lbi_mode :: string
  lbi_address :: string
  lbi_port :: u32
  lbi_backends :: "string list"
  lbi_az :: string
  lbi_controller :: string
  lbi_project :: string
  lbi_status :: string
  lbi_created :: i64

definition lb_to_proto :: "LoadBalancer \<Rightarrow> LoadBalancerInfo" where
  "lb_to_proto l =
     \<lparr>lbi_uuid = lb_uuid l, lbi_name = lb_name l, lbi_mode = lb_mode l, lbi_address = lb_address l,
      lbi_port = lb_port l, lbi_backends = lb_backends l, lbi_az = lb_az l,
      lbi_controller = lb_controller l, lbi_project = lb_project l, lbi_status = lb_status l,
      lbi_created = lb_created l\<rparr>"

definition lb_fields :: "LoadBalancer field list" where
  "lb_fields =
     [(''UUID'', set_str (\<lambda>s. lb_uuid_update (\<lambda>_. s))),
      (''Name'', set_str (\<lambda>s. lb_name_update (\<lambda>_. s))),
      (''Mode'', set_str (\<lambda>s. lb_mode_update (\<lambda>_. s))),
      (''Address'', set_str (\<lambda>s. lb_address_update (\<lambda>_. s))),
      (''Port'', set_unsigned 32 (\<lambda>n. lb_port_update (\<lambda>_. word_of_int n))),
      (''Backends'', set_strs (\<lambda>ss. lb_backends_update (\<lambda>_. ss))),
      (''AZ'', set_str (\<lambda>s. lb_az_update (\<lambda>_. s))),
      (''Controller'', set_str (\<lambda>s. lb_controller_update (\<lambda>_. s))),
      (''Project'', set_str (\<lambda>s. lb_project_update (\<lambda>_. s))),
      (''Status'', set_str (\<lambda>s. lb_status_update (\<lambda>_. s))),
      (''CreatedAtNs'', set_signed 64 (\<lambda>n. lb_created_update (\<lambda>_. word_of_int n)))]"

definition marshal_lb :: "LoadBalancer \<Rightarrow> etcd_value" where
  "marshal_lb l = Doc (JObj
     [(''UUID'', JStr (lb_uuid l)), (''Name'', JStr (lb_name l)), (''Mode'', JStr (lb_mode l)),
      (''Address'', JStr (lb_address l)), (''Port'', JNum (uint (lb_port l))),
      (''Backends'', json_of_strs (lb_backends l)), (''AZ'', JStr (lb_az l)),
      (''Controller'', JStr (lb_controller l)), (''Project'', JStr (lb_project l)),
      (''Status'', JStr (lb_status l)), (''CreatedAtNs'', JNum (sint (lb_created l)))])"

definition unmarshal_lb :: "etcd_value \<Rightarrow> LoadBalancer option" where
  "unmarshal_lb = unmarshal lb_fields lb_zero"

lemma unmarshal_marshal_lb [codec_simps]: "unmarshal_lb (marshal_lb l) = Some l"
  by (simp add: unmarshal_lb_def marshal_lb_def lb_fields_def lb_zero_def find_field_def
      set_str_def set_signed_sint64 set_unsigned_uint32 set_strs_of_strs)

section \<open>The in-memory backend\<close>

record lb_mem =
  lm_by_uuid :: "string \<rightharpoonup> LoadBalancer"
  lm_by_pj_name :: "string \<rightharpoonup> string"

definition lb_mem_new :: lb_mem where
  "lb_mem_new = \<lparr>lm_by_uuid = Map.empty, lm_by_pj_name = Map.empty\<rparr>"

definition lb_name_key :: "string \<Rightarrow> string \<Rightarrow> string" where
  "lb_name_key project name = project @ ''|'' @ name"

text \<open>\<open>order\<close> is the order in which the runtime ranges over the map.\<close>

definition lb_mem_list :: "string list \<Rightarrow> string \<Rightarrow> lb_mem \<Rightarrow> LoadBalancer list" where
  "lb_mem_list order project s =
     sort_key (\<lambda>r. (sint (lb_created r), lb_name r))
       (filter (\<lambda>r. \<not> (project \<noteq> [] \<and> lb_project r \<noteq> project)) (range_vals order (lm_by_uuid s)))"

definition lb_mem_create :: "LoadBalancer \<Rightarrow> lb_mem \<Rightarrow> (store_err, LoadBalancer) result \<times> lb_mem" where
  "lb_mem_create r s =
     (let key = lb_name_key (lb_project r) (lb_name r) in
      case lm_by_pj_name s key of
        Some _ \<Rightarrow> (Inl ErrAlreadyExists, s)
      | None \<Rightarrow>
          (Inr r, s\<lparr>lm_by_uuid := (lm_by_uuid s)(lb_uuid r \<mapsto> r),
                    lm_by_pj_name := (lm_by_pj_name s)(key \<mapsto> lb_uuid r)\<rparr>))"

definition lb_mem_delete :: "string \<Rightarrow> lb_mem \<Rightarrow> (store_err, unit) result \<times> lb_mem" where
  "lb_mem_delete uuid s =
     (case lm_by_uuid s uuid of
        None \<Rightarrow> (Inl ErrNotFound, s)
      | Some r \<Rightarrow>
          (Inr (), s\<lparr>lm_by_uuid := (lm_by_uuid s)(uuid := None),
                     lm_by_pj_name := (lm_by_pj_name s)(lb_name_key (lb_project r) (lb_name r) := None)\<rparr>))"

definition lb_mem_get :: "string \<Rightarrow> lb_mem \<Rightarrow> (store_err, LoadBalancer) result \<times> lb_mem" where
  "lb_mem_get uuid s =
     (case lm_by_uuid s uuid of None \<Rightarrow> (Inl ErrNotFound, s) | Some r \<Rightarrow> (Inr r, s))"

abbreviation lb_bar_key :: "LoadBalancer \<Rightarrow> string" where
  "lb_bar_key r \<equiv> lb_name_key (lb_project r) (lb_name r)"

definition lb_mem_inv :: "lb_mem \<Rightarrow> bool" where
  "lb_mem_inv s \<longleftrightarrow> index_inv lb_uuid lb_bar_key (lm_by_uuid s) (lm_by_pj_name s)"

lemma lb_mem_new_inv [simp]: "lb_mem_inv lb_mem_new"
  by (simp add: lb_mem_inv_def lb_mem_new_def)

lemmas lb_mem_ops = lb_mem_create_def lb_mem_delete_def lb_mem_get_def lb_mem_inv_def

interpretation lb_mem: row_store lm_by_uuid lb_mem_inv lb_mem_create lb_mem_delete
  lb_mem_get lb_uuid lb_bar_key
proof (unfold_locales, goal_cases)
  case (3 s v r s')
  then show ?case
    using index_lookup [of lb_uuid lb_bar_key "lm_by_uuid s" "lm_by_pj_name s" v]
      index_create [of lb_uuid lb_bar_key "lm_by_uuid s" "lm_by_pj_name s" v]
    by (auto simp: lb_mem_ops spec_create_def Let_def split: option.splits)
next
  case (4 s u d s')
  then show ?case
    using index_delete [of lb_uuid lb_bar_key "lm_by_uuid s" "lm_by_pj_name s" u]
    by (auto simp: lb_mem_ops spec_delete_def split: option.splits)
qed (auto simp: lb_mem_ops spec_get_def index_inv_def split: option.splits)

definition set_backends :: "string list \<Rightarrow> LoadBalancer \<Rightarrow> LoadBalancer" where
  "set_backends backends l = l\<lparr>lb_backends := backends\<rparr>"

definition lb_mem_set_backends ::
  "string list \<Rightarrow> string \<Rightarrow> lb_mem \<Rightarrow> (store_err, LoadBalancer) result \<times> lb_mem" where
  "lb_mem_set_backends backends uuid s =
     (case lm_by_uuid s uuid of
        None \<Rightarrow> (Inl ErrNotFound, s)
      | Some l \<Rightarrow>
          (let l' = set_backends backends l in
           (Inr l', s\<lparr>lm_by_uuid := (lm_by_uuid s)(uuid \<mapsto> l')\<rparr>)))"

lemma set_backends_sels [simp]:
  "lb_uuid (set_backends bs l) = lb_uuid l" "lb_project (set_backends bs l) = lb_project l"
  "lb_name (set_backends bs l) = lb_name l" "lb_backends (set_backends bs l) = bs"
  "lb_status (set_backends bs l) = lb_status l" "lb_port (set_backends bs l) = lb_port l"
  by (simp_all add: set_backends_def)

interpretation lb_mem_upd: updating_store lm_by_uuid lb_mem_inv lb_mem_create lb_mem_delete
  lb_mem_get lb_uuid lb_bar_key lb_mem_set_backends set_backends "\<lambda>l. l"
proof (unfold_locales, goal_cases)
  case (3 s bs u r s')
  then show ?case
    using index_update [of lb_uuid lb_bar_key "lm_by_uuid s" "lm_by_pj_name s" u]
    by (auto simp: lb_mem_set_backends_def spec_update_def lb_mem_inv_def Let_def split: option.splits)
qed auto

section \<open>The etcd backend\<close>

definition lb_prefix :: string where
  "lb_prefix = ''/weft/network/loadbalancers/''"

definition lb_key :: "string \<Rightarrow> string" where
  "lb_key uuid = lb_prefix @ uuid"

definition lb_etcd_list :: "string \<Rightarrow> (store_err, LoadBalancer list) result etcd_prog" where
  "lb_etcd_list project =
     Get lb_prefix PrefixByCreate (\<lambda>resp. case resp of
       Inl e \<Rightarrow> Done (Inl (ErrWrap ''etcd list lbs'' e))
     | Inr kvs \<Rightarrow>
         Done (Inr (scan_list unmarshal_lb (\<lambda>r. project \<noteq> [] \<and> lb_project r \<noteq> project) kvs)))"

definition lb_etcd_create :: "LoadBalancer \<Rightarrow> (store_err, LoadBalancer) result etcd_prog" where
  "lb_etcd_create r =
     Get lb_prefix Prefix (\<lambda>resp. case resp of
       Inl e \<Rightarrow> Done (Inl (ErrWrap ''etcd lb uniqueness scan'' e))
     | Inr kvs \<Rightarrow>
         if scan_dup unmarshal_lb
              (\<lambda>existing. lb_project existing = lb_project r \<and> lb_name existing = lb_name r) kvs
         then Done (Inl ErrAlreadyExists)
         else
           Txn (CreateRevEq (lb_key (lb_uuid r)) 0)
             [OpPut (lb_key (lb_uuid r)) (marshal_lb r)] (\<lambda>tr. case tr of
               Inl e \<Rightarrow> Done (Inl (ErrWrap ''etcd put lb'' e))
             | Inr succeeded \<Rightarrow>
                 if \<not> succeeded then Done (Inl (ErrMsg ''lb uuid %q already exists in etcd''))
                 else Done (Inr r)))"

definition lb_etcd_delete :: "string \<Rightarrow> (store_err, unit) result etcd_prog" where
  "lb_etcd_delete uuid =
     Del (lb_key uuid) (\<lambda>resp. case resp of
       Inl e \<Rightarrow> Done (Inl (ErrWrap ''etcd delete lb'' e))
     | Inr deleted \<Rightarrow> if deleted = 0 then Done (Inl ErrNotFound) else Done (Inr ()))"

definition lb_etcd_get :: "string \<Rightarrow> (store_err, LoadBalancer) result etcd_prog" where
  "lb_etcd_get uuid =
     Get (lb_key uuid) Exact (\<lambda>resp. case resp of
       Inl e \<Rightarrow> Done (Inl (ErrWrap ''etcd get lb'' e))
     | Inr kvs \<Rightarrow>
         (case kvs of
            [] \<Rightarrow> Done (Inl ErrNotFound)
          | kv # _ \<Rightarrow>
              (case unmarshal_lb (kv_val kv) of
                 None \<Rightarrow> Done (Inl (ErrMsg (''decode lb '' @ uuid)))
               | Some r \<Rightarrow> Done (Inr r))))"

text \<open>
  \<open>SetBackends\<close>: read, change, write back guarded by the mod revision the read returned; at most
  \<open>max_attempts\<close> times.
\<close>

definition max_attempts :: nat where
  "max_attempts = 3"

primrec lb_set_backends_loop ::
  "nat \<Rightarrow> string list \<Rightarrow> string \<Rightarrow> (store_err, LoadBalancer) result etcd_prog" where
  "lb_set_backends_loop 0 backends uuid =
     Done (Inl (ErrMsg ''set-backends conflict on %s after %d attempts''))"
| "lb_set_backends_loop (Suc n) backends uuid =
     Get (lb_key uuid) Exact (\<lambda>resp. case resp of
       Inl e \<Rightarrow> Done (Inl (ErrWrap ''etcd get lb for set-backends'' e))
     | Inr kvs \<Rightarrow>
         (case kvs of
            [] \<Rightarrow> Done (Inl ErrNotFound)
          | kv # _ \<Rightarrow>
              (case unmarshal_lb (kv_val kv) of
                 None \<Rightarrow> Done (Inl (ErrMsg ''decode lb''))
               | Some l \<Rightarrow>
                   (let l' = set_backends backends l in
                    Txn (ModRevEq (lb_key uuid) (mod_rev kv))
                      [OpPut (lb_key uuid) (marshal_lb l')] (\<lambda>tr. case tr of
                        Inl e \<Rightarrow> Done (Inl (ErrWrap ''etcd set-backends put'' e))
                      | Inr succeeded \<Rightarrow>
                          if succeeded then Done (Inr l') else lb_set_backends_loop n backends uuid)))))"

definition lb_etcd_set_backends ::
  "string list \<Rightarrow> string \<Rightarrow> (store_err, LoadBalancer) result etcd_prog" where
  "lb_etcd_set_backends backends uuid = lb_set_backends_loop max_attempts backends uuid"

interpretation lb_codec: row_codec lb_prefix marshal_lb unmarshal_lb lb_uuid
  by unfold_locales (rule unmarshal_marshal_lb)

abbreviation lb_rows :: "kvdb \<Rightarrow> string \<rightharpoonup> LoadBalancer" where
  "lb_rows \<equiv> rows_of lb_prefix unmarshal_lb"

abbreviation lb_pair :: "LoadBalancer \<Rightarrow> string \<times> string" where
  "lb_pair r \<equiv> (lb_project r, lb_name r)"

definition lb_db_inv :: "kvdb \<Rightarrow> bool" where
  "lb_db_inv db \<longleftrightarrow>
     wf_db db \<and> rows_ok lb_prefix unmarshal_lb lb_uuid db \<and> rows_unique lb_pair (lb_rows db)"

lemma lb_db_inv_empty [simp]: "lb_db_inv db_empty"
  by (simp add: lb_db_inv_def rows_unique_def)

lemma lb_etcd_create_run:
  assumes "lb_db_inv db" and "lb_rows db (lb_uuid r) = None"
  shows "exec kv_client (lb_etcd_create r) db =
    (if \<exists>x \<in> ran (lb_rows db). lb_pair x = lb_pair r then (Inl ErrAlreadyExists, db)
     else (Inr r, db_apply [OpPut (lb_prefix @ lb_uuid r) (marshal_lb r)] db))"
proof -
  have wf: "wf_db db" and okd: "rows_ok lb_prefix unmarshal_lb lb_uuid db"
    using assms(1) by (auto simp: lb_db_inv_def)
  have "db_lookup db (lb_prefix @ lb_uuid r) = None"
    using assms(2) lb_codec.rows_None [OF okd] by simp
  then show ?thesis
    using lb_codec.scan_dup_rows [OF wf]
    by (auto simp: lb_etcd_create_def db_txn_def max_txn_ops_def rev_of_def lb_key_def
        simp del: db_get.simps)
qed

lemma lb_etcd_delete_run:
  assumes "lb_db_inv db"
  shows "exec kv_client (lb_etcd_delete u) db =
    (fst (spec_delete u (lb_rows db)), db_apply [OpDelete (lb_prefix @ u)] db)"
proof -
  from assms have "rows_ok lb_prefix unmarshal_lb lb_uuid db" by (simp add: lb_db_inv_def)
  then show ?thesis
    by (cases rule: lb_codec.get_cases [where u = u])
       (auto simp: lb_etcd_delete_def db_del_def spec_delete_def lb_key_def)
qed

lemma lb_etcd_get_run:
  assumes "lb_db_inv db"
  shows "exec kv_client (lb_etcd_get u) db = (spec_get u (lb_rows db), db)"
proof -
  from assms have "rows_ok lb_prefix unmarshal_lb lb_uuid db" by (simp add: lb_db_inv_def)
  then show ?thesis
    by (cases rule: lb_codec.get_cases [where u = u]) (auto simp: lb_etcd_get_def spec_get_def lb_key_def)
qed

interpretation lb_etcd: row_store lb_rows lb_db_inv
  "\<lambda>r. exec kv_client (lb_etcd_create r)" "\<lambda>u. exec kv_client (lb_etcd_delete u)"
  "\<lambda>u. exec kv_client (lb_etcd_get u)" lb_uuid lb_pair
proof (unfold_locales, goal_cases)
  case (1 s)
  then show ?case by (auto simp: lb_db_inv_def rows_keyed_def lb_codec.rows_uid)
next
  case (2 s)
  then show ?case by (simp add: lb_db_inv_def)
next
  case (3 s v r s')
  then show ?case
    using lb_etcd_create_run [of s v] rows_unique_new [of lb_pair "lb_rows s" v "lb_uuid v"]
    by (auto simp: spec_create_def lb_db_inv_def lb_codec.rows_put lb_codec.ok_put wf_db_apply
        split: if_splits)
next
  case (4 s u d s')
  then show ?case
    by (auto simp: lb_etcd_delete_run lb_db_inv_def spec_delete_def lb_codec.rows_del
        lb_codec.ok_del wf_db_apply fun_upd_idem split: option.splits)
next
  case (5 s u r s')
  then show ?case by (auto simp: lb_etcd_get_run)
qed

text \<open>Alone on the table, the first attempt succeeds.\<close>

lemma lb_etcd_set_backends_run:
  assumes "lb_db_inv db"
  shows "exec kv_client (lb_etcd_set_backends bs u) db =
    (case lb_rows db u of
       None \<Rightarrow> (Inl ErrNotFound, db)
     | Some l \<Rightarrow> (Inr (set_backends bs l), db_apply [OpPut (lb_prefix @ u) (marshal_lb (set_backends bs l))] db))"
proof -
  from assms have "rows_ok lb_prefix unmarshal_lb lb_uuid db" by (simp add: lb_db_inv_def)
  then show ?thesis
    by (cases rule: lb_codec.get_cases [where u = u])
       (auto simp: lb_etcd_set_backends_def max_attempts_def eval_nat_numeral lb_key_def db_txn_def
          max_txn_ops_def rev_of_def Let_def)
qed

interpretation lb_etcd_upd: updating_store lb_rows lb_db_inv
  "\<lambda>r. exec kv_client (lb_etcd_create r)" "\<lambda>u. exec kv_client (lb_etcd_delete u)"
  "\<lambda>u. exec kv_client (lb_etcd_get u)" lb_uuid lb_pair
  "\<lambda>bs u. exec kv_client (lb_etcd_set_backends bs u)" set_backends "\<lambda>l. l"
proof (unfold_locales, goal_cases)
  case (3 s bs u r s')
  then have okd: "rows_ok lb_prefix unmarshal_lb lb_uuid s" by (simp add: lb_db_inv_def)
  from 3 rows_unique_upd [of lb_pair "lb_rows s" u] lb_codec.rows_uid [OF okd, of u] show ?case
    by (auto simp: lb_etcd_set_backends_run spec_update_def lb_db_inv_def lb_codec.rows_put
        lb_codec.ok_put wf_db_apply split: option.splits)
qed auto

context etcd_exclusive
begin

lemma lbs_row_store: "row_store (\<lambda>s. lb_rows (view s)) (\<lambda>s. ok s \<and> lb_db_inv (view s))
  (\<lambda>r. exec cl (lb_etcd_create r)) (\<lambda>u. exec cl (lb_etcd_delete u)) (\<lambda>u. exec cl (lb_etcd_get u)) lb_uuid lb_pair"
  by (rule lift_row_store) (rule lb_etcd.row_store_axioms)

end

sublocale etcd_exclusive \<subseteq> lbs: row_store "\<lambda>s. lb_rows (view s)" "\<lambda>s. ok s \<and> lb_db_inv (view s)"
  "\<lambda>r. exec cl (lb_etcd_create r)" "\<lambda>u. exec cl (lb_etcd_delete u)"
  "\<lambda>u. exec cl (lb_etcd_get u)" lb_uuid lb_pair
  by (rule lbs_row_store)

end
