(* ===== verification/DNS_Store.thy ===== *)
theory DNS_Store
  imports Store_Contract
begin

text \<open>
  DNS zones and records: \<^verbatim>\<open>internal/store/dns\<close>. The two structs and their JSON codecs, the
  specification of the operations over a pair of maps (zones by uuid, records by uuid), what
  every reachable state satisfies, and the locale that says a backend refines the specification.
  The backends are in \<open>DNS_Memory\<close> and \<open>DNS_Etcd\<close>.
\<close>

section \<open>Zones and records\<close>

record Zone =
  zone_uuid :: string
  zone_name :: string
  zone_role :: string
  zone_records :: i32
  zone_ttl :: i32
  zone_backend :: string
  zone_push_target :: string
  zone_push_state :: string
  zone_project :: string
  zone_status :: string
  zone_created :: i64

record Record =
  rec_uuid :: string
  rec_zone :: string
  rec_zone_name :: string
  rec_name :: string
  rec_type :: string
  rec_value :: string
  rec_ttl :: i32
  rec_source :: string

definition zone_zero :: Zone where
  "zone_zero = \<lparr>zone_uuid = [], zone_name = [], zone_role = [], zone_records = 0, zone_ttl = 0,
     zone_backend = [], zone_push_target = [], zone_push_state = [], zone_project = [],
     zone_status = [], zone_created = 0\<rparr>"

definition rec_zero :: Record where
  "rec_zero = \<lparr>rec_uuid = [], rec_zone = [], rec_zone_name = [], rec_name = [], rec_type = [],
     rec_value = [], rec_ttl = 0, rec_source = []\<rparr>"

text \<open>The wire messages \<^verbatim>\<open>DNSZoneInfo\<close> and \<^verbatim>\<open>DNSRecordInfo\<close>.\<close>

record ZoneInfo =
  zi_uuid :: string
  zi_name :: string
  zi_role :: string
  zi_records :: i32
  zi_ttl :: i32
  zi_backend :: string
  zi_push_target :: string
  zi_push_state :: string
  zi_project :: string
  zi_status :: string
  zi_created :: i64

record RecordInfo =
  rci_uuid :: string
  rci_zone_uuid :: string
  rci_zone :: string
  rci_name :: string
  rci_type :: string
  rci_value :: string
  rci_ttl :: i32
  rci_source :: string

definition zone_to_proto :: "Zone \<Rightarrow> ZoneInfo" where
  "zone_to_proto z =
     \<lparr>zi_uuid = zone_uuid z, zi_name = zone_name z, zi_role = zone_role z, zi_records = zone_records z,
      zi_ttl = zone_ttl z, zi_backend = zone_backend z, zi_push_target = zone_push_target z,
      zi_push_state = zone_push_state z, zi_project = zone_project z, zi_status = zone_status z,
      zi_created = zone_created z\<rparr>"

definition rec_to_proto :: "Record \<Rightarrow> RecordInfo" where
  "rec_to_proto r =
     \<lparr>rci_uuid = rec_uuid r, rci_zone_uuid = rec_zone r, rci_zone = rec_zone_name r,
      rci_name = rec_name r, rci_type = rec_type r, rci_value = rec_value r, rci_ttl = rec_ttl r,
      rci_source = rec_source r\<rparr>"

definition zone_fields :: "Zone field list" where
  "zone_fields =
     [(''UUID'', set_str (\<lambda>s. zone_uuid_update (\<lambda>_. s))),
      (''Name'', set_str (\<lambda>s. zone_name_update (\<lambda>_. s))),
      (''Role'', set_str (\<lambda>s. zone_role_update (\<lambda>_. s))),
      (''Records'', set_signed 32 (\<lambda>n. zone_records_update (\<lambda>_. word_of_int n))),
      (''TTLDefault'', set_signed 32 (\<lambda>n. zone_ttl_update (\<lambda>_. word_of_int n))),
      (''Backend'', set_str (\<lambda>s. zone_backend_update (\<lambda>_. s))),
      (''PushTarget'', set_str (\<lambda>s. zone_push_target_update (\<lambda>_. s))),
      (''PushState'', set_str (\<lambda>s. zone_push_state_update (\<lambda>_. s))),
      (''Project'', set_str (\<lambda>s. zone_project_update (\<lambda>_. s))),
      (''Status'', set_str (\<lambda>s. zone_status_update (\<lambda>_. s))),
      (''CreatedAtNs'', set_signed 64 (\<lambda>n. zone_created_update (\<lambda>_. word_of_int n)))]"

definition marshal_zone :: "Zone \<Rightarrow> etcd_value" where
  "marshal_zone z = Doc (JObj
     [(''UUID'', JStr (zone_uuid z)), (''Name'', JStr (zone_name z)), (''Role'', JStr (zone_role z)),
      (''Records'', JNum (sint (zone_records z))), (''TTLDefault'', JNum (sint (zone_ttl z))),
      (''Backend'', JStr (zone_backend z)), (''PushTarget'', JStr (zone_push_target z)),
      (''PushState'', JStr (zone_push_state z)), (''Project'', JStr (zone_project z)),
      (''Status'', JStr (zone_status z)), (''CreatedAtNs'', JNum (sint (zone_created z)))])"

definition unmarshal_zone :: "etcd_value \<Rightarrow> Zone option" where
  "unmarshal_zone = unmarshal zone_fields zone_zero"

definition rec_fields :: "Record field list" where
  "rec_fields =
     [(''UUID'', set_str (\<lambda>s. rec_uuid_update (\<lambda>_. s))),
      (''ZoneUUID'', set_str (\<lambda>s. rec_zone_update (\<lambda>_. s))),
      (''ZoneName'', set_str (\<lambda>s. rec_zone_name_update (\<lambda>_. s))),
      (''Name'', set_str (\<lambda>s. rec_name_update (\<lambda>_. s))),
      (''Type'', set_str (\<lambda>s. rec_type_update (\<lambda>_. s))),
      (''Value'', set_str (\<lambda>s. rec_value_update (\<lambda>_. s))),
      (''TTL'', set_signed 32 (\<lambda>n. rec_ttl_update (\<lambda>_. word_of_int n))),
      (''Source'', set_str (\<lambda>s. rec_source_update (\<lambda>_. s)))]"

definition marshal_rec :: "Record \<Rightarrow> etcd_value" where
  "marshal_rec r = Doc (JObj
     [(''UUID'', JStr (rec_uuid r)), (''ZoneUUID'', JStr (rec_zone r)), (''ZoneName'', JStr (rec_zone_name r)),
      (''Name'', JStr (rec_name r)), (''Type'', JStr (rec_type r)), (''Value'', JStr (rec_value r)),
      (''TTL'', JNum (sint (rec_ttl r))), (''Source'', JStr (rec_source r))])"

definition unmarshal_rec :: "etcd_value \<Rightarrow> Record option" where
  "unmarshal_rec = unmarshal rec_fields rec_zero"

lemma unmarshal_marshal_zone [codec_simps]: "unmarshal_zone (marshal_zone z) = Some z"
  by (simp add: unmarshal_zone_def marshal_zone_def zone_fields_def zone_zero_def find_field_def
      set_str_def set_signed_sint32 set_signed_sint64)

lemma unmarshal_marshal_rec [codec_simps]: "unmarshal_rec (marshal_rec r) = Some r"
  by (simp add: unmarshal_rec_def marshal_rec_def rec_fields_def rec_zero_def find_field_def
      set_str_def set_signed_sint32)

section \<open>The specification\<close>

text \<open>
  The state is the pair of tables. A zone carries the number of its records; a record carries
  the name of its zone.
\<close>

type_synonym dns_rows = "(string \<rightharpoonup> Zone) \<times> (string \<rightharpoonup> Record)"

definition recs_in :: "(string \<rightharpoonup> Record) \<Rightarrow> string \<Rightarrow> string set" where
  "recs_in R z = {u. \<exists>r. R u = Some r \<and> rec_zone r = z}"

definition dns_spec_create_zone :: "(Zone \<Rightarrow> 'k) \<Rightarrow> Zone \<Rightarrow> dns_rows \<Rightarrow> (store_err, Zone) result \<times> dns_rows" where
  "dns_spec_create_zone pkey z = (\<lambda>(Z, R).
     if \<exists>x \<in> ran Z. pkey x = pkey z then (Inl ErrAlreadyExists, (Z, R))
     else (Inr z, (Z(zone_uuid z \<mapsto> z), R)))"

definition dns_spec_delete_zone :: "string \<Rightarrow> dns_rows \<Rightarrow> (store_err, unit) result \<times> dns_rows" where
  "dns_spec_delete_zone u = (\<lambda>(Z, R).
     case Z u of None \<Rightarrow> (Inl ErrNotFound, (Z, R))
     | Some _ \<Rightarrow> (Inr (), (Z(u := None), R |` (- recs_in R u))))"

definition dns_spec_create_record :: "Record \<Rightarrow> dns_rows \<Rightarrow> (store_err, Record) result \<times> dns_rows" where
  "dns_spec_create_record r = (\<lambda>(Z, R).
     case Z (rec_zone r) of None \<Rightarrow> (Inl ErrZoneNotFound, (Z, R))
     | Some z \<Rightarrow>
         (let r' = r\<lparr>rec_zone_name := zone_name z\<rparr>; R' = R(rec_uuid r \<mapsto> r') in
          (Inr r', (Z(rec_zone r \<mapsto> z\<lparr>zone_records := of_nat (card (recs_in R' (rec_zone r)))\<rparr>), R'))))"

definition dns_spec_delete_record :: "string \<Rightarrow> dns_rows \<Rightarrow> (store_err, unit) result \<times> dns_rows" where
  "dns_spec_delete_record u = (\<lambda>(Z, R).
     case R u of None \<Rightarrow> (Inl ErrNotFound, (Z, R))
     | Some r \<Rightarrow>
         (let R' = R(u := None) in
          (Inr (), ((case Z (rec_zone r) of None \<Rightarrow> Z
             | Some z \<Rightarrow> Z(rec_zone r \<mapsto> z\<lparr>zone_records := of_nat (card (recs_in R' (rec_zone r)))\<rparr>)), R'))))"

text \<open>
  What every reachable state satisfies: rows sit under their uuids, no two zones share a key,
  every record belongs to a zone that exists and carries its name, and a zone's counter is the
  number of its records.
\<close>

definition dns_ok :: "(Zone \<Rightarrow> 'k) \<Rightarrow> dns_rows \<Rightarrow> bool" where
  "dns_ok pkey = (\<lambda>(Z, R).
     rows_keyed zone_uuid Z \<and> rows_keyed rec_uuid R \<and> rows_unique pkey Z \<and> finite (dom R) \<and>
     (\<forall>u r. R u = Some r \<longrightarrow> (\<exists>z. Z (rec_zone r) = Some z \<and> rec_zone_name r = zone_name z)) \<and>
     (\<forall>u z. Z u = Some z \<longrightarrow> zone_records z = of_nat (card (recs_in R u))))"

lemma recs_in_empty [simp]: "recs_in Map.empty z = {}"
  by (simp add: recs_in_def)

lemma recs_in_finite: "finite (dom R) \<Longrightarrow> finite (recs_in R z)"
  by (rule finite_subset [of _ "dom R"]) (auto simp: recs_in_def)

lemma recs_in_upd:
  "R u = None \<Longrightarrow> recs_in (R(u \<mapsto> r)) z = (if rec_zone r = z then insert u (recs_in R z) else recs_in R z)"
  by (auto simp: recs_in_def)

lemma recs_in_del: "recs_in (R(u := None)) z = recs_in R z - {u}"
  by (auto simp: recs_in_def split: if_splits)

lemma recs_in_restrict: "recs_in (R |` (- recs_in R u)) z = (if z = u then {} else recs_in R z)"
  by (auto simp: recs_in_def restrict_map_def split: if_splits)

lemma dns_okD:
  assumes "dns_ok pkey (Z, R)"
  shows "rows_keyed zone_uuid Z" "rows_keyed rec_uuid R" "rows_unique pkey Z" "finite (dom R)"
    "R u = Some r \<Longrightarrow> \<exists>z. Z (rec_zone r) = Some z \<and> rec_zone_name r = zone_name z"
    "Z u = Some z \<Longrightarrow> zone_records z = of_nat (card (recs_in R u))"
  using assms by (auto simp: dns_ok_def)

lemma dns_ok_empty [simp]: "dns_ok pkey (Map.empty, Map.empty)"
  by (simp add: dns_ok_def rows_keyed_def rows_unique_def)

text \<open>Every operation of the specification keeps it.\<close>

lemma dns_ok_create_zone:
  assumes ok: "dns_ok pkey (Z, R)" and new: "Z (zone_uuid z) = None" and zero: "zone_records z = 0"
  shows "dns_ok pkey (snd (dns_spec_create_zone pkey z (Z, R)))"
proof (cases "\<exists>x \<in> ran Z. pkey x = pkey z")
  case True
  with ok show ?thesis by (simp add: dns_spec_create_zone_def)
next
  case False
  have none: "recs_in R (zone_uuid z) = {}"
    using new dns_okD(5) [OF ok] by (fastforce simp: recs_in_def)
  have fk: "\<exists>x. (Z(zone_uuid z \<mapsto> z)) (rec_zone r) = Some x \<and> rec_zone_name r = zone_name x"
    if "R u = Some r" for u r
    using dns_okD(5) [OF ok that] new by fastforce
  have uniq: "rows_unique pkey (Z(zone_uuid z \<mapsto> z))"
    using dns_okD(3) [OF ok] False by (rule rows_unique_new)
  show ?thesis
    using False dns_okD(1,2,4,6) [OF ok] none zero fk uniq
    by (auto simp: dns_spec_create_zone_def dns_ok_def)
qed

lemma dns_ok_delete_zone:
  assumes ok: "dns_ok pkey (Z, R)"
  shows "dns_ok pkey (snd (dns_spec_delete_zone u (Z, R)))"
proof (cases "Z u")
  case None
  with ok show ?thesis by (simp add: dns_spec_delete_zone_def)
next
  case (Some z)
  let ?R = "R |` (- recs_in R u)"
  have fk: "\<exists>x. (Z(u := None)) (rec_zone r) = Some x \<and> rec_zone_name r = zone_name x"
    if "?R w = Some r" for w r
  proof -
    from that have "R w = Some r" "w \<notin> recs_in R u" by (auto simp: restrict_map_def split: if_splits)
    then show ?thesis using dns_okD(5) [OF ok, of w r] by (auto simp: recs_in_def)
  qed
  have "finite (dom ?R)" using dns_okD(4) [OF ok] by (simp add: finite_subset)
  moreover have "rows_keyed rec_uuid ?R"
    using dns_okD(2) [OF ok] by (auto simp: rows_keyed_def restrict_map_def)
  ultimately show ?thesis
    using Some dns_okD(1,3,6) [OF ok] fk
    by (auto simp: dns_spec_delete_zone_def dns_ok_def recs_in_restrict)
qed

lemma dns_ok_count_upd:
  assumes keyed: "rows_keyed zone_uuid Z" and uniq: "rows_unique pkey Z" and z: "Z w = Some z"
    and pk: "\<And>n. pkey (z\<lparr>zone_records := n\<rparr>) = pkey z"
    and R: "rows_keyed rec_uuid R" "finite (dom R)"
    and fk: "\<And>u r. R u = Some r \<Longrightarrow> \<exists>x. Z (rec_zone r) = Some x \<and> rec_zone_name r = zone_name x"
    and cnt: "\<And>u x. u \<noteq> w \<Longrightarrow> Z u = Some x \<Longrightarrow> zone_records x = of_nat (card (recs_in R u))"
  shows "dns_ok pkey (Z(w \<mapsto> z\<lparr>zone_records := of_nat (card (recs_in R w))\<rparr>), R)"
proof -
  let ?Z = "Z(w \<mapsto> z\<lparr>zone_records := of_nat (card (recs_in R w))\<rparr>)"
  have "\<exists>x. ?Z (rec_zone r) = Some x \<and> rec_zone_name r = zone_name x" if "R u = Some r" for u r
    using fk [OF that] z by auto
  moreover have "rows_unique pkey ?Z" using uniq z pk by (rule rows_unique_upd)
  moreover have "rows_keyed zone_uuid ?Z" using keyed z by (auto simp: rows_keyed_def)
  ultimately show ?thesis using R cnt by (auto simp: dns_ok_def)
qed

lemma dns_ok_create_record:
  assumes ok: "dns_ok pkey (Z, R)" and new: "R (rec_uuid r) = None"
    and pk: "\<And>z n. pkey (z\<lparr>zone_records := n\<rparr>) = pkey z"
  shows "dns_ok pkey (snd (dns_spec_create_record r (Z, R)))"
proof (cases "Z (rec_zone r)")
  case None
  with ok show ?thesis by (simp add: dns_spec_create_record_def)
next
  case (Some z)
  let ?R = "R(rec_uuid r \<mapsto> r\<lparr>rec_zone_name := zone_name z\<rparr>)"
  have "dns_ok pkey (Z(rec_zone r \<mapsto> z\<lparr>zone_records := of_nat (card (recs_in ?R (rec_zone r)))\<rparr>), ?R)"
  proof (rule dns_ok_count_upd [where z = z])
    show "\<exists>x. Z (rec_zone q) = Some x \<and> rec_zone_name q = zone_name x" if "?R u = Some q" for u q
      using that dns_okD(5) [OF ok] Some by (auto split: if_splits)
    show "rows_keyed rec_uuid ?R" using dns_okD(2) [OF ok] by (rule rows_keyed_upd) simp
    show "zone_records x = of_nat (card (recs_in ?R u))" if "u \<noteq> rec_zone r" "Z u = Some x" for u x
      using that new dns_okD(6) [OF ok that(2)] by (simp add: recs_in_upd)
  qed (use dns_okD(1,3,4) [OF ok] Some pk in auto)
  with Some show ?thesis by (simp add: dns_spec_create_record_def Let_def)
qed

lemma dns_ok_delete_record:
  assumes ok: "dns_ok pkey (Z, R)" and pk: "\<And>z n. pkey (z\<lparr>zone_records := n\<rparr>) = pkey z"
  shows "dns_ok pkey (snd (dns_spec_delete_record u (Z, R)))"
proof (cases "R u")
  case None
  with ok show ?thesis by (simp add: dns_spec_delete_record_def)
next
  case (Some r)
  obtain z where z: "Z (rec_zone r) = Some z" using dns_okD(5) [OF ok Some] by auto
  let ?R = "R(u := None)"
  have "dns_ok pkey (Z(rec_zone r \<mapsto> z\<lparr>zone_records := of_nat (card (recs_in ?R (rec_zone r)))\<rparr>), ?R)"
  proof (rule dns_ok_count_upd [where z = z])
    show "\<exists>x. Z (rec_zone q) = Some x \<and> rec_zone_name q = zone_name x" if "?R w = Some q" for w q
      using that dns_okD(5) [OF ok] by (auto split: if_splits)
    show "rows_keyed rec_uuid ?R" using dns_okD(2) [OF ok] by (rule rows_keyed_del)
    show "zone_records x = of_nat (card (recs_in ?R w))" if "w \<noteq> rec_zone r" "Z w = Some x" for w x
    proof -
      from that(1) Some have "recs_in ?R w = recs_in R w" by (auto simp: recs_in_def split: if_splits)
      with dns_okD(6) [OF ok that(2)] show ?thesis by simp
    qed
  qed (use dns_okD(1,3,4) [OF ok] z pk in auto)
  with Some z show ?thesis by (simp add: dns_spec_delete_record_def Let_def)
qed

section \<open>The contract of a backend\<close>

text \<open>The Go interface \<open>dns.Store\<close>, without the two listings.\<close>

record 's dns_backend =
  op_create_zone :: "Zone \<Rightarrow> 's \<Rightarrow> (store_err, Zone) result \<times> 's"
  op_delete_zone :: "string \<Rightarrow> 's \<Rightarrow> (store_err, unit) result \<times> 's"
  op_get_zone :: "string \<Rightarrow> 's \<Rightarrow> (store_err, Zone) result \<times> 's"
  op_create_record :: "Record \<Rightarrow> 's \<Rightarrow> (store_err, Record) result \<times> 's"
  op_delete_record :: "string \<Rightarrow> 's \<Rightarrow> (store_err, unit) result \<times> 's"
  op_get_record :: "string \<Rightarrow> 's \<Rightarrow> (store_err, Record) result \<times> 's"

datatype dns_call =
    CreateZone Zone
  | DeleteZone string
  | GetZone string
  | CreateRecord Record
  | DeleteRecord string
  | GetRecord string

datatype dns_reply =
    ZoneReply "(store_err, Zone) result"
  | RecordReply "(store_err, Record) result"
  | UnitReply "(store_err, unit) result"

definition dns_dispatch :: "'s dns_backend \<Rightarrow> dns_call \<Rightarrow> 's \<Rightarrow> dns_reply \<times> 's" where
  "dns_dispatch be c s = (case c of
     CreateZone z \<Rightarrow> apfst ZoneReply (op_create_zone be z s)
   | DeleteZone u \<Rightarrow> apfst UnitReply (op_delete_zone be u s)
   | GetZone u \<Rightarrow> apfst ZoneReply (op_get_zone be u s)
   | CreateRecord r \<Rightarrow> apfst RecordReply (op_create_record be r s)
   | DeleteRecord u \<Rightarrow> apfst UnitReply (op_delete_record be u s)
   | GetRecord u \<Rightarrow> apfst RecordReply (op_get_record be u s))"

definition dns_spec_call :: "(Zone \<Rightarrow> 'k) \<Rightarrow> dns_call \<Rightarrow> dns_rows \<Rightarrow> dns_reply \<times> dns_rows" where
  "dns_spec_call pkey c m = (case c of
     CreateZone z \<Rightarrow> apfst ZoneReply (dns_spec_create_zone pkey z m)
   | DeleteZone u \<Rightarrow> apfst UnitReply (dns_spec_delete_zone u m)
   | GetZone u \<Rightarrow> (ZoneReply (spec_get u (fst m)), m)
   | CreateRecord r \<Rightarrow> apfst RecordReply (dns_spec_create_record r m)
   | DeleteRecord u \<Rightarrow> apfst UnitReply (dns_spec_delete_record u m)
   | GetRecord u \<Rightarrow> (RecordReply (spec_get u (snd m)), m))"

text \<open>
  When a call is within the terms of the contract: a new row has a new uuid, a new zone starts
  with no records, the zone of a deleted record has fewer than \<open>2 ^ 32\<close> of them, and a zone that
  is deleted has a number of records that \<open>fits\<close> the backend's transaction.
\<close>

definition dns_admits :: "(nat \<Rightarrow> bool) \<Rightarrow> dns_call \<Rightarrow> dns_rows \<Rightarrow> bool" where
  "dns_admits fits c = (\<lambda>(Z, R). case c of
     CreateZone z \<Rightarrow> Z (zone_uuid z) = None \<and> zone_records z = 0
   | DeleteZone u \<Rightarrow> fits (card (recs_in R u))
   | CreateRecord r \<Rightarrow> R (rec_uuid r) = None
   | DeleteRecord u \<Rightarrow> (\<forall>r. R u = Some r \<longrightarrow> card (recs_in R (rec_zone r)) < 2 ^ 32)
   | _ \<Rightarrow> True)"

fun dns_admits_all :: "(nat \<Rightarrow> bool) \<Rightarrow> (Zone \<Rightarrow> 'k) \<Rightarrow> dns_call list \<Rightarrow> dns_rows \<Rightarrow> bool" where
  "dns_admits_all fits pkey [] m \<longleftrightarrow> True"
| "dns_admits_all fits pkey (c # cs) m \<longleftrightarrow>
     dns_admits fits c m \<and> dns_admits_all fits pkey cs (snd (dns_spec_call pkey c m))"

locale dns_store =
  fixes rows :: "'s \<Rightarrow> dns_rows"
    and good :: "'s \<Rightarrow> bool"
    and be :: "'s dns_backend"
    and fits :: "nat \<Rightarrow> bool"
    and pkey :: "Zone \<Rightarrow> 'k"
  assumes good_ok: "good s \<Longrightarrow> dns_ok pkey (rows s)"
    and dispatch_sim: "good s \<Longrightarrow> dns_admits fits c (rows s) \<Longrightarrow> dns_dispatch be c s = (r, s') \<Longrightarrow>
      dns_spec_call pkey c (rows s) = (r, rows s') \<and> good s'"
begin

lemma dns_calls_sim:
  "good s \<Longrightarrow> dns_admits_all fits pkey cs (rows s) \<Longrightarrow> run_calls (dns_dispatch be) cs s = (rs, s') \<Longrightarrow>
   run_calls (dns_spec_call pkey) cs (rows s) = (rs, rows s') \<and> good s'"
proof (induction cs arbitrary: s rs)
  case Nil
  then show ?case by simp
next
  case (Cons c cs)
  obtain r s1 where step: "dns_dispatch be c s = (r, s1)" by fastforce
  with Cons.prems have "dns_spec_call pkey c (rows s) = (r, rows s1) \<and> good s1"
    by (intro dispatch_sim) auto
  with Cons step show ?case by (auto simp: Let_def split: prod.splits)
qed

text \<open>The records of a zone go with it, and no others do.\<close>

lemma delete_zone_cascade:
  assumes "good s" and "fits (card (recs_in (snd (rows s)) u))" and "op_delete_zone be u s = (Inr (), s')"
  shows "fst (rows s') u = None"
    and "snd (rows s') w = (if w \<in> recs_in (snd (rows s)) u then None else snd (rows s) w)"
proof -
  have "dns_admits fits (DeleteZone u) (rows s)"
    using assms(2) by (cases "rows s") (simp add: dns_admits_def)
  then have "dns_spec_call pkey (DeleteZone u) (rows s) = (UnitReply (Inr ()), rows s')"
    using dispatch_sim [OF assms(1), of "DeleteZone u"] assms(3) by (simp add: dns_dispatch_def)
  then have "rows s' = ((fst (rows s))(u := None), snd (rows s) |` (- recs_in (snd (rows s)) u))"
    by (cases "rows s") (auto simp: dns_spec_call_def dns_spec_delete_zone_def split: option.splits)
  then show "fst (rows s') u = None"
    and "snd (rows s') w = (if w \<in> recs_in (snd (rows s)) u then None else snd (rows s) w)"
    by (auto simp: restrict_map_def)
qed

text \<open>After any admitted sequence: no orphan record, and every counter exact.\<close>

lemma integrity:
  assumes "good s" and "dns_admits_all fits pkey cs (rows s)" and "run_calls (dns_dispatch be) cs s = (rs, s')"
  shows "snd (rows s') u = Some r \<Longrightarrow> \<exists>z. fst (rows s') (rec_zone r) = Some z \<and> rec_zone_name r = zone_name z"
    and "fst (rows s') w = Some z \<Longrightarrow> zone_records z = of_nat (card (recs_in (snd (rows s')) w))"
proof -
  have "dns_ok pkey (rows s')" using dns_calls_sim [OF assms] good_ok by blast
  then have ok: "dns_ok pkey (fst (rows s'), snd (rows s'))" by simp
  show "snd (rows s') u = Some r \<Longrightarrow> \<exists>z. fst (rows s') (rec_zone r) = Some z \<and> rec_zone_name r = zone_name z"
    using dns_okD(5) [OF ok] by blast
  show "fst (rows s') w = Some z \<Longrightarrow> zone_records z = of_nat (card (recs_in (snd (rows s')) w))"
    using dns_okD(6) [OF ok] by blast
qed

end

end
