(* ===== verification/DNS_Etcd.thy ===== *)
theory DNS_Etcd
  imports DNS_Store
begin

text \<open>
  The etcd DNS backend: \<^verbatim>\<open>internal/store/dns/etcd.go\<close>. Zones and records live under two prefixes.
  \<open>DeleteZone\<close> deletes the zone and its records in one transaction, \<open>CreateRecord\<close> and
  \<open>DeleteRecord\<close> adjust the counter of the zone in a second write. On a service with no other
  client and no failure the backend refines the specification as long as a deleted zone and its
  records fit one transaction of the server.
\<close>

section \<open>The code\<close>

definition etcdZonePrefix :: string where
  "etcdZonePrefix = ''/weft/network/dns-zones/''"

definition etcdRecordPrefix :: string where
  "etcdRecordPrefix = ''/weft/network/dns-records/''"

definition etcdZoneKey :: "string \<Rightarrow> string" where
  "etcdZoneKey uuid = etcdZonePrefix @ uuid"

definition etcdRecordKey :: "string \<Rightarrow> string" where
  "etcdRecordKey uuid = etcdRecordPrefix @ uuid"

definition dns_etcd_list_zones :: "string \<Rightarrow> (store_err, Zone list) result etcd_prog" where
  "dns_etcd_list_zones project =
     Get etcdZonePrefix PrefixByCreate (\<lambda>resp. case resp of
       Inl e \<Rightarrow> Done (Inl (ErrWrap ''etcd list zones'' e))
     | Inr kvs \<Rightarrow>
         Done (Inr (scan_list unmarshal_zone (\<lambda>z. project \<noteq> [] \<and> zone_project z \<noteq> project) kvs)))"

definition dns_etcd_create_zone :: "Zone \<Rightarrow> (store_err, Zone) result etcd_prog" where
  "dns_etcd_create_zone z =
     Get etcdZonePrefix Prefix (\<lambda>resp. case resp of
       Inl e \<Rightarrow> Done (Inl (ErrWrap ''etcd zone uniqueness scan'' e))
     | Inr kvs \<Rightarrow>
         if scan_dup unmarshal_zone
              (\<lambda>existing. zone_project existing = zone_project z \<and> zone_name existing = zone_name z) kvs
         then Done (Inl ErrAlreadyExists)
         else
           Txn (CreateRevEq (etcdZoneKey (zone_uuid z)) 0)
             [OpPut (etcdZoneKey (zone_uuid z)) (marshal_zone z)] (\<lambda>tr. case tr of
               Inl e \<Rightarrow> Done (Inl (ErrWrap ''etcd put zone'' e))
             | Inr succeeded \<Rightarrow>
                 if \<not> succeeded then Done (Inl (ErrMsg ''dns zone uuid %q already exists in etcd''))
                 else Done (Inr z)))"

text \<open>The deletions of the cascade: the keys of the records that name the zone.\<close>

fun cascade_ops :: "string \<Rightarrow> kv list \<Rightarrow> op list" where
  "cascade_ops uuid [] = []"
| "cascade_ops uuid (kv # kvs) =
     (case unmarshal_rec (kv_val kv) of
        None \<Rightarrow> cascade_ops uuid kvs
      | Some r \<Rightarrow>
          if rec_zone r = uuid then OpDelete (kv_key kv) # cascade_ops uuid kvs
          else cascade_ops uuid kvs)"

definition dns_etcd_delete_zone :: "string \<Rightarrow> (store_err, unit) result etcd_prog" where
  "dns_etcd_delete_zone uuid =
     Get etcdRecordPrefix Prefix (\<lambda>resp. case resp of
       Inl e \<Rightarrow> Done (Inl (ErrWrap ''etcd list records for cascade'' e))
     | Inr kvs \<Rightarrow>
         Txn (CreateRevNe (etcdZoneKey uuid) 0) (OpDelete (etcdZoneKey uuid) # cascade_ops uuid kvs)
           (\<lambda>tr. case tr of
              Inl e \<Rightarrow> Done (Inl (ErrWrap ''etcd cascade delete zone'' e))
            | Inr succeeded \<Rightarrow> if \<not> succeeded then Done (Inl ErrNotFound) else Done (Inr ())))"

definition dns_etcd_get_zone :: "string \<Rightarrow> (store_err, Zone) result etcd_prog" where
  "dns_etcd_get_zone uuid =
     Get (etcdZoneKey uuid) Exact (\<lambda>resp. case resp of
       Inl e \<Rightarrow> Done (Inl (ErrWrap ''etcd get zone'' e))
     | Inr kvs \<Rightarrow>
         (case kvs of
            [] \<Rightarrow> Done (Inl ErrNotFound)
          | kv # _ \<Rightarrow>
              (case unmarshal_zone (kv_val kv) of
                 None \<Rightarrow> Done (Inl (ErrMsg (''decode zone '' @ uuid)))
               | Some z \<Rightarrow> Done (Inr z))))"

definition dns_etcd_list_records :: "string \<Rightarrow> (store_err, Record list) result etcd_prog" where
  "dns_etcd_list_records zone =
     Get etcdRecordPrefix PrefixByCreate (\<lambda>resp. case resp of
       Inl e \<Rightarrow> Done (Inl (ErrWrap ''etcd list records'' e))
     | Inr kvs \<Rightarrow>
         Done (Inr (scan_list unmarshal_rec (\<lambda>r. zone \<noteq> [] \<and> rec_zone r \<noteq> zone) kvs)))"

definition dns_etcd_create_record :: "Record \<Rightarrow> (store_err, Record) result etcd_prog" where
  "dns_etcd_create_record r =
     bind_prog (dns_etcd_get_zone (rec_zone r)) (\<lambda>res. case res of
       Inl err \<Rightarrow> Done (Inl (if err = ErrNotFound then ErrZoneNotFound else err))
     | Inr z \<Rightarrow>
         (let r' = r\<lparr>rec_zone_name := zone_name z\<rparr> in
          Txn (CreateRevEq (etcdRecordKey (rec_uuid r')) 0)
            [OpPut (etcdRecordKey (rec_uuid r')) (marshal_rec r')] (\<lambda>tr. case tr of
              Inl e \<Rightarrow> Done (Inl (ErrWrap ''etcd put record'' e))
            | Inr succeeded \<Rightarrow>
                if \<not> succeeded then Done (Inl (ErrMsg ''dns record uuid %q already exists in etcd''))
                else
                  (let z' = z\<lparr>zone_records := zone_records z + 1\<rparr> in
                   Put (etcdZoneKey (zone_uuid z')) (marshal_zone z') (\<lambda>_. Done (Inr r'))))))"

definition dns_etcd_get_record :: "string \<Rightarrow> (store_err, Record) result etcd_prog" where
  "dns_etcd_get_record uuid =
     Get (etcdRecordKey uuid) Exact (\<lambda>resp. case resp of
       Inl e \<Rightarrow> Done (Inl (ErrWrap ''etcd get record'' e))
     | Inr kvs \<Rightarrow>
         (case kvs of
            [] \<Rightarrow> Done (Inl ErrNotFound)
          | kv # _ \<Rightarrow>
              (case unmarshal_rec (kv_val kv) of
                 None \<Rightarrow> Done (Inl (ErrMsg (''decode record '' @ uuid)))
               | Some r \<Rightarrow> Done (Inr r))))"

text \<open>
  The decrement of the counter: a compare-and-swap on the zone, \<open>n\<close> attempts left. It gives up
  silently, whatever happens: the record is gone already.
\<close>

primrec decrement_loop :: "nat \<Rightarrow> string \<Rightarrow> (store_err, unit) result etcd_prog" where
  "decrement_loop 0 zKey = Done (Inr ())"
| "decrement_loop (Suc n) zKey =
     Get zKey Exact (\<lambda>gr. case gr of
       Inl _ \<Rightarrow> Done (Inr ())
     | Inr kvs \<Rightarrow>
         (case kvs of
            [] \<Rightarrow> Done (Inr ())
          | kv # _ \<Rightarrow>
              (case unmarshal_zone (kv_val kv) of
                 None \<Rightarrow> Done (Inr ())
               | Some z \<Rightarrow>
                   if zone_records z = 0 then Done (Inr ())
                   else
                     Txn (ModRevEq zKey (mod_rev kv))
                       [OpPut zKey (marshal_zone (z\<lparr>zone_records := zone_records z - 1\<rparr>))] (\<lambda>tr. case tr of
                         Inl _ \<Rightarrow> Done (Inr ())
                       | Inr succeeded \<Rightarrow>
                           if succeeded then Done (Inr ()) else decrement_loop n zKey))))"

definition dns_etcd_delete_record :: "string \<Rightarrow> (store_err, unit) result etcd_prog" where
  "dns_etcd_delete_record uuid =
     bind_prog (dns_etcd_get_record uuid) (\<lambda>res. case res of
       Inl err \<Rightarrow> Done (Inl err)
     | Inr got \<Rightarrow>
         Del (etcdRecordKey uuid) (\<lambda>resp. case resp of
           Inl e \<Rightarrow> Done (Inl (ErrWrap ''etcd delete record'' e))
         | Inr deleted \<Rightarrow>
             if deleted = 0 then Done (Inl ErrNotFound)
             else decrement_loop 8 (etcdZoneKey (rec_zone got))))"

definition dns_etcd :: "('s, 'm) etcd_client_scheme \<Rightarrow> 's dns_backend" where
  "dns_etcd cl =
     \<lparr>op_create_zone = (\<lambda>z. exec cl (dns_etcd_create_zone z)),
      op_delete_zone = (\<lambda>u. exec cl (dns_etcd_delete_zone u)),
      op_get_zone = (\<lambda>u. exec cl (dns_etcd_get_zone u)),
      op_create_record = (\<lambda>r. exec cl (dns_etcd_create_record r)),
      op_delete_record = (\<lambda>u. exec cl (dns_etcd_delete_record u)),
      op_get_record = (\<lambda>u. exec cl (dns_etcd_get_record u))\<rparr>"

section \<open>The two tables\<close>

interpretation zone_codec: row_codec etcdZonePrefix marshal_zone unmarshal_zone zone_uuid
  by unfold_locales (rule unmarshal_marshal_zone)

interpretation rec_codec: row_codec etcdRecordPrefix marshal_rec unmarshal_rec rec_uuid
  by unfold_locales (rule unmarshal_marshal_rec)

abbreviation zone_rows :: "kvdb \<Rightarrow> string \<rightharpoonup> Zone" where
  "zone_rows \<equiv> rows_of etcdZonePrefix unmarshal_zone"

abbreviation rec_rows :: "kvdb \<Rightarrow> string \<rightharpoonup> Record" where
  "rec_rows \<equiv> rows_of etcdRecordPrefix unmarshal_rec"

definition dns_rows_of :: "kvdb \<Rightarrow> dns_rows" where
  "dns_rows_of db = (zone_rows db, rec_rows db)"

abbreviation zone_pair :: "Zone \<Rightarrow> string \<times> string" where
  "zone_pair z \<equiv> (zone_project z, zone_name z)"

definition dns_tables_ok :: "kvdb \<Rightarrow> bool" where
  "dns_tables_ok db \<longleftrightarrow>
     wf_db db \<and> rows_ok etcdZonePrefix unmarshal_zone zone_uuid db \<and>
     rows_ok etcdRecordPrefix unmarshal_rec rec_uuid db"

definition dns_db_inv :: "kvdb \<Rightarrow> bool" where
  "dns_db_inv db \<longleftrightarrow> dns_tables_ok db \<and> dns_ok zone_pair (dns_rows_of db)"

lemma dns_db_inv_empty [simp]: "dns_db_inv db_empty"
  by (simp add: dns_db_inv_def dns_tables_ok_def dns_rows_of_def)

lemma dns_db_invD:
  assumes "dns_db_inv db"
  shows "wf_db db" "rows_ok etcdZonePrefix unmarshal_zone zone_uuid db"
    "rows_ok etcdRecordPrefix unmarshal_rec rec_uuid db" "dns_ok zone_pair (zone_rows db, rec_rows db)"
  using assms by (auto simp: dns_db_inv_def dns_tables_ok_def dns_rows_of_def)

lemma dns_prefixes [simp]:
  "etcdZonePrefix @ u \<noteq> etcdRecordPrefix @ w" "etcdRecordPrefix @ w \<noteq> etcdZonePrefix @ u"
  by (simp_all add: etcdZonePrefix_def etcdRecordPrefix_def)

text \<open>What the writes of the backend do to the two tables.\<close>

lemma dns_tables_put [simp]:
  "zone_rows (db_apply [OpPut (etcdZonePrefix @ u) (marshal_zone z)] db) = (zone_rows db)(u \<mapsto> z)"
  "rec_rows (db_apply [OpPut (etcdZonePrefix @ u) (marshal_zone z)] db) = rec_rows db"
  "zone_rows (db_apply [OpPut (etcdRecordPrefix @ u) (marshal_rec r)] db) = zone_rows db"
  "rec_rows (db_apply [OpPut (etcdRecordPrefix @ u) (marshal_rec r)] db) = (rec_rows db)(u \<mapsto> r)"
  by (simp_all add: zone_codec.rows_put rec_codec.rows_put rows_of_put_other)

lemma dns_tables_del [simp]:
  "zone_rows (db_apply [OpDelete (etcdRecordPrefix @ u)] db) = zone_rows db"
  "rec_rows (db_apply [OpDelete (etcdRecordPrefix @ u)] db) = (rec_rows db)(u := None)"
  by (simp_all add: rec_codec.rows_del) (rule ext, simp add: rows_of_def db_value_del)

lemma dns_tables_ok_put [simp]:
  "dns_tables_ok db \<Longrightarrow> zone_uuid z = u \<Longrightarrow>
     dns_tables_ok (db_apply [OpPut (etcdZonePrefix @ u) (marshal_zone z)] db)"
  "dns_tables_ok db \<Longrightarrow> rec_uuid r = w \<Longrightarrow>
     dns_tables_ok (db_apply [OpPut (etcdRecordPrefix @ w) (marshal_rec r)] db)"
  "dns_tables_ok db \<Longrightarrow> dns_tables_ok (db_apply [OpDelete k] db)"
  by (auto simp: dns_tables_ok_def wf_db_apply zone_codec.ok_put rec_codec.ok_put rows_ok_put_other
      zone_codec.ok_del rec_codec.ok_del)

lemma kvs_lookup_dels:
  "kvs_lookup (fold (op_apply r) (map OpDelete ks) xs) j = (if j \<in> set ks then None else kvs_lookup xs j)"
  by (induction ks arbitrary: xs) (auto simp: kvs_lookup_del)

lemma db_value_dels:
  "db_value (db_apply (map OpDelete ks) db) j = (if j \<in> set ks then None else db_value db j)"
  by (simp add: db_value_def db_lookup_kvs db_apply_kvs kvs_lookup_dels)

lemma rows_ok_dels:
  "rows_ok pfx dec uid db \<Longrightarrow> rows_ok pfx dec uid (db_apply (map OpDelete ks) db)"
proof -
  have "x \<in> set (fold (op_apply r) (map OpDelete ks) xs) \<Longrightarrow> x \<in> set xs" for x r xs
    by (induction ks arbitrary: xs) (fastforce simp: set_kvs_del)+
  then show "rows_ok pfx dec uid db \<Longrightarrow> rows_ok pfx dec uid (db_apply (map OpDelete ks) db)"
    by (fastforce simp: rows_ok_def db_apply_kvs)
qed

text \<open>The cascade deletes the keys of the records of the zone, each once.\<close>

definition cascade_keys :: "string \<Rightarrow> kv list \<Rightarrow> string list" where
  "cascade_keys u kvs =
     map kv_key (filter (\<lambda>x. \<exists>r. unmarshal_rec (kv_val x) = Some r \<and> rec_zone r = u) kvs)"

lemma cascade_ops_map: "cascade_ops u kvs = map OpDelete (cascade_keys u kvs)"
  by (induction kvs) (auto simp: cascade_keys_def split: option.splits)

lemma set_cascade_keys:
  assumes "dns_db_inv db"
  shows "set (cascade_keys u (db_get etcdRecordPrefix Prefix db)) =
    (\<lambda>w. etcdRecordPrefix @ w) ` recs_in (rec_rows db) u"
proof (rule set_eqI)
  fix k
  have in_db: "(x \<in> set (db_kvs db) \<and> kv_key x = j) \<longleftrightarrow> db_lookup db j = Some x" for x j
    using db_lookup_in [of db j x] in_db_lookup [OF dns_db_invD(1) [OF assms], of x] by auto
  have "k \<in> set (cascade_keys u (db_get etcdRecordPrefix Prefix db)) \<longleftrightarrow>
    (\<exists>w x r. k = etcdRecordPrefix @ w \<and> x \<in> set (db_kvs db) \<and>
      kv_key x = etcdRecordPrefix @ w \<and> unmarshal_rec (kv_val x) = Some r \<and> rec_zone r = u)"
    using set_db_get_prefix(1) [of etcdRecordPrefix db]
    by (force simp: cascade_keys_def simp del: db_get.simps)
  also have "\<dots> \<longleftrightarrow> (\<exists>w x r. k = etcdRecordPrefix @ w \<and> db_lookup db (etcdRecordPrefix @ w) = Some x \<and>
    unmarshal_rec (kv_val x) = Some r \<and> rec_zone r = u)"
    by (simp only: in_db [symmetric] conj_assoc)
  also have "\<dots> \<longleftrightarrow> k \<in> (\<lambda>w. etcdRecordPrefix @ w) ` recs_in (rec_rows db) u"
    by (auto simp: recs_in_def rec_codec.rows_Some image_iff)
  finally show "k \<in> set (cascade_keys u (db_get etcdRecordPrefix Prefix db)) \<longleftrightarrow>
    k \<in> (\<lambda>w. etcdRecordPrefix @ w) ` recs_in (rec_rows db) u" .
qed

lemma length_cascade_keys:
  assumes "dns_db_inv db"
  shows "length (cascade_keys u (db_get etcdRecordPrefix Prefix db)) = card (recs_in (rec_rows db) u)"
proof -
  let ?ks = "cascade_keys u (db_get etcdRecordPrefix Prefix db)"
  have "distinct (map kv_key (db_kvs db))" using dns_db_invD(1) [OF assms] by (simp add: wf_db_def)
  then have "distinct (map kv_key (db_get etcdRecordPrefix Prefix db))"
    by (auto simp: distinct_map inj_on_def)
  then have "distinct ?ks" by (simp add: cascade_keys_def distinct_map_filter del: db_get.simps)
  then have "length ?ks = card (set ?ks)" by (simp only: distinct_card)
  also have "\<dots> = card (recs_in (rec_rows db) u)"
    by (simp add: set_cascade_keys [OF assms] card_image inj_on_def del: db_get.simps)
  finally show ?thesis .
qed

section \<open>Runs on the table\<close>

lemma dns_etcd_create_zone_run:
  assumes "dns_db_inv db" and "zone_rows db (zone_uuid z) = None"
  shows "exec kv_client (dns_etcd_create_zone z) db =
    (if \<exists>x \<in> ran (zone_rows db). zone_pair x = zone_pair z then (Inl ErrAlreadyExists, db)
     else (Inr z, db_apply [OpPut (etcdZonePrefix @ zone_uuid z) (marshal_zone z)] db))"
proof -
  note inv = dns_db_invD [OF assms(1)]
  have "db_lookup db (etcdZonePrefix @ zone_uuid z) = None"
    using assms(2) zone_codec.rows_None [OF inv(2)] by simp
  then show ?thesis
    using zone_codec.scan_dup_rows [OF inv(1)]
    by (auto simp: dns_etcd_create_zone_def db_txn_def max_txn_ops_def rev_of_def etcdZoneKey_def
        simp del: db_get.simps)
qed

lemma dns_etcd_get_zone_run:
  assumes "dns_db_inv db"
  shows "exec kv_client (dns_etcd_get_zone u) db = (spec_get u (zone_rows db), db)"
  using dns_db_invD(2) [OF assms]
  by (cases rule: zone_codec.get_cases [where u = u])
     (auto simp: dns_etcd_get_zone_def spec_get_def etcdZoneKey_def)

lemma dns_etcd_get_record_run:
  assumes "dns_db_inv db"
  shows "exec kv_client (dns_etcd_get_record u) db = (spec_get u (rec_rows db), db)"
  using dns_db_invD(3) [OF assms]
  by (cases rule: rec_codec.get_cases [where u = u])
     (auto simp: dns_etcd_get_record_def spec_get_def etcdRecordKey_def)

text \<open>The transaction of \<open>DeleteZone\<close> is refused when it is too big, and nothing is deleted.\<close>

lemma dns_etcd_delete_zone_run:
  assumes "dns_db_inv db"
  shows "exec kv_client (dns_etcd_delete_zone u) db =
    (if card (recs_in (rec_rows db) u) < max_txn_ops then
       (if zone_rows db u = None then (Inl ErrNotFound, db)
        else (Inr (), db_apply (map OpDelete ((etcdZonePrefix @ u) #
          cascade_keys u (db_get etcdRecordPrefix Prefix db))) db))
     else (Inl (ErrWrap ''etcd cascade delete zone'' ''etcdserver: too many operations in txn request''), db))"
proof -
  note inv = dns_db_invD [OF assms(1)]
  have "rev_of create_rev db (etcdZonePrefix @ u) = 0 \<longleftrightarrow> zone_rows db u = None"
    by (simp add: rev_of_create_0 [OF inv(1)] zone_codec.rows_None [OF inv(2)])
  with length_cascade_keys [OF assms, of u] show ?thesis
    by (auto simp: dns_etcd_delete_zone_def etcdZoneKey_def db_txn_def cascade_ops_map simp del: db_get.simps)
qed

lemma dns_etcd_create_record_run:
  assumes "dns_db_inv db" and new: "rec_rows db (rec_uuid r) = None"
  shows "exec kv_client (dns_etcd_create_record r) db =
    (case zone_rows db (rec_zone r) of
       None \<Rightarrow> (Inl ErrZoneNotFound, db)
     | Some z \<Rightarrow>
         (let r' = r\<lparr>rec_zone_name := zone_name z\<rparr> in
          (Inr r', db_apply [OpPut (etcdZonePrefix @ rec_zone r) (marshal_zone (z\<lparr>zone_records := zone_records z + 1\<rparr>))]
             (db_apply [OpPut (etcdRecordPrefix @ rec_uuid r) (marshal_rec r')] db))))"
proof -
  note inv = dns_db_invD [OF assms(1)]
  have "rev_of create_rev db (etcdRecordPrefix @ rec_uuid r) = 0"
    using new rec_codec.rows_None [OF inv(3)] by (simp add: rev_of_def)
  with zone_codec.rows_uid [OF inv(2), of "rec_zone r"] show ?thesis
    by (auto simp: dns_etcd_create_record_def exec_bind dns_etcd_get_zone_run [OF assms(1)] spec_get_def
        Let_def db_txn_def max_txn_ops_def etcdRecordKey_def etcdZoneKey_def db_put_def split: option.splits)
qed

text \<open>With no other client the first attempt of the decrement is the last.\<close>

lemma decrement_loop_run:
  assumes "db_lookup db zk = Some x" and "unmarshal_zone (kv_val x) = Some z" and "zone_records z \<noteq> 0"
  shows "exec kv_client (decrement_loop (Suc n) zk) db =
    (Inr (), db_apply [OpPut zk (marshal_zone (z\<lparr>zone_records := zone_records z - 1\<rparr>))] db)"
  using assms by (simp add: db_txn_def max_txn_ops_def rev_of_def)

lemma of_nat_card_neq_0:
  "finite A \<Longrightarrow> a \<in> A \<Longrightarrow> card A < 2 ^ 32 \<Longrightarrow> (of_nat (card A) :: i32) \<noteq> 0"
  by (auto simp: of_nat_eq_0_iff word_of_nat_eq_0_iff dest!: dvd_imp_le simp: card_gt_0_iff)

section \<open>The refinement\<close>

lemma dns_etcd_create_zone_sim:
  assumes inv: "dns_db_inv db" and new: "zone_rows db (zone_uuid z) = None" "zone_records z = 0"
    and step: "exec kv_client (dns_etcd_create_zone z) db = (r, db')"
  shows "dns_spec_create_zone zone_pair z (dns_rows_of db) = (r, dns_rows_of db') \<and> dns_db_inv db'"
  using step dns_etcd_create_zone_run [OF inv new(1)] dns_ok_create_zone [OF dns_db_invD(4) [OF inv] new] inv
  by (auto simp: dns_spec_create_zone_def dns_rows_of_def dns_db_inv_def split: if_splits)

lemma dns_tables_dels:
  fixes u :: string
  assumes "dns_db_inv db"
  defines "db' \<equiv> db_apply (map OpDelete ((etcdZonePrefix @ u) #
      cascade_keys u (db_get etcdRecordPrefix Prefix db))) db"
  shows "zone_rows db' = (zone_rows db)(u := None)"
    and "rec_rows db' = rec_rows db |` (- recs_in (rec_rows db) u)" and "dns_tables_ok db'"
proof -
  note keys = set_cascade_keys [OF assms(1), of u]
  have val: "db_value db' j = (if j = etcdZonePrefix @ u \<or> j \<in> (\<lambda>w. etcdRecordPrefix @ w) ` recs_in (rec_rows db) u
    then None else db_value db j)" for j
    unfolding db'_def db_value_dels using keys by simp
  show "zone_rows db' = (zone_rows db)(u := None)"
    by (rule ext) (auto simp: rows_of_def val)
  show "rec_rows db' = rec_rows db |` (- recs_in (rec_rows db) u)"
    by (rule ext) (auto simp: rows_of_def val restrict_map_def)
  show "dns_tables_ok db'"
    using assms(1) unfolding db'_def dns_db_inv_def dns_tables_ok_def
    by (auto simp: wf_db_apply intro!: rows_ok_dels simp del: list.map)
qed

lemma dns_etcd_delete_zone_sim:
  assumes inv: "dns_db_inv db" and fits: "card (recs_in (rec_rows db) u) < max_txn_ops"
    and step: "exec kv_client (dns_etcd_delete_zone u) db = (r, db')"
  shows "dns_spec_delete_zone u (dns_rows_of db) = (r, dns_rows_of db') \<and> dns_db_inv db'"
proof (cases "zone_rows db u")
  case None
  with step fits inv dns_etcd_delete_zone_run [OF inv, of u] show ?thesis
    by (simp add: dns_spec_delete_zone_def dns_rows_of_def)
next
  case (Some z)
  with step fits have db': "r = Inr ()" "db' = db_apply (map OpDelete ((etcdZonePrefix @ u) #
      cascade_keys u (db_get etcdRecordPrefix Prefix db))) db"
    unfolding dns_etcd_delete_zone_run [OF inv] by (simp_all del: list.map db_get.simps)
  show ?thesis
    using dns_ok_delete_zone [OF dns_db_invD(4) [OF inv], of u] Some dns_tables_dels [OF inv, of u]
    unfolding db' by (simp add: dns_spec_delete_zone_def dns_rows_of_def dns_db_inv_def del: list.map db_get.simps)
qed

lemma dns_etcd_create_record_sim:
  assumes inv: "dns_db_inv db" and new: "rec_rows db (rec_uuid q) = None"
    and step: "exec kv_client (dns_etcd_create_record q) db = (r, db')"
  shows "dns_spec_create_record q (dns_rows_of db) = (r, dns_rows_of db') \<and> dns_db_inv db'"
proof (cases "zone_rows db (rec_zone q)")
  case None
  with step dns_etcd_create_record_run [OF inv new] inv show ?thesis
    by (simp add: dns_spec_create_record_def dns_rows_of_def)
next
  case (Some z)
  let ?q = "q\<lparr>rec_zone_name := zone_name z\<rparr>"
  let ?z = "z\<lparr>zone_records := zone_records z + 1\<rparr>"
  note ok = dns_db_invD(4) [OF inv]
  have new_in: "rec_uuid q \<notin> recs_in (rec_rows db) (rec_zone q)" using new by (simp add: recs_in_def)
  have "card (recs_in ((rec_rows db)(rec_uuid q \<mapsto> ?q)) (rec_zone q)) = Suc (card (recs_in (rec_rows db) (rec_zone q)))"
    using recs_in_finite [OF dns_okD(4) [OF ok]] new_in by (simp add: recs_in_upd new)
  then have cnt: "zone_records z + 1 = of_nat (card (recs_in ((rec_rows db)(rec_uuid q \<mapsto> ?q)) (rec_zone q)))"
    using dns_okD(6) [OF ok Some] by simp
  from Some step have db': "r = Inr ?q" "db' = db_apply [OpPut (etcdZonePrefix @ rec_zone q) (marshal_zone ?z)]
       (db_apply [OpPut (etcdRecordPrefix @ rec_uuid q) (marshal_rec ?q)] db)"
    unfolding dns_etcd_create_record_run [OF inv new] by (simp_all add: Let_def)
  have spec: "dns_spec_create_record q (zone_rows db, rec_rows db) = (Inr ?q, dns_rows_of db')"
    using Some by (simp add: dns_spec_create_record_def dns_rows_of_def db' cnt Let_def)
  have "zone_uuid z = rec_zone q" using zone_codec.rows_uid [OF dns_db_invD(2) [OF inv] Some] .
  then have "dns_tables_ok db'" using inv by (simp add: db' dns_db_inv_def)
  moreover have "dns_ok zone_pair (dns_rows_of db')"
    using dns_ok_create_record [OF ok new] spec by simp
  ultimately show ?thesis using spec db' by (simp add: dns_db_inv_def dns_rows_of_def)
qed

lemma dns_etcd_delete_record_sim:
  assumes inv: "dns_db_inv db"
    and small: "\<forall>q. rec_rows db u = Some q \<longrightarrow> card (recs_in (rec_rows db) (rec_zone q)) < 2 ^ 32"
    and step: "exec kv_client (dns_etcd_delete_record u) db = (r, db')"
  shows "dns_spec_delete_record u (dns_rows_of db) = (r, dns_rows_of db') \<and> dns_db_inv db'"
proof (cases "rec_rows db u")
  case None
  with step inv show ?thesis
    by (simp add: dns_etcd_delete_record_def exec_bind dns_etcd_get_record_run [OF inv] spec_get_def
        dns_spec_delete_record_def dns_rows_of_def)
next
  case (Some q)
  note ok = dns_db_invD(4) [OF inv]
  obtain z where z: "zone_rows db (rec_zone q) = Some z" using dns_okD(5) [OF ok Some] by auto
  let ?z = "z\<lparr>zone_records := zone_records z - 1\<rparr>"
  let ?db1 = "db_apply [OpDelete (etcdRecordPrefix @ u)] db"
  have mem: "u \<in> recs_in (rec_rows db) (rec_zone q)" using Some by (simp add: recs_in_def)
  have fin: "finite (recs_in (rec_rows db) (rec_zone q))" using dns_okD(4) [OF ok] by (rule recs_in_finite)
  have cz: "zone_records z = of_nat (card (recs_in (rec_rows db) (rec_zone q)))" using dns_okD(6) [OF ok z] .
  have nz: "zone_records z \<noteq> 0" using of_nat_card_neq_0 [OF fin mem] small Some cz by simp
  have "card (recs_in (rec_rows db) (rec_zone q)) = Suc (card (recs_in ((rec_rows db)(u := None)) (rec_zone q)))"
    using card.remove [OF fin mem] by (simp add: recs_in_del)
  then have cnt: "zone_records z - 1 = of_nat (card (recs_in ((rec_rows db)(u := None)) (rec_zone q)))"
    using cz by simp
  obtain x where x: "db_lookup ?db1 (etcdZonePrefix @ rec_zone q) = Some x" "unmarshal_zone (kv_val x) = Some z"
    using z dns_tables_del(1) [of u db] zone_codec.rows_Some [of ?db1 "rec_zone q" z] by auto
  obtain y where y: "db_lookup db (etcdRecordPrefix @ u) = Some y" using Some rec_codec.rows_Some by blast
  from step have db': "r = Inr ()" "db' = db_apply [OpPut (etcdZonePrefix @ rec_zone q) (marshal_zone ?z)] ?db1"
    using decrement_loop_run [OF x nz, of 7] y
    by (simp_all add: dns_etcd_delete_record_def exec_bind dns_etcd_get_record_run [OF inv] spec_get_def
        Some etcdRecordKey_def etcdZoneKey_def db_del_def numeral_eq_Suc del: decrement_loop.simps)
  have spec: "dns_spec_delete_record u (zone_rows db, rec_rows db) = (Inr (), dns_rows_of db')"
    using Some z by (simp add: dns_spec_delete_record_def dns_rows_of_def db' cnt Let_def)
  have "zone_uuid z = rec_zone q" using zone_codec.rows_uid [OF dns_db_invD(2) [OF inv] z] .
  then have "dns_tables_ok db'" using inv by (simp add: db' dns_db_inv_def)
  moreover have "dns_ok zone_pair (dns_rows_of db')"
    using dns_ok_delete_record [OF ok, of u] spec by simp
  ultimately show ?thesis using spec db' by (simp add: dns_db_inv_def dns_rows_of_def)
qed

lemma dns_etcd_kv_sim:
  assumes "dns_db_inv db" and "dns_admits (\<lambda>n. n < max_txn_ops) c (dns_rows_of db)"
    and "dns_dispatch (dns_etcd kv_client) c db = (r, db')"
  shows "dns_spec_call zone_pair c (dns_rows_of db) = (r, dns_rows_of db') \<and> dns_db_inv db'"
proof (cases c)
  case (CreateZone z)
  with assms dns_etcd_create_zone_sim [of db z] show ?thesis
    by (cases "exec kv_client (dns_etcd_create_zone z) db")
       (auto simp: dns_dispatch_def dns_spec_call_def dns_etcd_def dns_admits_def dns_rows_of_def)
next
  case (DeleteZone u)
  with assms dns_etcd_delete_zone_sim [of db u] show ?thesis
    by (cases "exec kv_client (dns_etcd_delete_zone u) db")
       (auto simp: dns_dispatch_def dns_spec_call_def dns_etcd_def dns_admits_def dns_rows_of_def)
next
  case (CreateRecord q)
  with assms dns_etcd_create_record_sim [of db q] show ?thesis
    by (cases "exec kv_client (dns_etcd_create_record q) db")
       (auto simp: dns_dispatch_def dns_spec_call_def dns_etcd_def dns_admits_def dns_rows_of_def)
next
  case (DeleteRecord u)
  with assms dns_etcd_delete_record_sim [of db u] show ?thesis
    by (cases "exec kv_client (dns_etcd_delete_record u) db")
       (auto simp: dns_dispatch_def dns_spec_call_def dns_etcd_def dns_admits_def dns_rows_of_def)
qed (use assms in \<open>auto simp: dns_dispatch_def dns_spec_call_def dns_etcd_def dns_rows_of_def
      dns_etcd_get_zone_run dns_etcd_get_record_run\<close>)

interpretation dns_etcd_kv: dns_store dns_rows_of dns_db_inv "dns_etcd kv_client" "\<lambda>n. n < max_txn_ops" zone_pair
  by unfold_locales (auto simp: dns_etcd_kv_sim, simp add: dns_db_inv_def)

text \<open>And so on every exclusive service.\<close>

context etcd_exclusive
begin

lemma exec_apfst_view:
  "ok s \<Longrightarrow> apfst f (exec cl p s) = (r, s') \<Longrightarrow> apfst f (exec kv_client p (view s)) = (r, view s') \<and> ok s'"
  using exec_sim [of s p] by (cases "exec cl p s") auto

lemma dns_dispatch_view:
  "ok s \<Longrightarrow> dns_dispatch (dns_etcd cl) c s = (r, s') \<Longrightarrow>
   dns_dispatch (dns_etcd kv_client) c (view s) = (r, view s') \<and> ok s'"
  by (cases c) (auto simp: dns_dispatch_def dns_etcd_def dest: exec_apfst_view)

lemma dns_on_service: "dns_store (\<lambda>s. dns_rows_of (view s)) (\<lambda>s. ok s \<and> dns_db_inv (view s))
  (dns_etcd cl) (\<lambda>n. n < max_txn_ops) zone_pair"
proof (rule dns_store.intro, goal_cases)
  case (1 s)
  then show ?case using dns_etcd_kv.good_ok by blast
next
  case (2 s c r s')
  then show ?case using dns_dispatch_view [of s c r s'] dns_etcd_kv.dispatch_sim by blast
qed

end

sublocale etcd_exclusive \<subseteq> dns: dns_store "\<lambda>s. dns_rows_of (view s)" "\<lambda>s. ok s \<and> dns_db_inv (view s)"
  "dns_etcd cl" "\<lambda>n. n < max_txn_ops" zone_pair
  by (rule dns_on_service)

end
