(* ===== verification/Etcd_Races.thy ===== *)
theory Etcd_Races
  imports Scheduling_Store Router_Store LB_Store DNS_Etcd
begin

text \<open>
  Two replicas on one etcd. \<open>pstep\<close> makes the next call of a program on the table and
  \<open>run2\<close> runs two programs under a schedule (\<open>True\<close>: the first makes its next call). What holds of
  every interleaving is proved with \<open>iexec\<close>, whose runs include these; what can go wrong is shown by
  a schedule.
\<close>

section \<open>Schedules\<close>

fun pstep :: "'a etcd_prog \<Rightarrow> kvdb \<Rightarrow> 'a etcd_prog \<times> kvdb" where
  "pstep (Done a) db = (Done a, db)"
| "pstep (Get k o' c) db = (c (Inr (db_get k o' db)), db)"
| "pstep (Put k v c) db = (let (r, db') = db_put k v db in (c r, db'))"
| "pstep (Del k c) db = (let (r, db') = db_del k db in (c r, db'))"
| "pstep (Txn g ops c) db = (let (r, db') = db_txn g ops db in (c r, db'))"

fun run2 :: "bool list \<Rightarrow> 'a etcd_prog \<Rightarrow> 'b etcd_prog \<Rightarrow> kvdb \<Rightarrow> 'a etcd_prog \<times> 'b etcd_prog \<times> kvdb" where
  "run2 [] p q db = (p, q, db)"
| "run2 (True # bs) p q db = (let (p', db') = pstep p db in run2 bs p' q db')"
| "run2 (False # bs) p q db = (let (q', db') = pstep q db in run2 bs p q' db')"

text \<open>A step of one program is interference for the other.\<close>

lemma pstep_env: "pstep p db = (p', db') \<Longrightarrow> env_steps db db'"
  by (cases p) (auto split: prod.splits dest: db_writes_env_eq)

lemma iexec_env_front: "env_steps db m \<Longrightarrow> iexec p m a db' \<Longrightarrow> p \<noteq> Done a \<Longrightarrow> iexec p db a db'"
  by (cases p) (auto elim!: iexec_GetE iexec_PutE iexec_DelE iexec_TxnE intro: iexec.intros rtranclp_trans)

lemma pstep_iexec: "pstep p m = (p', m') \<Longrightarrow> iexec p' m' a db' \<Longrightarrow> iexec p m a db'"
  by (cases p) (auto split: prod.splits intro: iexec.intros)

lemma run2_iexec: "run2 bs p q db = (Done a, q', db') \<Longrightarrow> \<exists>m. iexec p db a m \<and> env_steps m db'"
proof (induction bs p q db rule: run2.induct)
  case (1 p q db)
  then show ?case by auto
next
  case (2 bs p q db)
  obtain p1 db1 where step: "pstep p db = (p1, db1)" by fastforce
  with 2(1) [OF step [symmetric] refl] 2(2) obtain m where "iexec p1 db1 a m" "env_steps m db'" by auto
  with pstep_iexec [OF step] show ?case by blast
next
  case (3 bs p q db)
  obtain q1 db1 where step: "pstep q db = (q1, db1)" by fastforce
  with 3(1) [OF step [symmetric] refl] 3(2) obtain m where m: "iexec p db1 a m" "env_steps m db'" by auto
  note env = pstep_env [OF step]
  show ?case
  proof (cases "p = Done a")
    case True
    with m env show ?thesis by (auto intro: rtranclp_trans)
  next
    case False
    with iexec_env_front [OF env m(1)] m(2) show ?thesis by blast
  qed
qed

section \<open>Decomposing a run\<close>

lemma iexec_Get_step:
  assumes "iexec (Get k o' c) db a db'"
  obtains m r where "env_steps db m" and "r = Inr (db_get k o' m) \<or> (\<exists>e. r = Inl e)" and "iexec (c r) m a db'"
  using assms by (elim iexec_GetE) auto

lemma iexec_Txn_step:
  assumes "iexec (Txn g ops c) db a db'"
  obtains m r m' where "env_steps db m" and "db_txn g ops m = (r, m') \<or> (\<exists>e. r = Inl e) \<and> env_steps m m'"
    and "iexec (c r) m' a db'"
  using assms db_writes_env_eq(6) [of _ _ g ops] by (elim iexec_TxnE) blast+

lemma db_txn_one:
  "db_txn g [w] m = (if db_cmp g m then (Inr True, db_apply [w] m) else (Inr False, m))"
  by (simp add: db_txn_def max_txn_ops_def)

text \<open>
  A call whose failure and whose empty answer end the program in an error, in a run that ends
  in a value: the read found the key, the transaction was carried out.
\<close>

lemma iexec_Get_ok:
  assumes "iexec (Get k Exact c) db (Inr v) db'"
    and "\<And>e. \<exists>err. c (Inl e) = Done (Inl err)" and "\<exists>err. c (Inr []) = Done (Inl err)"
  obtains m x where "env_steps db m" and "db_lookup m k = Some x" and "iexec (c (Inr [x])) m (Inr v) db'"
proof -
  from assms(1) obtain m r where m: "env_steps db m" and r: "r = Inr (db_get k Exact m) \<or> (\<exists>e. r = Inl e)"
    and c: "iexec (c r) m (Inr v) db'"
    by (rule iexec_Get_step)
  have "False" if "r = Inl e" for e using c that assms(2) [of e] by auto
  with r have "r = Inr (db_get k Exact m)" by blast
  with that [OF m] c assms(3) show ?thesis by (cases "db_lookup m k") auto
qed

lemma iexec_Get_prefix_ok:
  assumes "iexec (Get k o' c) db (Inr v) db'" and "\<And>e. \<exists>err. c (Inl e) = Done (Inl err)"
  obtains m where "env_steps db m" and "iexec (c (Inr (db_get k o' m))) m (Inr v) db'"
proof -
  from assms(1) obtain m r where m: "env_steps db m" and r: "r = Inr (db_get k o' m) \<or> (\<exists>e. r = Inl e)"
    and c: "iexec (c r) m (Inr v) db'"
    by (rule iexec_Get_step)
  have "False" if "r = Inl e" for e using c that assms(2) [of e] by auto
  with r have "r = Inr (db_get k o' m)" by blast
  with that [OF m] c show ?thesis by simp
qed

lemma iexec_Txn_ok:
  assumes "iexec (Txn g [w] c) db (Inr v) db'" and "\<And>e. \<exists>err. c (Inl e) = Done (Inl err)"
  obtains m where "env_steps db m" and "db_cmp g m" and "iexec (c (Inr True)) (db_apply [w] m) (Inr v) db'"
  | m where "env_steps db m" and "\<not> db_cmp g m" and "iexec (c (Inr False)) m (Inr v) db'"
proof -
  from assms(1) obtain m r m' where m: "env_steps db m"
    and r: "db_txn g [w] m = (r, m') \<or> (\<exists>e. r = Inl e) \<and> env_steps m m'"
    and c: "iexec (c r) m' (Inr v) db'"
    by (rule iexec_Txn_step)
  have "False" if "r = Inl e" for e using c that assms(2) [of e] by auto
  with r have "db_txn g [w] m = (r, m')" by blast
  with that [OF m] c show ?thesis by (auto simp: db_txn_one split: if_splits)
qed

lemma create_absent: "wf_db m \<Longrightarrow> db_cmp (CreateRevEq k 0) m \<longleftrightarrow> db_lookup m k = None"
  by (simp add: rev_of_create_0)

end
