(* ===== verification/DNS_Memory.thy ===== *)
theory DNS_Memory
  imports DNS_Store
begin

text \<open>
  The in-memory DNS backend: \<^verbatim>\<open>internal/store/dns/memory.go\<close>. Four maps under one mutex: an
  operation is one step of the state. The invariant ties the maps together; with it the backend
  refines the specification, and the one write that could panic in Go (into the set of records
  of a zone, a nil map if it is missing) never does.
\<close>

record dns_mem =
  dm_zones :: "string \<rightharpoonup> Zone"
  dm_zone_by_name :: "string \<rightharpoonup> string"
  dm_records :: "string \<rightharpoonup> Record"
  dm_records_by_z :: "string \<rightharpoonup> string set"

definition dns_mem_new :: dns_mem where
  "dns_mem_new = \<lparr>dm_zones = Map.empty, dm_zone_by_name = Map.empty, dm_records = Map.empty,
     dm_records_by_z = Map.empty\<rparr>"

definition zoneKey :: "string \<Rightarrow> string \<Rightarrow> string" where
  "zoneKey project name = project @ ''|'' @ name"

section \<open>Zones\<close>

text \<open>\<open>order\<close> is the order in which the runtime ranges over the map.\<close>

definition dns_mem_list_zones :: "string list \<Rightarrow> string \<Rightarrow> dns_mem \<Rightarrow> Zone list" where
  "dns_mem_list_zones order project s =
     sort_key (\<lambda>z. (sint (zone_created z), zone_name z))
       (filter (\<lambda>z. \<not> (project \<noteq> [] \<and> zone_project z \<noteq> project)) (range_vals order (dm_zones s)))"

definition dns_mem_create_zone :: "Zone \<Rightarrow> dns_mem \<Rightarrow> (store_err, Zone) result \<times> dns_mem" where
  "dns_mem_create_zone z s =
     (let key = zoneKey (zone_project z) (zone_name z) in
      case dm_zone_by_name s key of
        Some _ \<Rightarrow> (Inl ErrAlreadyExists, s)
      | None \<Rightarrow>
          (Inr z, s\<lparr>dm_zones := (dm_zones s)(zone_uuid z \<mapsto> z),
                    dm_zone_by_name := (dm_zone_by_name s)(key \<mapsto> zone_uuid z),
                    dm_records_by_z := (dm_records_by_z s)(zone_uuid z \<mapsto> {})\<rparr>))"

definition dns_mem_delete_zone :: "string \<Rightarrow> dns_mem \<Rightarrow> (store_err, unit) result \<times> dns_mem" where
  "dns_mem_delete_zone uuid s =
     (case dm_zones s uuid of
        None \<Rightarrow> (Inl ErrNotFound, s)
      | Some z \<Rightarrow>
          (let under = (case dm_records_by_z s uuid of None \<Rightarrow> {} | Some us \<Rightarrow> us) in
           (Inr (), s\<lparr>dm_records := (dm_records s) |` (- under),
                      dm_records_by_z := (dm_records_by_z s)(uuid := None),
                      dm_zones := (dm_zones s)(uuid := None),
                      dm_zone_by_name :=
                        (dm_zone_by_name s)(zoneKey (zone_project z) (zone_name z) := None)\<rparr>)))"

definition dns_mem_get_zone :: "string \<Rightarrow> dns_mem \<Rightarrow> (store_err, Zone) result \<times> dns_mem" where
  "dns_mem_get_zone uuid s =
     (case dm_zones s uuid of None \<Rightarrow> (Inl ErrNotFound, s) | Some z \<Rightarrow> (Inr z, s))"

section \<open>Records\<close>

definition dns_mem_list_records :: "string list \<Rightarrow> string \<Rightarrow> dns_mem \<Rightarrow> Record list" where
  "dns_mem_list_records order zone s =
     sort_key (\<lambda>r. (rec_zone_name r, rec_name r, rec_type r))
       (filter (\<lambda>r. \<not> (zone \<noteq> [] \<and> rec_zone r \<noteq> zone)) (range_vals order (dm_records s)))"

definition dns_mem_create_record :: "Record \<Rightarrow> dns_mem \<Rightarrow> (store_err, Record) result \<times> dns_mem" where
  "dns_mem_create_record r s =
     (case dm_zones s (rec_zone r) of
        None \<Rightarrow> (Inl ErrZoneNotFound, s)
      | Some z \<Rightarrow>
          (let r' = r\<lparr>rec_zone_name := zone_name z\<rparr>;
               s1 = s\<lparr>dm_records := (dm_records s)(rec_uuid r \<mapsto> r')\<rparr> in
           case dm_records_by_z s (rec_zone r) of
             None \<Rightarrow> (Inl (GoPanic ''assignment to entry in nil map''), s1)
           | Some us \<Rightarrow>
               (let us' = insert (rec_uuid r) us;
                    z' = z\<lparr>zone_records := of_nat (card us')\<rparr> in
                (Inr r', s1\<lparr>dm_records_by_z := (dm_records_by_z s)(rec_zone r \<mapsto> us'),
                            dm_zones := (dm_zones s)(rec_zone r \<mapsto> z')\<rparr>))))"

definition dns_mem_delete_record :: "string \<Rightarrow> dns_mem \<Rightarrow> (store_err, unit) result \<times> dns_mem" where
  "dns_mem_delete_record uuid s =
     (case dm_records s uuid of
        None \<Rightarrow> (Inl ErrNotFound, s)
      | Some r \<Rightarrow>
          (let s1 = s\<lparr>dm_records := (dm_records s)(uuid := None)\<rparr> in
           case dm_records_by_z s (rec_zone r) of
             None \<Rightarrow> (Inr (), s1)
           | Some us \<Rightarrow>
               (let us' = us - {uuid};
                    s2 = s1\<lparr>dm_records_by_z := (dm_records_by_z s)(rec_zone r \<mapsto> us')\<rparr> in
                case dm_zones s (rec_zone r) of
                  None \<Rightarrow> (Inr (), s2)
                | Some z \<Rightarrow>
                    (Inr (), s2\<lparr>dm_zones :=
                       (dm_zones s)(rec_zone r \<mapsto> z\<lparr>zone_records := of_nat (card us')\<rparr>)\<rparr>))))"

definition dns_mem_get_record :: "string \<Rightarrow> dns_mem \<Rightarrow> (store_err, Record) result \<times> dns_mem" where
  "dns_mem_get_record uuid s =
     (case dm_records s uuid of None \<Rightarrow> (Inl ErrNotFound, s) | Some r \<Rightarrow> (Inr r, s))"

definition dns_memory :: "dns_mem dns_backend" where
  "dns_memory =
     \<lparr>op_create_zone = dns_mem_create_zone, op_delete_zone = dns_mem_delete_zone,
      op_get_zone = dns_mem_get_zone, op_create_record = dns_mem_create_record,
      op_delete_record = dns_mem_delete_record, op_get_record = dns_mem_get_record\<rparr>"

section \<open>The invariant\<close>

abbreviation zone_bar_key :: "Zone \<Rightarrow> string" where
  "zone_bar_key z \<equiv> zoneKey (zone_project z) (zone_name z)"

definition dns_mem_rows :: "dns_mem \<Rightarrow> dns_rows" where
  "dns_mem_rows s = (dm_zones s, dm_records s)"

definition dns_mem_inv :: "dns_mem \<Rightarrow> bool" where
  "dns_mem_inv s \<longleftrightarrow>
     dns_ok zone_bar_key (dm_zones s, dm_records s) \<and>
     index_inv zone_uuid zone_bar_key (dm_zones s) (dm_zone_by_name s) \<and>
     (\<forall>u. dm_records_by_z s u =
        (case dm_zones s u of None \<Rightarrow> None | Some _ \<Rightarrow> Some (recs_in (dm_records s) u)))"

lemma dns_mem_new_inv [simp]: "dns_mem_inv dns_mem_new"
  by (simp add: dns_mem_inv_def dns_mem_new_def)

lemma dns_mem_invD:
  assumes "dns_mem_inv s"
  shows "dns_ok zone_bar_key (dm_zones s, dm_records s)"
    "index_inv zone_uuid zone_bar_key (dm_zones s) (dm_zone_by_name s)"
    "dm_zones s u = Some z \<Longrightarrow> dm_records_by_z s u = Some (recs_in (dm_records s) u)"
    "dm_zones s u = None \<Longrightarrow> dm_records_by_z s u = None"
  using assms by (auto simp: dns_mem_inv_def)

lemma dns_mem_create_zone_sim:
  assumes inv: "dns_mem_inv s" and new: "dm_zones s (zone_uuid z) = None" "zone_records z = 0"
    and step: "dns_mem_create_zone z s = (r, s')"
  shows "dns_spec_create_zone zone_bar_key z (dns_mem_rows s) = (r, dns_mem_rows s') \<and> dns_mem_inv s'"
proof (cases "dm_zone_by_name s (zone_bar_key z)")
  case (Some u)
  with index_lookup [OF dns_mem_invD(2) [OF inv], of z] inv step show ?thesis
    by (auto simp: dns_mem_create_zone_def dns_mem_rows_def dns_spec_create_zone_def Let_def)
next
  case None
  note idx = dns_mem_invD(2) [OF inv]
  have free: "\<not> (\<exists>x \<in> ran (dm_zones s). zone_bar_key x = zone_bar_key z)"
    using index_lookup [OF idx, of z] None by blast
  have none: "recs_in (dm_records s) (zone_uuid z) = {}"
    using new dns_okD(5) [OF dns_mem_invD(1) [OF inv]] by (fastforce simp: recs_in_def)
  from None step have s': "r = Inr z" "dm_zones s' = (dm_zones s)(zone_uuid z \<mapsto> z)"
    "dm_zone_by_name s' = (dm_zone_by_name s)(zone_bar_key z \<mapsto> zone_uuid z)"
    "dm_records s' = dm_records s" "dm_records_by_z s' = (dm_records_by_z s)(zone_uuid z \<mapsto> {})"
    by (auto simp: dns_mem_create_zone_def Let_def)
  have spec: "dns_spec_create_zone zone_bar_key z (dm_zones s, dm_records s) =
    (Inr z, ((dm_zones s)(zone_uuid z \<mapsto> z), dm_records s))"
    using free by (simp add: dns_spec_create_zone_def)
  then have "dns_ok zone_bar_key ((dm_zones s)(zone_uuid z \<mapsto> z), dm_records s)"
    using dns_ok_create_zone [OF dns_mem_invD(1) [OF inv] new] by simp
  with spec s' index_create [OF idx new(1) None] none inv show ?thesis
    by (auto simp: dns_mem_rows_def dns_mem_inv_def split: option.splits)
qed

lemma dns_mem_delete_zone_sim:
  assumes inv: "dns_mem_inv s" and step: "dns_mem_delete_zone u s = (r, s')"
  shows "dns_spec_delete_zone u (dns_mem_rows s) = (r, dns_mem_rows s') \<and> dns_mem_inv s'"
proof (cases "dm_zones s u")
  case None
  with inv step show ?thesis
    by (auto simp: dns_mem_delete_zone_def dns_spec_delete_zone_def dns_mem_rows_def)
next
  case (Some z)
  let ?R = "(dm_records s) |` (- recs_in (dm_records s) u)"
  have spec: "dns_spec_delete_zone u (dm_zones s, dm_records s) = (Inr (), ((dm_zones s)(u := None), ?R))"
    using Some by (simp add: dns_spec_delete_zone_def)
  then have ok: "dns_ok zone_bar_key ((dm_zones s)(u := None), ?R)"
    using dns_ok_delete_zone [OF dns_mem_invD(1) [OF inv], of u] by simp
  from Some step dns_mem_invD(3) [OF inv Some] have "r = Inr ()" "dm_zones s' = (dm_zones s)(u := None)"
    "dm_zone_by_name s' = (dm_zone_by_name s)(zone_bar_key z := None)" "dm_records s' = ?R"
    "dm_records_by_z s' = (dm_records_by_z s)(u := None)"
    by (auto simp: dns_mem_delete_zone_def Let_def)
  with spec ok index_delete [OF dns_mem_invD(2) [OF inv] Some] inv show ?thesis
    by (auto simp: dns_mem_rows_def dns_mem_inv_def recs_in_restrict split: option.splits)
qed

lemma dns_mem_create_record_sim:
  assumes inv: "dns_mem_inv s" and new: "dm_records s (rec_uuid q) = None"
    and step: "dns_mem_create_record q s = (r, s')"
  shows "dns_spec_create_record q (dns_mem_rows s) = (r, dns_mem_rows s') \<and> dns_mem_inv s'"
proof (cases "dm_zones s (rec_zone q)")
  case None
  with inv step show ?thesis
    by (auto simp: dns_mem_create_record_def dns_spec_create_record_def dns_mem_rows_def)
next
  case (Some z)
  let ?q = "q\<lparr>rec_zone_name := zone_name z\<rparr>"
  let ?R = "(dm_records s)(rec_uuid q \<mapsto> ?q)"
  let ?z = "z\<lparr>zone_records := of_nat (card (recs_in ?R (rec_zone q)))\<rparr>"
  have recs: "recs_in ?R w = (if w = rec_zone q then insert (rec_uuid q) (recs_in (dm_records s) w) else recs_in (dm_records s) w)" for w
    using new by (auto simp: recs_in_upd)
  have spec: "dns_spec_create_record q (dm_zones s, dm_records s) = (Inr ?q, ((dm_zones s)(rec_zone q \<mapsto> ?z), ?R))"
    using Some by (simp add: dns_spec_create_record_def Let_def)
  then have ok: "dns_ok zone_bar_key ((dm_zones s)(rec_zone q \<mapsto> ?z), ?R)"
    using dns_ok_create_record [OF dns_mem_invD(1) [OF inv] new] by simp
  have idx: "index_inv zone_uuid zone_bar_key ((dm_zones s)(rec_zone q \<mapsto> ?z)) (dm_zone_by_name s)"
    using dns_mem_invD(2) [OF inv] Some by (rule index_update) simp_all
  from Some step dns_mem_invD(3) [OF inv Some] have "r = Inr ?q" "dm_zones s' = (dm_zones s)(rec_zone q \<mapsto> ?z)"
    "dm_zone_by_name s' = dm_zone_by_name s" "dm_records s' = ?R"
    "dm_records_by_z s' = (dm_records_by_z s)(rec_zone q \<mapsto> recs_in ?R (rec_zone q))"
    by (auto simp: dns_mem_create_record_def Let_def recs)
  with spec ok idx inv Some show ?thesis
    by (auto simp: dns_mem_rows_def dns_mem_inv_def recs split: option.splits)
qed

lemma dns_mem_delete_record_sim:
  assumes inv: "dns_mem_inv s" and step: "dns_mem_delete_record u s = (r, s')"
  shows "dns_spec_delete_record u (dns_mem_rows s) = (r, dns_mem_rows s') \<and> dns_mem_inv s'"
proof (cases "dm_records s u")
  case None
  with inv step show ?thesis
    by (auto simp: dns_mem_delete_record_def dns_spec_delete_record_def dns_mem_rows_def)
next
  case (Some q)
  obtain z where z: "dm_zones s (rec_zone q) = Some z"
    using dns_okD(5) [OF dns_mem_invD(1) [OF inv] Some] by auto
  let ?R = "(dm_records s)(u := None)"
  let ?z = "z\<lparr>zone_records := of_nat (card (recs_in ?R (rec_zone q)))\<rparr>"
  have other: "recs_in ?R w = recs_in (dm_records s) w" if "w \<noteq> rec_zone q" for w
    using that Some by (auto simp: recs_in_def split: if_splits)
  have spec: "dns_spec_delete_record u (dm_zones s, dm_records s) = (Inr (), ((dm_zones s)(rec_zone q \<mapsto> ?z), ?R))"
    using Some z by (simp add: dns_spec_delete_record_def Let_def)
  then have ok: "dns_ok zone_bar_key ((dm_zones s)(rec_zone q \<mapsto> ?z), ?R)"
    using dns_ok_delete_record [OF dns_mem_invD(1) [OF inv], of u] by simp
  have idx: "index_inv zone_uuid zone_bar_key ((dm_zones s)(rec_zone q \<mapsto> ?z)) (dm_zone_by_name s)"
    using dns_mem_invD(2) [OF inv] z by (rule index_update) simp_all
  from Some z step dns_mem_invD(3) [OF inv z] have "r = Inr ()" "dm_zones s' = (dm_zones s)(rec_zone q \<mapsto> ?z)"
    "dm_zone_by_name s' = dm_zone_by_name s" "dm_records s' = ?R"
    "dm_records_by_z s' = (dm_records_by_z s)(rec_zone q \<mapsto> recs_in ?R (rec_zone q))"
    by (auto simp: dns_mem_delete_record_def Let_def recs_in_del)
  with spec ok idx inv z other show ?thesis
    by (auto simp: dns_mem_rows_def dns_mem_inv_def split: option.splits)
qed

interpretation dns_mem: dns_store dns_mem_rows dns_mem_inv dns_memory "\<lambda>_. True" zone_bar_key
proof (unfold_locales, goal_cases)
  case (1 s)
  then show ?case by (simp add: dns_mem_rows_def dns_mem_inv_def)
next
  case (2 s c r s')
  show ?case
  proof (cases c)
    case (CreateZone z)
    with 2 dns_mem_create_zone_sim [of s z] show ?thesis
      by (cases "dns_mem_create_zone z s")
         (auto simp: dns_dispatch_def dns_spec_call_def dns_memory_def dns_admits_def dns_mem_rows_def)
  next
    case (DeleteZone u)
    with 2 dns_mem_delete_zone_sim [of s u] show ?thesis
      by (cases "dns_mem_delete_zone u s")
         (auto simp: dns_dispatch_def dns_spec_call_def dns_memory_def)
  next
    case (CreateRecord q)
    with 2 dns_mem_create_record_sim [of s q] show ?thesis
      by (cases "dns_mem_create_record q s")
         (auto simp: dns_dispatch_def dns_spec_call_def dns_memory_def dns_admits_def dns_mem_rows_def)
  next
    case (DeleteRecord u)
    with 2 dns_mem_delete_record_sim [of s u] show ?thesis
      by (cases "dns_mem_delete_record u s")
         (auto simp: dns_dispatch_def dns_spec_call_def dns_memory_def)
  qed (use 2 in \<open>auto simp: dns_dispatch_def dns_spec_call_def dns_memory_def spec_get_def
        dns_mem_rows_def dns_mem_get_zone_def dns_mem_get_record_def split: option.splits\<close>)
qed

end
