(* ===== verification/Store_Properties.thy ===== *)
theory Store_Properties
  imports Etcd_Races DNS_Memory
begin

text \<open>
  The properties of the stores on their own: the two backends of a store are interchangeable, the
  referential integrity of zones and records, and the listings.
\<close>

section \<open>Shared lemmas\<close>

lemma projectNameKey_eq: "projectNameKey = project_key"
  by (intro ext) (simp add: projectNameKey_def project_key_def)

lemma router_name_key_eq: "router_name_key = project_key"
  by (intro ext) (simp add: router_name_key_def project_key_def)

lemma lb_name_key_eq: "lb_name_key = project_key"
  by (intro ext) (simp add: lb_name_key_def project_key_def)

lemma zoneKey_eq: "zoneKey = project_key"
  by (intro ext) (simp add: zoneKey_def project_key_def)

text \<open>A project name without the separator makes the two key functions equivalent.\<close>

definition plain :: "string \<Rightarrow> bool" where
  "plain project \<longleftrightarrow> CHR ''|'' \<notin> set project"

lemma project_key_plain:
  "plain p \<Longrightarrow> plain q \<Longrightarrow> project_key p m = project_key q n \<longleftrightarrow> (p, m) = (q, n)"
  using project_key_inj [of p q m n] by (auto simp: plain_def)

text \<open>
  Two row stores for the same rows, one with the joined key of the memory backends and one with
  the pair of the etcd backends, answer alike when no project contains the separator.
\<close>

lemma backends_equiv:
  assumes mem: "row_store rows1 good1 create1 delete1 fetch1 uid (\<lambda>v. project_key (prj v) (nam v))"
    and etcd: "row_store rows2 good2 create2 delete2 fetch2 uid (\<lambda>v. (prj v, nam v))"
    and good: "good1 m" "good2 s" "rows1 m = rows2 s"
    and fresh: "fresh_calls uid (\<lambda>v. (prj v, nam v)) cs (rows2 s)"
    and plain: "\<forall>v \<in> ran (rows2 s). plain (prj v)" "\<forall>v. Create v \<in> set cs \<longrightarrow> plain (prj v)"
    and runs: "run_calls (dispatch create1 delete1 fetch1) cs m = (rs, m')"
      "run_calls (dispatch create2 delete2 fetch2) cs s = (rs', s')"
  shows "rs = rs' \<and> rows1 m' = rows2 s'"
proof -
  have "run_calls (spec_call uid (\<lambda>v. project_key (prj v) (nam v))) cs (rows2 s) =
      run_calls (spec_call uid (\<lambda>v. (prj v, nam v))) cs (rows2 s) \<and>
    fresh_calls uid (\<lambda>v. project_key (prj v) (nam v)) cs (rows2 s) = fresh_calls uid (\<lambda>v. (prj v, nam v)) cs (rows2 s)"
    using plain project_key_plain by (intro spec_calls_pkey [where P = "\<lambda>v. plain (prj v)"]) auto
  with row_store.calls_sim [OF mem good(1) _ runs(1)] row_store.calls_sim [OF etcd good(2) fresh runs(2)] good(3) fresh
  show ?thesis by simp
qed

lemma table_exclusive: "etcd_exclusive kv_client (\<lambda>db. db) wf_db"
  by (rule table.etcd_exclusive_axioms)

section \<open>Interchangeable backends\<close>

text \<open>
  C10. The in-memory store of scheduling rules and the etcd store are interchangeable: started
  from the same rows, on every etcd service with no other client and no failure, they answer
  every sequence of Create, Delete and Get alike and end with the same rows, as long as new
  rules have new uuids and no project name contains the separator of the memory index.
\<close>

theorem sched_backends_agree:
  assumes "etcd_exclusive cl view ok" and "ok s" and "sched_db_inv (view s)"
    and "sched_mem_inv m" and "sm_by_uuid m = rule_rows (view s)"
    and "fresh_calls rule_uuid rule_pair cs (rule_rows (view s))"
    and "\<forall>r \<in> ran (rule_rows (view s)). plain (rule_project r)"
    and "\<forall>r. Create r \<in> set cs \<longrightarrow> plain (rule_project r)"
    and "run_calls (dispatch sched_mem_create sched_mem_delete sched_mem_get) cs m = (rs, m')"
    and "run_calls (dispatch (\<lambda>r. exec cl (sched_etcd_create r)) (\<lambda>u. exec cl (sched_etcd_delete u))
           (\<lambda>u. exec cl (sched_etcd_get u))) cs s = (rs', s')"
  shows "rs = rs' \<and> sm_by_uuid m' = rule_rows (view s')"
  by (rule backends_equiv [OF sched_mem.row_store_axioms [unfolded projectNameKey_eq]
        etcd_exclusive.sched_row_store [OF assms(1)] assms(4) _ assms(5-10)])
     (simp add: assms(2,3))

definition rule_example :: "string \<Rightarrow> string \<Rightarrow> Rule" where
  "rule_example u n = rule_zero\<lparr>rule_uuid := u, rule_name := n, rule_project := ''acme''\<rparr>"

definition sched_example :: "Rule store_call list" where
  "sched_example = [Create (rule_example ''r1'' ''web''), Create (rule_example ''r2'' ''web''),
     Delete ''r1'', Fetch ''r1'']"

theorem sched_backends_agree_witness:
  "fst (run_calls (dispatch sched_mem_create sched_mem_delete sched_mem_get) sched_example sched_mem_new) =
   fst (run_calls (dispatch (\<lambda>r. exec kv_client (sched_etcd_create r)) (\<lambda>u. exec kv_client (sched_etcd_delete u))
           (\<lambda>u. exec kv_client (sched_etcd_get u))) sched_example db_empty)"
  using sched_backends_agree [OF table_exclusive, of db_empty sched_mem_new sched_example, OF _ _ _ _ _ _ _
      prod.collapse [symmetric] prod.collapse [symmetric]]
  by (simp add: sched_mem_new_def [THEN arg_cong [of _ _ sm_by_uuid]] sched_example_def rule_example_def
      rule_zero_def plain_def spec_create_def spec_delete_def del: run_calls.simps)

text \<open>
  The router store too is interchangeable: in the same conditions Create, Delete and Get on memory and on etcd agree.
\<close>

theorem router_backends_agree:
  assumes "etcd_exclusive cl view ok" and "ok s" and "router_db_inv (view s)"
    and "router_mem_inv m" and "rm_by_uuid m = router_rows (view s)"
    and "fresh_calls router_uuid router_pair cs (router_rows (view s))"
    and "\<forall>r \<in> ran (router_rows (view s)). plain (router_project r)"
    and "\<forall>r. Create r \<in> set cs \<longrightarrow> plain (router_project r)"
    and "run_calls (dispatch router_mem_create router_mem_delete router_mem_get) cs m = (rs, m')"
    and "run_calls (dispatch (\<lambda>r. exec cl (router_etcd_create r)) (\<lambda>u. exec cl (router_etcd_delete u))
           (\<lambda>u. exec cl (router_etcd_get u))) cs s = (rs', s')"
  shows "rs = rs' \<and> rm_by_uuid m' = router_rows (view s')"
  by (rule backends_equiv [OF router_mem.row_store_axioms [unfolded router_name_key_eq]
        etcd_exclusive.routers_row_store [OF assms(1)] assms(4) _ assms(5-10)])
     (simp add: assms(2,3))

definition router_calls_example :: "Router store_call list" where
  "router_calls_example = [Create (router_zero\<lparr>router_uuid := ''u1'', router_name := ''edge''\<rparr>),
     Create (router_zero\<lparr>router_uuid := ''u2'', router_name := ''edge''\<rparr>), Fetch ''u1'', Delete ''u1'']"

theorem router_backends_agree_witness:
  "fst (run_calls (dispatch router_mem_create router_mem_delete router_mem_get) router_calls_example router_mem_new) =
   fst (run_calls (dispatch (\<lambda>r. exec kv_client (router_etcd_create r)) (\<lambda>u. exec kv_client (router_etcd_delete u))
           (\<lambda>u. exec kv_client (router_etcd_get u))) router_calls_example db_empty)"
  using router_backends_agree [OF table_exclusive, of db_empty router_mem_new router_calls_example, OF _ _ _ _ _ _ _
      prod.collapse [symmetric] prod.collapse [symmetric]]
  by (simp add: router_mem_new_def [THEN arg_cong [of _ _ rm_by_uuid]] router_calls_example_def
      router_zero_def plain_def spec_create_def spec_delete_def del: run_calls.simps)

section \<open>Zones and records\<close>

lemma dns_spec_pkey:
  assumes P: "\<And>v w. P v \<Longrightarrow> P w \<Longrightarrow> pk1 v = pk1 w \<longleftrightarrow> pk2 v = pk2 w"
    and cnt: "\<And>z n. P z \<Longrightarrow> P (z\<lparr>zone_records := n\<rparr>)"
    and "\<forall>z \<in> ran (fst m). P z" and "\<forall>z. CreateZone z \<in> set cs \<longrightarrow> P z"
  shows "run_calls (dns_spec_call pk1) cs m = run_calls (dns_spec_call pk2) cs m \<and>
    dns_admits_all fits pk1 cs m = dns_admits_all fits pk2 cs m"
  using assms(3,4)
proof (induction cs arbitrary: m)
  case (Cons c cs)
  obtain Z R where m: "m = (Z, R)" by fastforce
  have same: "dns_spec_call pk1 c m = dns_spec_call pk2 c m"
    using Cons.prems P m by (cases c) (auto simp: dns_spec_call_def dns_spec_create_zone_def)
  have "\<forall>z \<in> ran (fst (snd (dns_spec_call pk2 c m))). P z"
    using Cons.prems cnt m
    by (cases c) (auto simp: dns_spec_call_def dns_spec_create_zone_def dns_spec_delete_zone_def
        dns_spec_create_record_def dns_spec_delete_record_def ran_def Let_def split: option.splits if_splits)
  with Cons.IH Cons.prems(2) same show ?case by (auto simp: Let_def split: prod.splits)
qed simp

lemma dns_admits_more: "(\<And>n. fits n \<Longrightarrow> fits' n) \<Longrightarrow> dns_admits_all fits pk cs m \<Longrightarrow> dns_admits_all fits' pk cs m"
  by (induction cs arbitrary: m) (auto simp: dns_admits_def split: prod.splits dns_call.splits)

lemma dns_spec_no_panic:
  "run_calls (dns_spec_call pk) cs m = (rs, m') \<Longrightarrow> RecordReply (Inl (GoPanic e)) \<notin> set rs"
proof (induction cs arbitrary: m rs)
  case (Cons c cs)
  obtain Z R where m: "m = (Z, R)" by fastforce
  have "fst (dns_spec_call pk c m) \<noteq> RecordReply (Inl (GoPanic e))"
    using m by (cases c) (auto simp: dns_spec_call_def dns_spec_create_record_def spec_get_def Let_def split: option.splits)
  with Cons show ?case by (auto simp: Let_def split: prod.splits)
qed simp


definition zone_example :: "string \<Rightarrow> Zone" where
  "zone_example u = zone_zero\<lparr>zone_uuid := u, zone_name := u @ ''.org'', zone_project := ''acme''\<rparr>"

definition rec_example :: "string \<Rightarrow> string \<Rightarrow> Record" where
  "rec_example u z = rec_zero\<lparr>rec_uuid := u, rec_zone := z, rec_name := ''www''\<rparr>"

definition dns_example :: "dns_call list" where
  "dns_example = [CreateZone (zone_example ''z1''), CreateRecord (rec_example ''a'' ''z1''),
     CreateRecord (rec_example ''b'' ''z1''), DeleteRecord ''a'', GetZone ''z1'', DeleteZone ''z1'', GetRecord ''b'']"

lemma dns_example_admits: "dns_admits_all (\<lambda>n. n < max_txn_ops) zone_pair dns_example (Map.empty, Map.empty)"
  by (simp add: dns_example_def dns_admits_def dns_spec_call_def dns_spec_create_zone_def
      dns_spec_create_record_def dns_spec_delete_record_def zone_example_def rec_example_def zone_zero_def rec_zero_def
      dns_spec_delete_zone_def recs_in_upd recs_in_del max_txn_ops_def Let_def)

lemma dns_example_plain: "CreateZone z \<in> set dns_example \<Longrightarrow> plain (zone_project z)"
  by (auto simp: dns_example_def zone_example_def zone_zero_def plain_def)

lemma dns_empty_rows [simp]: "dns_rows_of db_empty = (Map.empty, Map.empty)" "dns_mem_rows dns_mem_new = (Map.empty, Map.empty)"
  by (simp_all add: dns_rows_of_def dns_mem_rows_def dns_mem_new_def)


definition dns_table_example :: kvdb where
  "dns_table_example = snd (run_calls (dns_dispatch (dns_etcd kv_client)) (take 3 dns_example) db_empty)"

lemma dns_table_example_run:
  "dns_db_inv dns_table_example \<and> dns_rows_of dns_table_example =
     snd (run_calls (dns_spec_call zone_pair) (take 3 dns_example) (Map.empty, Map.empty))"
proof -
  have "dns_admits_all (\<lambda>n. n < max_txn_ops) zone_pair (take 3 dns_example) (Map.empty, Map.empty)"
    using dns_example_admits by (simp add: dns_example_def)
  then show ?thesis
    unfolding dns_table_example_def
    using dns_etcd_kv.dns_calls_sim [of db_empty "take 3 dns_example", OF _ _ prod.collapse [symmetric]] by simp
qed

lemma dns_table_example_rows:
  "dns_db_inv dns_table_example" "zone_rows dns_table_example ''z1'' \<noteq> None"
  "card (recs_in (rec_rows dns_table_example) ''z1'') = 2" "rec_rows dns_table_example ''c'' = None"
  using dns_table_example_run
  by (simp_all add: dns_rows_of_def dns_example_def dns_spec_call_def dns_spec_create_zone_def
      dns_spec_create_record_def zone_example_def rec_example_def zone_zero_def rec_zero_def recs_in_upd Let_def)

text \<open>
  C13. Referential integrity on etcd. After any sequence of calls that the contract admits,
  started from an empty table, every record belongs to a zone that exists and carries that
  zone's name, and every zone's counter is the number of its records.
\<close>

theorem dns_etcd_integrity:
  assumes "etcd_exclusive cl view ok" and "ok s" and "view s = db_empty"
    and "dns_admits_all (\<lambda>n. n < max_txn_ops) zone_pair cs (Map.empty, Map.empty)"
    and "run_calls (dns_dispatch (dns_etcd cl)) cs s = (rs, s')"
  shows "(\<forall>u r. rec_rows (view s') u = Some r \<longrightarrow>
      (\<exists>z. zone_rows (view s') (rec_zone r) = Some z \<and> rec_zone_name r = zone_name z)) \<and>
    (\<forall>u z. zone_rows (view s') u = Some z \<longrightarrow>
      zone_records z = of_nat (card (recs_in (rec_rows (view s')) u)))"
  using dns_store.integrity [OF etcd_exclusive.dns_on_service [OF assms(1)] _ _ assms(5)] assms(2-4)
  by (auto simp: dns_rows_of_def)

theorem dns_etcd_integrity_witness:
  "\<exists>z. zone_rows dns_table_example ''z1'' = Some z \<and>
     zone_records z = of_nat (card (recs_in (rec_rows dns_table_example) ''z1''))"
proof -
  obtain z where z: "zone_rows dns_table_example ''z1'' = Some z" using dns_table_example_rows(2) by auto
  have "dns_admits_all (\<lambda>n. n < max_txn_ops) zone_pair (take 3 dns_example) (Map.empty, Map.empty)"
    using dns_example_admits by (simp add: dns_example_def)
  from dns_etcd_integrity [OF table_exclusive _ refl this prod.collapse [symmetric]] z
  show ?thesis unfolding dns_table_example_def by simp
qed

text \<open>
  The in-memory DNS store after any sequence of calls on a new store: no record without its
  zone, every counter exact, the map of record sets has exactly the zones as keys, and no call
  panics (the write into the record set of a zone never meets a nil map).
\<close>

theorem dns_memory_integrity:
  assumes "dns_admits_all (\<lambda>_. True) zone_bar_key cs (Map.empty, Map.empty)"
    and "run_calls (dns_dispatch dns_memory) cs dns_mem_new = (rs, m)"
  shows "(\<forall>u r. dm_records m u = Some r \<longrightarrow>
      (\<exists>z. dm_zones m (rec_zone r) = Some z \<and> rec_zone_name r = zone_name z)) \<and>
    (\<forall>u z. dm_zones m u = Some z \<longrightarrow> zone_records z = of_nat (card (recs_in (dm_records m) u))) \<and>
    dom (dm_records_by_z m) = dom (dm_zones m) \<and>
    (\<forall>e. RecordReply (Inl (GoPanic e)) \<notin> set rs)"
proof -
  have sim: "run_calls (dns_spec_call zone_bar_key) cs (Map.empty, Map.empty) = (rs, dns_mem_rows m) \<and> dns_mem_inv m"
    using dns_mem.dns_calls_sim [OF dns_mem_new_inv _ assms(2)] assms(1) by simp
  then have inv: "dns_mem_inv m" and panic: "\<forall>e. RecordReply (Inl (GoPanic e)) \<notin> set rs"
    using dns_spec_no_panic by blast+
  have "u \<in> dom (dm_records_by_z m) \<longleftrightarrow> u \<in> dom (dm_zones m)" for u
    using dns_mem_invD(3,4) [OF inv, of u] by (cases "dm_zones m u") auto
  then show ?thesis
    using panic dns_okD(5,6) [OF dns_mem_invD(1) [OF inv]] by blast
qed

lemma dns_example_admits_mem: "dns_admits_all (\<lambda>_. True) zone_bar_key dns_example (Map.empty, Map.empty)"
  by (simp add: dns_example_def dns_admits_def dns_spec_call_def dns_spec_create_zone_def
      dns_spec_create_record_def dns_spec_delete_record_def zone_example_def rec_example_def zone_zero_def rec_zero_def
      dns_spec_delete_zone_def recs_in_upd recs_in_del Let_def)

theorem dns_memory_integrity_witness:
  "dom (dm_records_by_z (snd (run_calls (dns_dispatch dns_memory) dns_example dns_mem_new))) =
   dom (dm_zones (snd (run_calls (dns_dispatch dns_memory) dns_example dns_mem_new)))"
  using dns_memory_integrity [OF dns_example_admits_mem prod.collapse [symmetric]] by blast

text \<open>
  C30. Deleting a zone on etcd deletes exactly the zone and its records, in one transaction:
  everything else in the two tables stays. Hypotheses: no other client, and the zone exists
  and has fewer than 128 records.
\<close>

theorem dns_delete_zone_cascades:
  assumes "etcd_exclusive cl view ok" and "ok s" and "dns_db_inv (view s)"
    and "zone_rows (view s) u = Some z" and "card (recs_in (rec_rows (view s)) u) < max_txn_ops"
  shows "\<exists>s'. exec cl (dns_etcd_delete_zone u) s = (Inr (), s') \<and> ok s' \<and>
    zone_rows (view s') = (zone_rows (view s))(u := None) \<and>
    rec_rows (view s') = rec_rows (view s) |` (- recs_in (rec_rows (view s)) u)"
proof -
  let ?db' = "db_apply (map OpDelete ((etcdZonePrefix @ u) #
    cascade_keys u (db_get etcdRecordPrefix Prefix (view s)))) (view s)"
  have "exec kv_client (dns_etcd_delete_zone u) (view s) = (Inr (), ?db')"
    unfolding dns_etcd_delete_zone_run [OF assms(3)] using assms(4,5) by simp
  from etcd_exclusive.exec_view [OF assms(1,2) this]
  obtain s' where "exec cl (dns_etcd_delete_zone u) s = (Inr (), s')" "view s' = ?db'" "ok s'" by blast
  then show ?thesis using dns_tables_dels [OF assms(3), of u] by auto
qed

theorem dns_delete_zone_cascades_witness:
  "\<exists>db'. exec kv_client (dns_etcd_delete_zone ''z1'') dns_table_example = (Inr (), db') \<and>
     rec_rows db' = rec_rows dns_table_example |` (- recs_in (rec_rows dns_table_example) ''z1'')"
proof -
  obtain z where "zone_rows dns_table_example ''z1'' = Some z" using dns_table_example_rows(2) by auto
  from dns_delete_zone_cascades [OF table_exclusive _ dns_table_example_rows(1) this] dns_table_example_rows
  show ?thesis by (auto simp: dns_db_inv_def dns_tables_ok_def max_txn_ops_def)
qed

text \<open>
  C39. A zone with 128 records or more cannot be deleted on etcd: the one transaction of the
  cascade exceeds the server's limit on operations, the call fails, and nothing is deleted.
\<close>

theorem dns_delete_big_zone_fails:
  assumes "etcd_exclusive cl view ok" and "ok s" and "dns_db_inv (view s)"
    and "max_txn_ops \<le> card (recs_in (rec_rows (view s)) u)"
  shows "\<exists>e s'. exec cl (dns_etcd_delete_zone u) s = (Inl (ErrWrap ''etcd cascade delete zone'' e), s') \<and>
    view s' = view s"
proof -
  have "exec kv_client (dns_etcd_delete_zone u) (view s) = (Inl (ErrWrap ''etcd cascade delete zone''
      ''etcdserver: too many operations in txn request''), view s)"
    unfolding dns_etcd_delete_zone_run [OF assms(3)] using assms(4) by simp
  from etcd_exclusive.exec_view [OF assms(1,2) this] show ?thesis by blast
qed

lemma snd_run_calls_Cons: "snd (run_calls f (c # cs) s) = snd (run_calls f cs (snd (f c s)))"
  by (simp add: split_beta Let_def)

lemma run_calls_snoc:
  "snd (run_calls f (cs @ [c]) s) = snd (f c (snd (run_calls f cs s)))"
  by (induction cs arbitrary: s) (simp_all add: snd_run_calls_Cons del: run_calls.simps(2))

lemma dns_admits_snoc:
  "dns_admits_all fits pk (cs @ [c]) m \<longleftrightarrow>
   dns_admits_all fits pk cs m \<and> dns_admits fits c (snd (run_calls (dns_spec_call pk) cs m))"
  by (induction cs arbitrary: m) (auto simp: snd_run_calls_Cons simp del: run_calls.simps(2))

primrec big_zone :: "nat \<Rightarrow> dns_call list" where
  "big_zone 0 = [CreateZone (zone_example ''z1'')]"
| "big_zone (Suc n) = big_zone n @ [CreateRecord (rec_example (replicate n (CHR ''r'')) ''z1'')]"

lemma big_zone_run:
  defines "m \<equiv> \<lambda>n. snd (run_calls (dns_spec_call zone_pair) (big_zone n) (Map.empty, Map.empty))"
  shows "dns_admits_all (\<lambda>n. n < max_txn_ops) zone_pair (big_zone n) (Map.empty, Map.empty) \<and>
    fst (m n) ''z1'' \<noteq> None \<and> recs_in (snd (m n)) ''z1'' = (\<lambda>i. replicate i (CHR ''r'')) ` {0..<n} \<and>
    dom (snd (m n)) = (\<lambda>i. replicate i (CHR ''r'')) ` {0..<n}"
proof (induction n)
  case 0
  then show ?case
    by (simp add: m_def dns_admits_def dns_spec_call_def dns_spec_create_zone_def zone_example_def zone_zero_def)
next
  case (Suc n)
  obtain Z R where m: "m n = (Z, R)" by fastforce
  let ?u = "replicate n (CHR ''r'')"
  have "?u \<notin> dom R" using Suc m by auto
  then have new: "R ?u = None" by blast
  obtain z where z: "Z ''z1'' = Some z" using Suc m by auto
  let ?q = "(rec_example ?u ''z1'')\<lparr>rec_zone_name := zone_name z\<rparr>"
  have "m (Suc n) = snd (dns_spec_create_record (rec_example ?u ''z1'') (Z, R))"
    using m by (simp add: m_def run_calls_snoc dns_spec_call_def)
  then have step: "snd (m (Suc n)) = R(?u \<mapsto> ?q)" "fst (m (Suc n)) ''z1'' \<noteq> None"
    using z by (simp_all add: dns_spec_create_record_def rec_example_def rec_zero_def Let_def)
  have "rec_zone ?q = ''z1''" by (simp add: rec_example_def)
  then have recs: "recs_in (R(?u \<mapsto> ?q)) ''z1'' = insert ?u (recs_in R ''z1'')" by (simp add: recs_in_upd new)
  have dom: "dom (R(?u \<mapsto> ?q)) = insert ?u (dom R)" by simp
  have "dns_admits_all (\<lambda>n. n < max_txn_ops) zone_pair (big_zone (Suc n)) (Map.empty, Map.empty)"
    using Suc new m unfolding m_def by (simp add: dns_admits_snoc dns_admits_def rec_example_def rec_zero_def)
  then show ?case
    unfolding step(1) recs dom using Suc m step(2) by (simp add: atLeast0_lessThan_Suc)
qed

definition big_table :: kvdb where
  "big_table = snd (run_calls (dns_dispatch (dns_etcd kv_client)) (big_zone 128) db_empty)"

lemma big_table_rows:
  "dns_db_inv big_table" "zone_rows big_table ''z1'' \<noteq> None" "card (recs_in (rec_rows big_table) ''z1'') = 128"
proof -
  note run = big_zone_run [of 128]
  have sim: "run_calls (dns_spec_call zone_pair) (big_zone 128) (Map.empty, Map.empty) =
      (fst (run_calls (dns_dispatch (dns_etcd kv_client)) (big_zone 128) db_empty), dns_rows_of big_table) \<and>
      dns_db_inv big_table"
    unfolding big_table_def
    using dns_etcd_kv.dns_calls_sim [of db_empty "big_zone 128", OF _ _ prod.collapse [symmetric]] run by simp
  then show "dns_db_inv big_table" by blast
  have "card ((\<lambda>i. replicate i (CHR ''r'')) ` {0..<128::nat}) = 128"
    by (subst card_image) (auto simp: inj_on_def)
  with sim run show "zone_rows big_table ''z1'' \<noteq> None" "card (recs_in (rec_rows big_table) ''z1'') = 128"
    by (simp_all add: dns_rows_of_def)
qed

theorem dns_delete_big_zone_fails_witness:
  "\<exists>e db'. exec kv_client (dns_etcd_delete_zone ''z1'') big_table =
     (Inl (ErrWrap ''etcd cascade delete zone'' e), db') \<and> zone_rows db' ''z1'' \<noteq> None"
proof -
  have "wf_db big_table" using big_table_rows(1) by (simp add: dns_db_inv_def dns_tables_ok_def)
  from dns_delete_big_zone_fails [OF table_exclusive this big_table_rows(1), of "''z1''"] big_table_rows
  show ?thesis by (auto simp: max_txn_ops_def)
qed

section \<open>Listings and codecs\<close>

lemma sched_mem_list_set:
  "enumerates order (sm_by_uuid s) \<Longrightarrow>
   set (sched_mem_list order p s) = {r \<in> ran (sm_by_uuid s). p = [] \<or> rule_project r = p}"
  by (auto simp: sched_mem_list_def set_range_vals)

text \<open>
  The in-memory listing of rules is the rules of the project (all of them without a
  filter), sorted by creation time and then name, and does not depend on the order in which the
  runtime ranges over the map, provided no two rules agree on both.
\<close>

theorem sched_mem_list_deterministic:
  assumes "enumerates order (sm_by_uuid s)" and "enumerates order' (sm_by_uuid s)"
    and "inj_on (\<lambda>r. (sint (rule_created r), rule_name r)) (ran (sm_by_uuid s))"
  shows "sched_mem_list order p s = sched_mem_list order' p s \<and>
    set (sched_mem_list order p s) = {r \<in> ran (sm_by_uuid s). p = [] \<or> rule_project r = p} \<and>
    sorted (map (\<lambda>r. (sint (rule_created r), rule_name r)) (sched_mem_list order p s))"
proof -
  have "sched_mem_list order p s = sched_mem_list order' p s"
    unfolding sched_mem_list_def
  proof (rule sort_key_unique)
    show "mset (filter (\<lambda>r. \<not> (p \<noteq> [] \<and> rule_project r \<noteq> p)) (range_vals order (sm_by_uuid s))) =
      mset (filter (\<lambda>r. \<not> (p \<noteq> [] \<and> rule_project r \<noteq> p)) (range_vals order' (sm_by_uuid s)))"
      using range_vals_perm [OF assms(1,2)] by (simp only: mset_filter)
    show "inj_on (\<lambda>r. (sint (rule_created r), rule_name r))
      (set (filter (\<lambda>r. \<not> (p \<noteq> [] \<and> rule_project r \<noteq> p)) (range_vals order (sm_by_uuid s))))"
      using assms(3) by (rule inj_on_subset) (auto simp: set_range_vals [OF assms(1)])
  qed
  moreover have "sorted (map (\<lambda>r. (sint (rule_created r), rule_name r)) (sched_mem_list order p s))"
    by (simp add: sched_mem_list_def)
  ultimately show ?thesis using sched_mem_list_set [OF assms(1)] by blast
qed

definition sched_mem_example :: "i64 \<Rightarrow> sched_mem" where
  "sched_mem_example t = sched_mem_new\<lparr>sm_by_uuid :=
     [''a'' \<mapsto> rule_zero\<lparr>rule_uuid := ''a'', rule_name := ''web'', rule_created := 1\<rparr>,
      ''b'' \<mapsto> rule_zero\<lparr>rule_uuid := ''b'', rule_name := ''web'', rule_project := ''acme'', rule_created := t\<rparr>]\<rparr>"

lemma sched_mem_example_enum:
  "enumerates [''a'', ''b''] (sm_by_uuid (sched_mem_example t))" "enumerates [''b'', ''a''] (sm_by_uuid (sched_mem_example t))"
  by (auto simp: enumerates_def sched_mem_example_def)

lemma sched_mem_example_ran:
  "ran (sm_by_uuid (sched_mem_example t)) =
     {rule_zero\<lparr>rule_uuid := ''a'', rule_name := ''web'', rule_created := 1\<rparr>,
      rule_zero\<lparr>rule_uuid := ''b'', rule_name := ''web'', rule_project := ''acme'', rule_created := t\<rparr>}"
  by (simp add: sched_mem_example_def sched_mem_new_def insert_commute)

theorem sched_mem_list_deterministic_witness:
  "sched_mem_list [''a'', ''b''] [] (sched_mem_example 2) = sched_mem_list [''b'', ''a''] [] (sched_mem_example 2)"
  by (rule sched_mem_list_deterministic [OF sched_mem_example_enum, THEN conjunct1])
     (auto simp: sched_mem_example_ran)

text \<open>
  Without that proviso the listing is not determined: two rules of different projects with
  the same name and the same creation time come in either order.
\<close>

theorem sched_mem_list_ties:
  "enumerates [''a'', ''b''] (sm_by_uuid (sched_mem_example 1)) \<and> enumerates [''b'', ''a''] (sm_by_uuid (sched_mem_example 1)) \<and>
   map rule_uuid (sched_mem_list [''a'', ''b''] [] (sched_mem_example 1)) = [''a'', ''b''] \<and>
   map rule_uuid (sched_mem_list [''b'', ''a''] [] (sched_mem_example 1)) = [''b'', ''a'']"
  using sched_mem_example_enum by (simp add: sched_mem_list_def sched_mem_example_def)

text \<open>
  On etcd a rule that has just been created is listed last, and the rest of the listing
  stays as it was, on every service with no other client and no failure.
\<close>

theorem sched_etcd_create_lists_last:
  assumes "etcd_exclusive cl view ok" and "ok s" and "sched_db_inv (view s)"
    and "rule_rows (view s) (rule_uuid r) = None"
    and "exec cl (sched_etcd_list p) s = (Inr rs, s1)" and "exec cl (sched_etcd_create r) s1 = (Inr r', s2)"
    and "exec cl (sched_etcd_list p) s2 = (out, s3)"
  shows "out = Inr (if p = [] \<or> rule_project r = p then rs @ [r] else rs)"
proof -
  note sim = etcd_exclusive.exec_sim [OF assms(1)]
  have list: "exec kv_client (sched_etcd_list p) db =
      (Inr (scan_list unmarshal_rule (\<lambda>r. p \<noteq> [] \<and> rule_project r \<noteq> p) (db_get sched_prefix PrefixByCreate db)), db)" for db
    by (simp add: sched_etcd_list_def del: db_get.simps)
  from sim [OF assms(2,5)] list [of "view s"] have s1: "view s1 = view s" "ok s1"
    and rs: "rs = scan_list unmarshal_rule (\<lambda>r. p \<noteq> [] \<and> rule_project r \<noteq> p) (db_get sched_prefix PrefixByCreate (view s))"
    by auto
  from sim [OF s1(2) assms(6)] sched_etcd_create_run [OF assms(3,4)] s1
  have s2: "view s2 = db_apply [OpPut (sched_prefix @ rule_uuid r) (marshal_rule r)] (view s)" "ok s2"
    by (auto split: if_splits)
  have absent: "db_lookup (view s) (sched_prefix @ rule_uuid r) = None"
    using assms(3,4) rule_codec.rows_None [of "view s"] by (simp add: sched_db_inv_def)
  have wf: "wf_db (view s)" using assms(3) by (simp add: sched_db_inv_def)
  from sim [OF s2(2) assms(7)] list [of "view s2"] rule_codec.scan_list_put_new [OF wf absent] s2(1) rs
  show ?thesis by (auto simp del: db_get.simps)
qed

theorem sched_etcd_create_lists_last_witness:
  "fst (exec kv_client (sched_etcd_list []) (snd (exec kv_client (sched_etcd_create (rule_example ''r1'' ''web'')) db_empty))) =
   Inr [rule_example ''r1'' ''web'']"
proof -
  have run: "exec kv_client (sched_etcd_create (rule_example ''r1'' ''web'')) db_empty =
    (Inr (rule_example ''r1'' ''web''), db_apply [OpPut (sched_prefix @ ''r1'') (marshal_rule (rule_example ''r1'' ''web''))] db_empty)"
    by (subst sched_etcd_create_run) (simp_all add: rule_example_def)
  have "exec kv_client (sched_etcd_list []) db_empty = (Inr [], db_empty)"
    by (simp add: sched_etcd_list_def db_empty_def)
  from sched_etcd_create_lists_last [OF table_exclusive _ _ _ this run prod.collapse [symmetric]] run
  show ?thesis by simp
qed

lemma db_empty_get: "db_kvs db_empty = []" "o' \<noteq> Exact \<Longrightarrow> db_get k o' db_empty = []"
  by (cases o'; simp add: db_empty_def)+

definition sched_skewed :: "Rule store_call list" where
  "sched_skewed = [Create ((rule_example ''r1'' ''web'')\<lparr>rule_created := 2\<rparr>),
     Create ((rule_example ''r2'' ''db'')\<lparr>rule_created := 1\<rparr>)]"

lemma sched_skewed_etcd:
  "snd (run_calls (dispatch (\<lambda>r. exec kv_client (sched_etcd_create r)) (\<lambda>u. exec kv_client (sched_etcd_delete u))
      (\<lambda>u. exec kv_client (sched_etcd_get u))) sched_skewed db_empty) =
   db_apply [OpPut (sched_prefix @ ''r2'') (marshal_rule ((rule_example ''r2'' ''db'')\<lparr>rule_created := 1\<rparr>))]
     (db_apply [OpPut (sched_prefix @ ''r1'') (marshal_rule ((rule_example ''r1'' ''web'')\<lparr>rule_created := 2\<rparr>))] db_empty)"
proof -
  let ?r1 = "(rule_example ''r1'' ''web'')\<lparr>rule_created := 2\<rparr>"
  let ?r2 = "(rule_example ''r2'' ''db'')\<lparr>rule_created := 1\<rparr>"
  let ?db1 = "db_apply [OpPut (sched_prefix @ ''r1'') (marshal_rule ?r1)] db_empty"
  have run1: "exec kv_client (sched_etcd_create ?r1) db_empty = (Inr ?r1, ?db1)"
    by (subst sched_etcd_create_run) (simp_all add: rule_example_def)
  from sched_etcd.create_sim [OF _ _ run1] have inv: "sched_db_inv ?db1" by simp
  have "exec kv_client (sched_etcd_create ?r2) ?db1 =
    (Inr ?r2, db_apply [OpPut (sched_prefix @ ''r2'') (marshal_rule ?r2)] ?db1)"
    by (subst sched_etcd_create_run [OF inv]) (simp_all add: rule_example_def rule_codec.rows_put)
  with run1 show ?thesis by (simp add: sched_skewed_def dispatch_def)
qed

text \<open>
  The two listings can differ after the same calls: memory sorts by the creation time the
  caller gives, etcd by the order in which the rows arrived.
\<close>

theorem sched_lists_differ:
  "map rule_uuid (sched_mem_list [''r1'', ''r2''] [] (snd (run_calls
      (dispatch sched_mem_create sched_mem_delete sched_mem_get) sched_skewed sched_mem_new))) = [''r2'', ''r1''] \<and>
   map_sum id (map rule_uuid) (fst (exec kv_client (sched_etcd_list []) (snd (run_calls
      (dispatch (\<lambda>r. exec kv_client (sched_etcd_create r)) (\<lambda>u. exec kv_client (sched_etcd_delete u))
        (\<lambda>u. exec kv_client (sched_etcd_get u))) sched_skewed db_empty)))) = Inr [''r1'', ''r2'']"
proof -
  let ?r1 = "(rule_example ''r1'' ''web'')\<lparr>rule_created := 2\<rparr>"
  let ?r2 = "(rule_example ''r2'' ''db'')\<lparr>rule_created := 1\<rparr>"
  let ?db1 = "db_apply [OpPut (sched_prefix @ ''r1'') (marshal_rule ?r1)] db_empty"
  let ?scan = "\<lambda>db. scan_list unmarshal_rule (\<lambda>r. False) (db_get sched_prefix PrefixByCreate db)"
  have "?scan ?db1 = [?r1]"
    using rule_codec.scan_list_put_new [of db_empty "''r1''" "\<lambda>_. False" ?r1] by (simp add: db_lookup_kvs kvs_lookup_None db_empty_get del: db_get.simps)
  moreover have "db_lookup ?db1 (sched_prefix @ ''r2'') = None"
    by (simp add: db_lookup_kvs db_apply_kvs kvs_lookup_put kvs_lookup_None db_empty_def)
  ultimately have "?scan (db_apply [OpPut (sched_prefix @ ''r2'') (marshal_rule ?r2)] ?db1) = [?r1, ?r2]"
    using rule_codec.scan_list_put_new [of ?db1 "''r2''" "\<lambda>_. False" ?r2] by (simp add: wf_db_apply del: db_get.simps)
  then have "map_sum id (map rule_uuid) (fst (exec kv_client (sched_etcd_list [])
      (db_apply [OpPut (sched_prefix @ ''r2'') (marshal_rule ?r2)] ?db1))) = Inr [''r1'', ''r2'']"
    by (simp add: sched_etcd_list_def rule_example_def del: db_get.simps)
  then show ?thesis
    unfolding sched_skewed_etcd
    by (simp add: sched_skewed_def rule_example_def rule_zero_def sched_mem_create_def sched_mem_new_def dispatch_def
      projectNameKey_def sched_mem_list_def Let_def del: exec.simps)
qed

text \<open>
  In memory, projects and names that contain the separator collide: after creating the rule
  \<open>c\<close> of project \<open>a|b\<close>, the rule \<open>b|c\<close> of project \<open>a\<close> is refused as already existing, although
  no rule of that project and name exists.
\<close>

theorem sched_mem_key_collision:
  "let r = rule_zero\<lparr>rule_uuid := ''u1'', rule_project := ''a|b'', rule_name := ''c''\<rparr>;
       q = rule_zero\<lparr>rule_uuid := ''u2'', rule_project := ''a'', rule_name := ''b|c''\<rparr>;
       s = snd (sched_mem_create r sched_mem_new) in
   fst (sched_mem_create q s) = Inl ErrAlreadyExists \<and> rule_pair q \<notin> rule_pair ` ran (sm_by_uuid s)"
  by (simp add: sched_mem_create_def sched_mem_new_def projectNameKey_def Let_def rule_zero_def)

text \<open>
  What the etcd stores write they read back: decoding the JSON of a rule, a router, a load
  balancer, a zone or a record gives the struct itself, and the uuid is recovered from its key.
\<close>

theorem codecs_roundtrip:
  "unmarshal_rule (marshal_rule r) = Some r \<and> unmarshal_router (marshal_router t) = Some t \<and>
   unmarshal_lb (marshal_lb l) = Some l \<and> unmarshal_zone (marshal_zone z) = Some z \<and>
   unmarshal_rec (marshal_rec q) = Some q \<and> uuidFromKey (rule_key u) = u"
  by (simp add: codec_simps uuidFromKey_rule_key)

end
