(* ===== verification/Race_Properties.thy ===== *)
theory Race_Properties
  imports Store_Properties
begin

text \<open>
  Several replicas on one etcd: what the transactions of the stores guarantee in every
  interleaving with other clients and with calls that fail, and the races they leave open.
\<close>

section \<open>Guarantees\<close>

lemma lb_loop_cas:
  "iexec (lb_set_backends_loop n bs u) db (Inr l') db' \<Longrightarrow> wf_db db \<Longrightarrow>
   \<exists>m l x. env_steps db m \<and> db_lookup m (lb_key u) = Some x \<and> unmarshal_lb (kv_val x) = Some l \<and>
     l' = set_backends bs l \<and> db' = db_apply [OpPut (lb_key u) (marshal_lb l')] m"
proof (induction n arbitrary: db)
  case 0
  then show ?case by simp
next
  case (Suc n)
  obtain m1 x where m1: "env_steps db m1" and x: "db_lookup m1 (lb_key u) = Some x"
    and rest: "iexec (case unmarshal_lb (kv_val x) of None \<Rightarrow> Done (Inl (ErrMsg ''decode lb''))
       | Some l \<Rightarrow> Txn (ModRevEq (lb_key u) (mod_rev x)) [OpPut (lb_key u) (marshal_lb (set_backends bs l))]
           (\<lambda>tr. case tr of Inl e \<Rightarrow> Done (Inl (ErrWrap ''etcd set-backends put'' e))
              | Inr succeeded \<Rightarrow> if succeeded then Done (Inr (set_backends bs l)) else lb_set_backends_loop n bs u))
       m1 (Inr l') db'"
    by (rule iexec_Get_ok [OF Suc.prems(1) [unfolded lb_set_backends_loop.simps Let_def]]) simp_all
  from rest obtain l where l: "unmarshal_lb (kv_val x) = Some l" by (auto split: option.splits)
  have wf: "wf_db m1" using m1 Suc.prems(2) by (rule env_steps_wf)
  from rest [unfolded l option.case] show ?case
  proof (rule iexec_Txn_ok, goal_cases)
    case (2 m2)
    with l rtranclp_trans [OF m1 2(1)] same_mod_rev [OF 2(1) wf x 2(2)] show ?case by auto
  next
    case (3 m2)
    then have "iexec (lb_set_backends_loop n bs u) m2 (Inr l') db'" by simp
    from Suc.IH [OF this env_steps_wf [OF 3(1) wf]] show ?case
      using rtranclp_trans [OF rtranclp_trans [OF m1 3(1)]] by blast
  qed simp
qed

text \<open>
  C12. \<open>SetBackends\<close> is atomic, whatever other clients write and whatever calls fail: when it
  returns a load balancer, that is the stored row of the moment of its write with the backends
  replaced, and its write is the last one. No concurrent change of another field is lost.
\<close>

theorem lb_set_backends_atomic:
  assumes "iexec (lb_etcd_set_backends bs u) db (Inr l') db'" and "wf_db db"
  shows "\<exists>m l x. env_steps db m \<and> db_lookup m (lb_key u) = Some x \<and> unmarshal_lb (kv_val x) = Some l \<and>
    l' = set_backends bs l \<and> db' = db_apply [OpPut (lb_key u) (marshal_lb l')] m"
  using lb_loop_cas [OF _ assms(2)] assms(1) by (simp add: lb_etcd_set_backends_def)

definition lb_example :: LoadBalancer where
  "lb_example = lb_zero\<lparr>lb_uuid := ''lb1'', lb_name := ''front'', lb_backends := [''10.0.0.1:80'']\<rparr>"

definition lb_table_example :: kvdb where
  "lb_table_example = db_apply [OpPut (lb_prefix @ ''lb1'') (marshal_lb lb_example)] db_empty"

lemma lb_table_example_inv: "lb_db_inv lb_table_example" "lb_rows lb_table_example ''lb1'' = Some lb_example"
proof -
  have "exec kv_client (lb_etcd_create lb_example) db_empty = (Inr lb_example, lb_table_example)"
    by (subst lb_etcd_create_run) (simp_all add: lb_table_example_def lb_example_def)
  from lb_etcd.create_sim [OF _ _ this]
  show "lb_db_inv lb_table_example" "lb_rows lb_table_example ''lb1'' = Some lb_example"
    by (auto simp: spec_create_def lb_example_def dest: sym)
qed

theorem lb_set_backends_atomic_witness:
  "\<exists>db' m x l. exec kv_client (lb_etcd_set_backends [''10.0.0.2:80''] ''lb1'') lb_table_example =
     (Inr (set_backends [''10.0.0.2:80''] lb_example), db') \<and> env_steps lb_table_example m \<and>
     db_lookup m (lb_key ''lb1'') = Some x \<and> unmarshal_lb (kv_val x) = Some l"
proof -
  have wf: "wf_db lb_table_example" using lb_table_example_inv(1) by (simp add: lb_db_inv_def)
  obtain db' where run: "exec kv_client (lb_etcd_set_backends [''10.0.0.2:80''] ''lb1'') lb_table_example =
     (Inr (set_backends [''10.0.0.2:80''] lb_example), db')"
    using lb_table_example_inv lb_etcd_set_backends_run by auto
  with lb_set_backends_atomic [OF _ wf] table.exec_iexec [OF wf run] show ?thesis by blast
qed

text \<open>
  \<open>Create\<close> never overwrites a row, whatever other clients write and whatever calls fail: when
  it reports success, the key of the uuid was absent at the moment of its write.
\<close>

theorem sched_create_never_overwrites:
  assumes "iexec (sched_etcd_create r) db (Inr v) db'" and "wf_db db"
  shows "v = r \<and> (\<exists>m. env_steps db m \<and> db_lookup m (rule_key (rule_uuid r)) = None \<and>
    db' = db_apply [OpPut (rule_key (rule_uuid r)) (marshal_rule r)] m)"
proof (rule iexec_Get_prefix_ok [OF assms(1) [unfolded sched_etcd_create_def]], goal_cases)
  case (2 m)
  then have "iexec (Txn (CreateRevEq (rule_key (rule_uuid r)) 0) [OpPut (rule_key (rule_uuid r)) (marshal_rule r)]
      (\<lambda>tr. case tr of Inl e \<Rightarrow> Done (Inl (ErrWrap ''etcd put'' e))
         | Inr succeeded \<Rightarrow> if \<not> succeeded then Done (Inl (ErrMsg ''scheduling rule uuid %q already exists in etcd''))
             else Done (Inr r))) m (Inr v) db'"
    by (simp del: db_get.simps split: if_splits)
  then show ?case
  proof (rule iexec_Txn_ok, goal_cases)
    case (2 m2)
    have "wf_db m2" using 2(1) \<open>env_steps db m\<close> assms(2) by (blast intro: env_steps_wf)
    with 2 rtranclp_trans [OF \<open>env_steps db m\<close> 2(1)] show ?case
      by (auto simp: create_absent simp del: db_cmp.simps)
  qed simp_all
qed simp

theorem sched_create_never_overwrites_witness:
  "\<exists>m. env_steps db_empty m \<and> db_lookup m (rule_key ''r1'') = None"
proof -
  have run: "exec kv_client (sched_etcd_create (rule_example ''r1'' ''web'')) db_empty =
    (Inr (rule_example ''r1'' ''web''), db_apply [OpPut (sched_prefix @ ''r1'') (marshal_rule (rule_example ''r1'' ''web''))] db_empty)"
    by (subst sched_etcd_create_run) (simp_all add: rule_example_def)
  from sched_create_never_overwrites [OF conjunct1 [OF table.exec_iexec [OF wf_db_empty run]] wf_db_empty]
  show ?thesis by (auto simp: rule_example_def)
qed

section \<open>Races\<close>

text \<open>
  C38. The uniqueness of (project, name) is not guarded by the transaction: of two replicas that
  create rules of the same project and name at the same time, both succeed, and both rows stay.
  Hypotheses: the name is free and the uuids are new and different.
\<close>

theorem concurrent_creates_duplicate_name:
  assumes "sched_db_inv db" and "rule_rows db (rule_uuid r) = None" and "rule_rows db (rule_uuid q) = None"
    and "rule_uuid r \<noteq> rule_uuid q" and "rule_pair q = rule_pair r"
    and "\<not> (\<exists>x \<in> ran (rule_rows db). rule_pair x = rule_pair r)"
  shows "\<exists>db'. run2 [True, False, True, False] (sched_etcd_create r) (sched_etcd_create q) db =
      (Done (Inr r), Done (Inr q), db') \<and>
    rule_rows db' (rule_uuid r) = Some r \<and> rule_rows db' (rule_uuid q) = Some q \<and>
    \<not> rows_unique rule_pair (rule_rows db')"
proof -
  have wf: "wf_db db" and okd: "rows_ok sched_prefix unmarshal_rule rule_uuid db"
    using assms(1) by (auto simp: sched_db_inv_def)
  let ?put = "\<lambda>v. db_apply [OpPut (sched_prefix @ rule_uuid v) (marshal_rule v)]"
  have look: "db_lookup db (sched_prefix @ rule_uuid r) = None" "db_lookup (?put r db) (sched_prefix @ rule_uuid q) = None"
    using assms(2-4) rule_codec.rows_None [OF okd]
    by (simp_all add: db_lookup_kvs db_apply_kvs kvs_lookup_put)
  have scan: "\<not> scan_dup unmarshal_rule (\<lambda>x. rule_project x = rule_project v \<and> rule_name x = rule_name v)
      (db_get sched_prefix Prefix db)" if "rule_pair v = rule_pair r" for v
    using that assms(6) rule_codec.scan_dup_rows [OF wf] by simp
  have "run2 [True, False, True, False] (sched_etcd_create r) (sched_etcd_create q) db =
      (Done (Inr r), Done (Inr q), ?put q (?put r db))"
    using scan [OF refl] scan [OF assms(5)] look
    by (simp add: sched_etcd_create_def db_txn_one rev_of_def rule_key_def del: db_get.simps)
  moreover have "rule_rows (?put q (?put r db)) = (rule_rows db)(rule_uuid r \<mapsto> r, rule_uuid q \<mapsto> q)"
    by (simp add: rule_codec.rows_put)
  moreover have "\<not> rows_unique rule_pair ((rule_rows db)(rule_uuid r \<mapsto> r, rule_uuid q \<mapsto> q))"
    using rows_uniqueD [of rule_pair "(rule_rows db)(rule_uuid r \<mapsto> r, rule_uuid q \<mapsto> q)"
        "rule_uuid r" r "rule_uuid q" q] assms(4,5) by auto
  ultimately show ?thesis using assms(4) by simp
qed

theorem concurrent_creates_duplicate_name_witness:
  "\<exists>db'. run2 [True, False, True, False] (sched_etcd_create (rule_example ''r1'' ''web''))
      (sched_etcd_create (rule_example ''r2'' ''web'')) db_empty =
      (Done (Inr (rule_example ''r1'' ''web'')), Done (Inr (rule_example ''r2'' ''web'')), db') \<and>
    \<not> rows_unique rule_pair (rule_rows db')"
  using concurrent_creates_duplicate_name [of db_empty "rule_example ''r1'' ''web''" "rule_example ''r2'' ''web''"]
  by (simp add: rule_example_def del: run2.simps) blast

text \<open>
  A status update that races a deletion brings the router back: when the deletion falls
  between its read and its write, both calls report success and the router is stored again.
\<close>

theorem update_status_resurrects:
  assumes "router_db_inv db" and "router_rows db u = Some r"
  shows "\<exists>db'. run2 [True, False, True] (router_etcd_update_status st u) (router_etcd_delete u) db =
      (Done (Inr ()), Done (Inr ()), db') \<and> router_rows db' u = Some (set_status st r)"
proof -
  from assms router_codec.rows_Some obtain x where "db_lookup db (router_prefix @ u) = Some x"
    "unmarshal_router (kv_val x) = Some r" by blast
  then show ?thesis
    by (simp add: router_etcd_update_status_def router_etcd_get_def router_etcd_delete_def router_key_def
        db_del_def db_put_def router_codec.rows_put)
qed

definition router_example :: Router where
  "router_example = router_zero\<lparr>router_uuid := ''u1'', router_name := ''edge'', router_networks := [''n1'']\<rparr>"

definition router_table_example :: kvdb where
  "router_table_example = db_apply [OpPut (router_prefix @ ''u1'') (marshal_router router_example)] db_empty"

lemma router_table_example_inv:
  "router_db_inv router_table_example" "router_rows router_table_example ''u1'' = Some router_example"
proof -
  have "exec kv_client (router_etcd_create router_example) db_empty = (Inr router_example, router_table_example)"
    by (subst router_etcd_create_run) (simp_all add: router_table_example_def router_example_def)
  from router_etcd.create_sim [OF _ _ this]
  show "router_db_inv router_table_example" "router_rows router_table_example ''u1'' = Some router_example"
    by (auto simp: spec_create_def router_example_def dest: sym)
qed

theorem update_status_resurrects_witness:
  "\<exists>db'. run2 [True, False, True] (router_etcd_update_status (''down'', ''Idle'') ''u1'')
      (router_etcd_delete ''u1'') router_table_example = (Done (Inr ()), Done (Inr ()), db') \<and>
    router_rows db' ''u1'' \<noteq> None"
  using update_status_resurrects [OF router_table_example_inv, of "(''down'', ''Idle'')"] by auto

text \<open>
  A record that is created while its zone is being deleted: when the deletion falls between
  the read of the zone and the write of the record, both calls report success, the zone is
  stored again with its old counter plus one, and the new record is its only one.
\<close>

theorem create_record_resurrects_zone:
  assumes "dns_db_inv db" and "zone_rows db (rec_zone q) = Some z" and "rec_rows db (rec_uuid q) = None"
    and "card (recs_in (rec_rows db) (rec_zone q)) < max_txn_ops"
  shows "\<exists>db' q'. run2 [True, False, False, True, True] (dns_etcd_create_record q) (dns_etcd_delete_zone (rec_zone q)) db =
      (Done (Inr q'), Done (Inr ()), db') \<and>
    zone_rows db' (rec_zone q) = Some (z\<lparr>zone_records := zone_records z + 1\<rparr>) \<and>
    recs_in (rec_rows db') (rec_zone q) = {rec_uuid q}"
proof -
  note inv = dns_db_invD [OF assms(1)]
  let ?u = "rec_zone q" and ?q = "q\<lparr>rec_zone_name := zone_name z\<rparr>"
  let ?dels = "map OpDelete ((etcdZonePrefix @ ?u) # cascade_keys ?u (db_get etcdRecordPrefix Prefix db))"
  let ?db1 = "db_apply ?dels db"
  let ?db2 = "db_apply [OpPut (etcdRecordPrefix @ rec_uuid q) (marshal_rec ?q)] ?db1"
  let ?db3 = "db_apply [OpPut (etcdZonePrefix @ ?u) (marshal_zone (z\<lparr>zone_records := zone_records z + 1\<rparr>))] ?db2"
  obtain x where x: "db_lookup db (etcdZonePrefix @ ?u) = Some x" "unmarshal_zone (kv_val x) = Some z"
    using assms(2) zone_codec.rows_Some by blast
  have uid: "zone_uuid z = ?u" using zone_codec.rows_uid [OF inv(2) assms(2)] .
  note tabs = dns_tables_dels [OF assms(1), of ?u]
  have gone: "rec_rows ?db1 (rec_uuid q) = None" using assms(3) tabs(2) by (simp add: restrict_map_def)
  have ok1: "rows_ok etcdRecordPrefix unmarshal_rec rec_uuid ?db1" using tabs(3) by (simp add: dns_tables_ok_def)
  have look: "db_lookup ?db1 (etcdRecordPrefix @ rec_uuid q) = None"
    using gone rec_codec.rows_None [OF ok1] by simp
  have del: "db_txn (CreateRevNe (etcdZonePrefix @ ?u) 0) ?dels db = (Inr True, ?db1)"
    using assms(4) length_cascade_keys [OF assms(1), of ?u] rev_of_create_0 [OF inv(1)] x
    by (simp add: db_txn_def del: db_get.simps)
  have "run2 [True, False, False, True, True] (dns_etcd_create_record q) (dns_etcd_delete_zone ?u) db =
      (Done (Inr ?q), Done (Inr ()), ?db3)"
    using x del look uid
    by (simp add: dns_etcd_create_record_def dns_etcd_get_zone_def dns_etcd_delete_zone_def etcdZoneKey_def
        etcdRecordKey_def cascade_ops_map db_txn_one rev_of_def db_put_def Let_def del: db_get.simps(2,3))
  moreover have "recs_in (rec_rows ?db3) ?u = {rec_uuid q}"
    using gone tabs(2) by (simp add: recs_in_upd recs_in_restrict del: list.map)
  ultimately show ?thesis by (simp del: list.map)
qed

theorem create_record_resurrects_zone_witness:
  "\<exists>db' q'. run2 [True, False, False, True, True] (dns_etcd_create_record (rec_example ''c'' ''z1''))
      (dns_etcd_delete_zone ''z1'') dns_table_example = (Done (Inr q'), Done (Inr ()), db') \<and>
    zone_rows db' ''z1'' \<noteq> None"
proof -
  obtain z where z: "zone_rows dns_table_example ''z1'' = Some z" using dns_table_example_rows(2) by auto
  have sels: "rec_zone (rec_example ''c'' ''z1'') = ''z1''" "rec_uuid (rec_example ''c'' ''z1'') = ''c''"
    by (simp_all add: rec_example_def)
  from create_record_resurrects_zone [OF dns_table_example_rows(1), of "rec_example ''c'' ''z1''", unfolded sels,
      OF z dns_table_example_rows(4)] dns_table_example_rows(3)
  show ?thesis by (fastforce simp: max_txn_ops_def)
qed

section \<open>Status updates\<close>

text \<open>
  A status update changes the status and the peer state of one router and nothing else, on
  memory and on every exclusive etcd: no other row changes, no row appears or goes, and the
  router keeps its uuid, name, project, networks, peers and replicas.
\<close>

theorem router_status_frame:
  assumes "router_mem_inv m" and "router_mem_update_status st u m = (r, m')"
    and "etcd_exclusive cl view ok" and "ok s" and "router_db_inv (view s)"
    and "exec cl (router_etcd_update_status st u) s = (r', s')"
  shows "rm_by_uuid m' = (case rm_by_uuid m u of None \<Rightarrow> rm_by_uuid m
      | Some x \<Rightarrow> (rm_by_uuid m)(u \<mapsto> x\<lparr>router_status := fst st, router_peer_state := snd st\<rparr>)) \<and>
    router_rows (view s') = (case router_rows (view s) u of None \<Rightarrow> router_rows (view s)
      | Some x \<Rightarrow> (router_rows (view s))(u \<mapsto> x\<lparr>router_status := fst st, router_peer_state := snd st\<rparr>))"
proof
  show "rm_by_uuid m' = (case rm_by_uuid m u of None \<Rightarrow> rm_by_uuid m
      | Some x \<Rightarrow> (rm_by_uuid m)(u \<mapsto> x\<lparr>router_status := fst st, router_peer_state := snd st\<rparr>))"
    using assms(2) by (auto simp: router_mem_update_status_def set_status_def split: option.splits)
  from etcd_exclusive.exec_sim [OF assms(3,4,6)] router_etcd_upd.update_sim [OF assms(5), of st u r' "view s'"]
  show "router_rows (view s') = (case router_rows (view s) u of None \<Rightarrow> router_rows (view s)
      | Some x \<Rightarrow> (router_rows (view s))(u \<mapsto> x\<lparr>router_status := fst st, router_peer_state := snd st\<rparr>))"
    by (auto simp: spec_update_def set_status_def split: option.splits)
qed

theorem router_status_frame_witness:
  "\<exists>m' db'. snd (router_mem_update_status (''up'', ''Established'') ''u1'' router_mem_new) = m' \<and>
    rm_by_uuid m' = Map.empty \<and>
    snd (exec kv_client (router_etcd_update_status (''up'', ''Established'') ''u1'') router_table_example) = db' \<and>
    router_rows db' ''u1'' = Some (router_example\<lparr>router_status := ''up'', router_peer_state := ''Established''\<rparr>)"
proof -
  have wf: "wf_db router_table_example" using router_table_example_inv(1) by (simp add: router_db_inv_def)
  from router_status_frame [OF router_mem_new_inv prod.collapse [symmetric] table_exclusive wf
      router_table_example_inv(1) prod.collapse [symmetric], of "(''up'', ''Established'')" "''u1''"]
    router_table_example_inv(2)
  show ?thesis by (simp add: router_mem_new_def)
qed

end
