(* ===== verification/Fips_Index.thy ===== *)
theory Fips_Index
  imports Go_Strings
begin

text \<open>
  The floating-IP index: \<^verbatim>\<open>internal/fips/index.go\<close>. Three maps under one lock, and the gauge of
  the active floating IPs per network that every change refreshes. The invariant says that the
  secondary maps and the gauge are determined by the first map; the operations then act on that
  map alone.
\<close>

section \<open>Entries and the index\<close>

record Entry =
  e_uuid :: string
  e_project :: string
  e_network :: string
  e_address :: string
  e_mapped :: bool
  e_target_kind :: string
  e_target :: string

definition entry_zero :: Entry where
  "entry_zero = \<lparr>e_uuid = [], e_project = [], e_network = [], e_address = [], e_mapped = False,
     e_target_kind = [], e_target = []\<rparr>"

text \<open>\<open>gauge\<close> is the metric \<^verbatim>\<open>weft_network_fips_index_entries\<close>: a value per network label.\<close>

record Index =
  by_uuid :: "string \<rightharpoonup> Entry"
  by_addr :: "string \<rightharpoonup> string"
  net_uuid :: "string \<rightharpoonup> string set"
  gauge :: "string \<rightharpoonup> nat"

definition index_new :: Index where
  "index_new = \<lparr>by_uuid = Map.empty, by_addr = Map.empty, net_uuid = Map.empty, gauge = Map.empty\<rparr>"

definition addrKey :: "string \<Rightarrow> string \<Rightarrow> string" where
  "addrKey network address = network @ [CHR 0x00] @ address"

text \<open>A read of a missing key of a Go map gives the zero value.\<close>

definition entry_at :: "Index \<Rightarrow> string \<Rightarrow> Entry" where
  "entry_at i u = (case by_uuid i u of None \<Rightarrow> entry_zero | Some e \<Rightarrow> e)"

definition net_set :: "Index \<Rightarrow> string \<Rightarrow> string set" where
  "net_set i n = (case net_uuid i n of None \<Rightarrow> {} | Some us \<Rightarrow> us)"

definition live :: "Entry \<Rightarrow> bool" where
  "live e \<longleftrightarrow> e_mapped e \<and> e_address e \<noteq> []"

section \<open>Operations\<close>

definition indexLocked :: "Entry \<Rightarrow> Index \<Rightarrow> Index" where
  "indexLocked e i =
     (let i1 = i\<lparr>by_uuid := (by_uuid i)(e_uuid e \<mapsto> e)\<rparr>;
          i2 = (if e_address e \<noteq> []
                then i1\<lparr>by_addr := (by_addr i1)(addrKey (e_network e) (e_address e) \<mapsto> e_uuid e)\<rparr> else i1) in
      if e_network e \<noteq> []
      then i2\<lparr>net_uuid := (net_uuid i2)(e_network e \<mapsto> insert (e_uuid e) (net_set i2 (e_network e)))\<rparr>
      else i2)"

definition unindexLocked :: "Entry \<Rightarrow> Index \<Rightarrow> Index" where
  "unindexLocked e i =
     (let i1 = i\<lparr>by_uuid := (by_uuid i)(e_uuid e := None)\<rparr>;
          i2 = (if e_address e \<noteq> []
                then i1\<lparr>by_addr := (by_addr i1)(addrKey (e_network e) (e_address e) := None)\<rparr> else i1) in
      case net_uuid i2 (e_network e) of
        None \<Rightarrow> i2
      | Some us \<Rightarrow>
          (let us' = us - {e_uuid e} in
           i2\<lparr>net_uuid := (net_uuid i2)(e_network e := (if us' = {} then None else Some us'))\<rparr>))"

definition networksTouched :: "Entry \<Rightarrow> Entry \<Rightarrow> string set" where
  "networksTouched prev e =
     (if e_network prev \<noteq> [] then {e_network prev} else {}) \<union> (if e_network e \<noteq> [] then {e_network e} else {})"

definition active_count :: "Index \<Rightarrow> string \<Rightarrow> nat" where
  "active_count i n = card {u \<in> net_set i n. live (entry_at i u)}"

definition refreshGaugeLocked :: "string set \<Rightarrow> Index \<Rightarrow> Index" where
  "refreshGaugeLocked touched i =
     i\<lparr>gauge := (\<lambda>n. if n \<in> touched \<and> n \<noteq> [] then Some (active_count i n) else gauge i n)\<rparr>"

definition Upsert :: "Entry \<Rightarrow> Index \<Rightarrow> Entry \<times> Index" where
  "Upsert e i =
     (let prev = entry_at i (e_uuid e);
          i1 = (if e_uuid prev \<noteq> [] then unindexLocked prev i else i);
          i2 = indexLocked e i1 in
      (prev, refreshGaugeLocked (networksTouched prev e) i2))"

definition Delete_entry :: "string \<Rightarrow> Index \<Rightarrow> Entry \<times> Index" where
  "Delete_entry uuid i =
     (case by_uuid i uuid of
        None \<Rightarrow> (entry_zero, i)
      | Some prev \<Rightarrow> (prev, refreshGaugeLocked {e_network prev} (unindexLocked prev i)))"

text \<open>
  The loops range over the set of wanted networks and over the uuids of each network:
  \<open>nets\<close> and \<open>uuids\<close> are the orders the runtime picks.
\<close>

definition ActiveFIPsInNetworks :: "string list \<Rightarrow> (string \<Rightarrow> string list) \<Rightarrow> string list \<Rightarrow> Index \<Rightarrow> string list" where
  "ActiveFIPsInNetworks nets uuids networks i =
     (if networks = [] then []
      else sort (concat (map (\<lambda>n. map e_address (filter live (map (entry_at i) (uuids n)))) nets)))"

definition ranges_over :: "string list \<Rightarrow> (string \<Rightarrow> string list) \<Rightarrow> string list \<Rightarrow> Index \<Rightarrow> bool" where
  "ranges_over nets uuids networks i \<longleftrightarrow>
     distinct nets \<and> set nets = set networks \<and>
     (\<forall>n \<in> set networks. distinct (uuids n) \<and> set (uuids n) = net_set i n)"

text \<open>The addresses of the active entries of each network that has a set of uuids.\<close>

definition active_sets :: "Index \<Rightarrow> string \<rightharpoonup> string set" where
  "active_sets i n =
     (case net_uuid i n of None \<Rightarrow> None
      | Some us \<Rightarrow> Some ((\<lambda>u. e_address (entry_at i u)) ` {u \<in> us. live (entry_at i u)}))"

definition sameAddrSet :: "string set \<Rightarrow> string set \<Rightarrow> bool" where
  "sameAddrSet a b \<longleftrightarrow> (if card a \<noteq> card b then False else \<forall>addr \<in> a. addr \<in> b)"

record delta =
  added :: "string set"
  removed :: "string set"
  churned :: "string set"

definition net_deltas :: "(string \<rightharpoonup> string set) \<Rightarrow> (string \<rightharpoonup> string set) \<Rightarrow> delta" where
  "net_deltas priorActive newActive =
     (let allNets = dom priorActive \<union> dom newActive;
          prior = (\<lambda>n. case priorActive n of None \<Rightarrow> {} | Some s \<Rightarrow> s);
          nxt = (\<lambda>n. case newActive n of None \<Rightarrow> {} | Some s \<Rightarrow> s);
          add = (\<lambda>n. card (prior n) = 0 \<and> 0 < card (nxt n));
          rem = (\<lambda>n. 0 < card (prior n) \<and> card (nxt n) = 0) in
      \<lparr>added = {n \<in> allNets. add n}, removed = {n \<in> allNets. \<not> add n \<and> rem n},
       churned = {n \<in> allNets. \<not> add n \<and> \<not> rem n \<and> \<not> sameAddrSet (prior n) (nxt n)}\<rparr>)"

definition ReplaceAll :: "Entry list \<Rightarrow> Index \<Rightarrow> delta \<times> Index" where
  "ReplaceAll entries i =
     (let priorActive = active_sets i;
          i1 = fold indexLocked entries (i\<lparr>by_uuid := Map.empty, by_addr := Map.empty, net_uuid := Map.empty\<rparr>);
          newActive = active_sets i1 in
      (net_deltas priorActive newActive, refreshGaugeLocked (dom priorActive \<union> dom newActive) i1))"

definition All :: "string list \<Rightarrow> Index \<Rightarrow> Entry list" where
  "All order i = sort_key e_uuid (range_vals order (by_uuid i))"

section \<open>The invariant\<close>

definition net_members :: "(string \<rightharpoonup> Entry) \<Rightarrow> string \<Rightarrow> string set" where
  "net_members T n = {u. \<exists>e. T u = Some e \<and> e_network e = n}"

definition live_in :: "(string \<rightharpoonup> Entry) \<Rightarrow> string \<Rightarrow> string set" where
  "live_in T n = {u. \<exists>e. T u = Some e \<and> e_network e = n \<and> live e}"

definition index_ok :: "Index \<Rightarrow> bool" where
  "index_ok i \<longleftrightarrow>
     (\<forall>u e. by_uuid i u = Some e \<longrightarrow> e_uuid e = u) \<and> finite (dom (by_uuid i)) \<and>
     (\<forall>n. net_uuid i n = (if n = [] \<or> net_members (by_uuid i) n = {} then None
        else Some (net_members (by_uuid i) n))) \<and>
     (\<forall>k u. by_addr i k = Some u \<longrightarrow>
        (\<exists>e. by_uuid i u = Some e \<and> e_address e \<noteq> [] \<and> k = addrKey (e_network e) (e_address e)))"

definition gauge_ok :: "Index \<Rightarrow> bool" where
  "gauge_ok i \<longleftrightarrow>
     (\<forall>n. n \<noteq> [] \<longrightarrow> (case gauge i n of None \<Rightarrow> 0 | Some k \<Rightarrow> k) = card (live_in (by_uuid i) n))"

lemma net_members_empty [simp]: "net_members Map.empty n = {}"
  by (simp add: net_members_def)

lemma live_in_empty [simp]: "live_in Map.empty n = {}"
  by (simp add: live_in_def)

lemma index_new_ok [simp]: "index_ok index_new" "gauge_ok index_new"
  by (simp_all add: index_ok_def gauge_ok_def index_new_def)

lemma net_members_new:
  "T u = None \<Longrightarrow> net_members (T(u \<mapsto> e)) n = (if e_network e = n then insert u (net_members T n) else net_members T n)"
  by (auto simp: net_members_def)

lemma net_members_del: "net_members (T(u := None)) n = net_members T n - {u}"
  by (auto simp: net_members_def split: if_splits)

lemma live_in_upd:
  "live_in (T(u \<mapsto> e)) n = (if e_network e = n \<and> live e then insert u (live_in T n) else live_in T n - {u})"
  by (auto simp: live_in_def split: if_splits)

lemma live_in_del: "live_in (T(u := None)) n = live_in T n - {u}"
  by (auto simp: live_in_def split: if_splits)

lemma index_okD:
  assumes "index_ok i"
  shows "by_uuid i u = Some e \<Longrightarrow> e_uuid e = u" "finite (dom (by_uuid i))"
    "net_uuid i n = (if n = [] \<or> net_members (by_uuid i) n = {} then None else Some (net_members (by_uuid i) n))"
    "net_set i n = (if n = [] then {} else net_members (by_uuid i) n)"
    "by_addr i k = Some u \<Longrightarrow> \<exists>e. by_uuid i u = Some e \<and> e_address e \<noteq> [] \<and> k = addrKey (e_network e) (e_address e)"
  using assms by (auto simp: index_ok_def net_set_def)

lemma by_uuid_index [simp]:
  "by_uuid (indexLocked e i) = (by_uuid i)(e_uuid e \<mapsto> e)" "by_uuid (refreshGaugeLocked t i) = by_uuid i"
  "by_uuid (unindexLocked e i) = (by_uuid i)(e_uuid e := None)"
  by (auto simp: indexLocked_def unindexLocked_def refreshGaugeLocked_def Let_def split: option.splits)

lemma gauge_index [simp]:
  "gauge (indexLocked e i) = gauge i" "gauge (unindexLocked e i) = gauge i"
  by (auto simp: indexLocked_def unindexLocked_def Let_def split: option.splits)

lemma index_ok_refresh [simp]: "index_ok (refreshGaugeLocked t i) = index_ok i"
  by (simp add: index_ok_def refreshGaugeLocked_def)

lemma indexLocked_sels:
  "by_addr (indexLocked e i) = (if e_address e = [] then by_addr i
     else (by_addr i)(addrKey (e_network e) (e_address e) \<mapsto> e_uuid e))"
  "net_uuid (indexLocked e i) = (if e_network e = [] then net_uuid i
     else (net_uuid i)(e_network e \<mapsto> insert (e_uuid e) (net_set i (e_network e))))"
  by (auto simp: indexLocked_def Let_def net_set_def)

lemma unindexLocked_sels:
  "by_addr (unindexLocked e i) = (if e_address e = [] then by_addr i
     else (by_addr i)(addrKey (e_network e) (e_address e) := None))"
  "net_uuid (unindexLocked e i) = (case net_uuid i (e_network e) of None \<Rightarrow> net_uuid i
     | Some us \<Rightarrow> (net_uuid i)(e_network e := (if us - {e_uuid e} = {} then None else Some (us - {e_uuid e}))))"
  by (auto simp: unindexLocked_def Let_def split: option.splits)

text \<open>Inserting an entry whose uuid is free, and removing one that is there, keep it.\<close>

lemma indexLocked_ok:
  assumes ok: "index_ok i" and new: "by_uuid i (e_uuid e) = None"
  shows "index_ok (indexLocked e i)"
proof -
  have "net_uuid (indexLocked e i) n = (if n = [] \<or> net_members ((by_uuid i)(e_uuid e \<mapsto> e)) n = {} then None
      else Some (net_members ((by_uuid i)(e_uuid e \<mapsto> e)) n))" for n
    using index_okD(3) [OF ok, of n] index_okD(4) [OF ok, of n] by (auto simp: indexLocked_sels net_members_new [of "by_uuid i", OF new])
  moreover have "\<exists>x. ((by_uuid i)(e_uuid e \<mapsto> e)) u = Some x \<and> e_address x \<noteq> [] \<and> k = addrKey (e_network x) (e_address x)"
    if "by_addr (indexLocked e i) k = Some u" for k u
    using that index_okD(5) [OF ok, of k u] new by (fastforce simp: indexLocked_sels split: if_splits)
  ultimately show ?thesis
    using index_okD(1,2) [OF ok] unfolding index_ok_def by simp
qed

lemma unindexLocked_ok:
  assumes ok: "index_ok i" and e: "by_uuid i (e_uuid e) = Some e"
  shows "index_ok (unindexLocked e i)"
proof -
  have mem: "e_uuid e \<notin> net_members (by_uuid i) n" if "n \<noteq> e_network e" for n
    using that e by (auto simp: net_members_def)
  have "net_uuid (unindexLocked e i) n = (if n = [] \<or> net_members ((by_uuid i)(e_uuid e := None)) n = {} then None
      else Some (net_members ((by_uuid i)(e_uuid e := None)) n))" for n
    using index_okD(3) [OF ok] mem [of n] by (auto simp: unindexLocked_sels net_members_del)
  moreover have "\<exists>x. ((by_uuid i)(e_uuid e := None)) u = Some x \<and> e_address x \<noteq> [] \<and> k = addrKey (e_network x) (e_address x)"
    if "by_addr (unindexLocked e i) k = Some u" for k u
    using that index_okD(5) [OF ok, of k u] e by (auto simp: unindexLocked_sels split: if_splits)
  ultimately show ?thesis
    using index_okD(1,2) [OF ok] unfolding index_ok_def by simp
qed

lemma gauge_refresh:
  assumes ok: "index_ok i"
    and same: "\<And>n. n \<noteq> [] \<Longrightarrow> n \<notin> touched \<Longrightarrow>
      (case gauge i n of None \<Rightarrow> 0 | Some k \<Rightarrow> k) = card (live_in (by_uuid i) n)"
  shows "gauge_ok (refreshGaugeLocked touched i)"
proof -
  have "active_count i n = card (live_in (by_uuid i) n)" if "n \<noteq> []" for n
    using that index_okD(4) [OF ok, of n]
    by (auto simp: active_count_def live_in_def net_members_def entry_at_def intro!: arg_cong [of _ _ card])
  with same show ?thesis by (auto simp: gauge_ok_def refreshGaugeLocked_def)
qed

text \<open>What the two incremental operations do to the first map, and that both invariants survive.\<close>

lemma Upsert_by_uuid: "by_uuid (snd (Upsert e i)) = (by_uuid i)(e_uuid e \<mapsto> e)" if "index_ok i"
proof (cases "by_uuid i (e_uuid e)")
  case None
  then show ?thesis by (simp add: Upsert_def entry_at_def entry_zero_def Let_def)
next
  case (Some p)
  then have "e_uuid p = e_uuid e" using index_okD(1) [OF that] by blast
  with Some show ?thesis by (simp add: Upsert_def entry_at_def Let_def)
qed

lemma Upsert_ok:
  assumes ok: "index_ok i" and uuid: "e_uuid e \<noteq> []"
  shows "index_ok (snd (Upsert e i))"
proof (cases "by_uuid i (e_uuid e)")
  case None
  with indexLocked_ok [OF ok None] show ?thesis
    by (simp add: Upsert_def entry_at_def entry_zero_def Let_def)
next
  case (Some p)
  then have p: "e_uuid p = e_uuid e" using index_okD(1) [OF ok] by blast
  have "index_ok (unindexLocked p i)" using unindexLocked_ok [OF ok, of p] Some p by simp
  then have "index_ok (indexLocked e (unindexLocked p i))" by (rule indexLocked_ok) (simp add: p)
  with Some p uuid show ?thesis by (simp add: Upsert_def entry_at_def Let_def)
qed

lemma Upsert_gauge:
  assumes ok: "index_ok i" and uuid: "e_uuid e \<noteq> []" and g: "gauge_ok i"
  shows "gauge_ok (snd (Upsert e i))"
proof -
  let ?prev = "entry_at i (e_uuid e)"
  let ?i = "indexLocked e (if e_uuid ?prev \<noteq> [] then unindexLocked ?prev i else i)"
  have up: "snd (Upsert e i) = refreshGaugeLocked (networksTouched ?prev e) ?i" by (simp add: Upsert_def Let_def)
  have T: "by_uuid ?i = (by_uuid i)(e_uuid e \<mapsto> e)"
    using Upsert_by_uuid [OF ok, of e] unfolding up by simp
  have "index_ok ?i" using Upsert_ok [OF ok uuid] unfolding up by simp
  moreover have "(case gauge ?i n of None \<Rightarrow> 0 | Some k \<Rightarrow> k) = card (live_in (by_uuid ?i) n)"
    if n: "n \<noteq> []" "n \<notin> networksTouched ?prev e" for n
  proof -
    have "e_network e \<noteq> n" and "e_network ?prev \<noteq> n" using n by (auto simp: networksTouched_def)
    then have "e_uuid e \<notin> live_in (by_uuid i) n" by (auto simp: live_in_def entry_at_def)
    with \<open>e_network e \<noteq> n\<close> have "live_in (by_uuid ?i) n = live_in (by_uuid i) n"
      unfolding T by (simp add: live_in_upd)
    with g n(1) show ?thesis by (simp add: gauge_ok_def)
  qed
  ultimately show ?thesis unfolding up by (rule gauge_refresh)
qed

lemma Delete_ok:
  assumes ok: "index_ok i" and g: "gauge_ok i"
  shows "by_uuid (snd (Delete_entry u i)) = (by_uuid i)(u := None) \<and> index_ok (snd (Delete_entry u i)) \<and>
    gauge_ok (snd (Delete_entry u i)) \<and> fst (Delete_entry u i) = entry_at i u"
proof (cases "by_uuid i u")
  case None
  with ok g show ?thesis by (simp add: Delete_entry_def entry_at_def fun_upd_idem)
next
  case (Some p)
  then have p: "e_uuid p = u" using index_okD(1) [OF ok] by blast
  have ok': "index_ok (unindexLocked p i)" using unindexLocked_ok [OF ok, of p] Some p by simp
  have "gauge_ok (refreshGaugeLocked {e_network p} (unindexLocked p i))"
  proof (rule gauge_refresh [OF ok'])
    fix n
    assume n: "n \<noteq> []" "n \<notin> {e_network p}"
    then have "u \<notin> live_in (by_uuid i) n" using Some by (auto simp: live_in_def)
    then have "live_in (by_uuid (unindexLocked p i)) n = live_in (by_uuid i) n" by (simp add: p live_in_del)
    with g n(1) show "(case gauge (unindexLocked p i) n of None \<Rightarrow> 0 | Some k \<Rightarrow> k) = card (live_in (by_uuid (unindexLocked p i)) n)"
      by (simp add: gauge_ok_def)
  qed
  with Some ok' p show ?thesis by (simp add: Delete_entry_def entry_at_def)
qed

section \<open>The full replacement\<close>

definition table_of :: "Entry list \<Rightarrow> string \<rightharpoonup> Entry" where
  "table_of entries = fold (\<lambda>e T. T(e_uuid e \<mapsto> e)) entries Map.empty"

definition addresses :: "(string \<rightharpoonup> Entry) \<Rightarrow> string \<Rightarrow> string set" where
  "addresses T n = (\<lambda>u. e_address (the (T u))) ` live_in T n"

lemma fold_index_ok:
  "index_ok i \<Longrightarrow> distinct (map e_uuid es) \<Longrightarrow> (\<forall>e \<in> set es. by_uuid i (e_uuid e) = None) \<Longrightarrow>
   index_ok (fold indexLocked es i) \<and> by_uuid (fold indexLocked es i) = fold (\<lambda>e T. T(e_uuid e \<mapsto> e)) es (by_uuid i) \<and>
   gauge (fold indexLocked es i) = gauge i"
proof (induction es arbitrary: i)
  case (Cons e es)
  have "index_ok (indexLocked e i)" using Cons.prems by (intro indexLocked_ok) auto
  moreover have "\<forall>x \<in> set es. by_uuid (indexLocked e i) (e_uuid x) = None" using Cons.prems by (auto simp: image_iff)
  ultimately show ?case using Cons.IH [of "indexLocked e i"] Cons.prems(2) by simp
qed simp

lemma active_sets_ok:
  assumes ok: "index_ok i"
  shows "dom (active_sets i) = {n. n \<noteq> [] \<and> net_members (by_uuid i) n \<noteq> {}}"
    and "(case active_sets i n of None \<Rightarrow> {} | Some s \<Rightarrow> s) = (if n = [] then {} else addresses (by_uuid i) n)"
proof -
  note nu = index_okD(3) [OF ok]
  show "dom (active_sets i) = {n. n \<noteq> [] \<and> net_members (by_uuid i) n \<noteq> {}}"
    by (auto simp: active_sets_def nu split: if_splits)
  have "{u \<in> net_members (by_uuid i) n. live (entry_at i u)} = live_in (by_uuid i) n"
    by (auto simp: net_members_def live_in_def entry_at_def)
  moreover have "e_address (entry_at i u) = e_address (the (by_uuid i u))" if "u \<in> live_in (by_uuid i) n" for u
    using that by (auto simp: live_in_def entry_at_def)
  moreover have "live_in (by_uuid i) n \<subseteq> net_members (by_uuid i) n" by (auto simp: live_in_def net_members_def)
  ultimately show "(case active_sets i n of None \<Rightarrow> {} | Some s \<Rightarrow> s) = (if n = [] then {} else addresses (by_uuid i) n)"
    by (auto simp: active_sets_def nu addresses_def)
qed

lemma finite_addresses: "finite (dom T) \<Longrightarrow> finite (addresses T n)"
  unfolding addresses_def by (rule finite_imageI, rule finite_subset [of _ "dom T"]) (auto simp: live_in_def)

lemma sameAddrSet_iff: "finite a \<Longrightarrow> finite b \<Longrightarrow> sameAddrSet a b \<longleftrightarrow> a = b"
  using card_subset_eq [of b a] by (auto simp: sameAddrSet_def)

text \<open>
  The deltas of two maps of address sets: networks that had no active address and have one, that
  had one and have none, and that have different ones.
\<close>

lemma net_deltas_spec:
  assumes fin: "\<And>n. finite (case p n of None \<Rightarrow> {} | Some s \<Rightarrow> s)" "\<And>n. finite (case q n of None \<Rightarrow> {} | Some s \<Rightarrow> s)"
  defines "a \<equiv> \<lambda>n. case p n of None \<Rightarrow> {} | Some s \<Rightarrow> s" and "b \<equiv> \<lambda>n. case q n of None \<Rightarrow> {} | Some s \<Rightarrow> s"
  shows "added (net_deltas p q) = {n. a n = {} \<and> b n \<noteq> {}}" "removed (net_deltas p q) = {n. a n \<noteq> {} \<and> b n = {}}"
    "churned (net_deltas p q) = {n. a n \<noteq> {} \<and> b n \<noteq> {} \<and> a n \<noteq> b n}"
proof -
  have dom: "n \<in> dom p \<union> dom q" if "a n \<noteq> {} \<or> b n \<noteq> {}" for n
    using that by (auto simp: a_def b_def split: option.splits)
  have c: "card (a n) = 0 \<longleftrightarrow> a n = {}" "card (b n) = 0 \<longleftrightarrow> b n = {}" "0 < card (a n) \<longleftrightarrow> a n \<noteq> {}"
    "0 < card (b n) \<longleftrightarrow> b n \<noteq> {}" "sameAddrSet (a n) (b n) \<longleftrightarrow> a n = b n" for n
    using fin by (simp_all add: a_def b_def sameAddrSet_iff card_gt_0_iff)
  have d: "net_deltas p q = \<lparr>added = {n \<in> dom p \<union> dom q. a n = {} \<and> b n \<noteq> {}},
    removed = {n \<in> dom p \<union> dom q. \<not> (a n = {} \<and> b n \<noteq> {}) \<and> a n \<noteq> {} \<and> b n = {}},
    churned = {n \<in> dom p \<union> dom q. \<not> (a n = {} \<and> b n \<noteq> {}) \<and> \<not> (a n \<noteq> {} \<and> b n = {}) \<and> a n \<noteq> b n}\<rparr>"
    unfolding net_deltas_def Let_def a_def [symmetric] b_def [symmetric] c ..
  show "added (net_deltas p q) = {n. a n = {} \<and> b n \<noteq> {}}" "removed (net_deltas p q) = {n. a n \<noteq> {} \<and> b n = {}}"
    "churned (net_deltas p q) = {n. a n \<noteq> {} \<and> b n \<noteq> {} \<and> a n \<noteq> b n}"
    using dom unfolding d by auto
qed

lemma addresses_empty [simp]: "addresses T n = {} \<longleftrightarrow> live_in T n = {}"
  by (simp add: addresses_def)

lemma ReplaceAll_run:
  assumes ok: "index_ok i" and g: "gauge_ok i" and dist: "distinct (map e_uuid es)"
  shows "by_uuid (snd (ReplaceAll es i)) = table_of es" and "index_ok (snd (ReplaceAll es i))"
    and "gauge_ok (snd (ReplaceAll es i))"
    and "fst (ReplaceAll es i) =
      \<lparr>added = {n. n \<noteq> [] \<and> addresses (by_uuid i) n = {} \<and> addresses (table_of es) n \<noteq> {}},
       removed = {n. n \<noteq> [] \<and> addresses (by_uuid i) n \<noteq> {} \<and> addresses (table_of es) n = {}},
       churned = {n. n \<noteq> [] \<and> addresses (by_uuid i) n \<noteq> {} \<and> addresses (table_of es) n \<noteq> {} \<and>
         addresses (by_uuid i) n \<noteq> addresses (table_of es) n}\<rparr>"
proof -
  let ?e = "i\<lparr>by_uuid := Map.empty, by_addr := Map.empty, net_uuid := Map.empty\<rparr>"
  let ?i = "fold indexLocked es ?e"
  let ?t = "dom (active_sets i) \<union> dom (active_sets ?i)"
  have "index_ok ?e" by (simp add: index_ok_def)
  then have run: "index_ok ?i" "by_uuid ?i = table_of es" "gauge ?i = gauge i"
    using fold_index_ok [of ?e es] dist by (simp_all add: table_of_def)
  have R: "ReplaceAll es i = (net_deltas (active_sets i) (active_sets ?i), refreshGaugeLocked ?t ?i)"
    by (simp add: ReplaceAll_def Let_def)
  show "by_uuid (snd (ReplaceAll es i)) = table_of es" "index_ok (snd (ReplaceAll es i))"
    unfolding R using run by simp_all
  have "gauge_ok (refreshGaugeLocked ?t ?i)"
  proof (rule gauge_refresh [OF run(1)])
    fix n
    assume n: "n \<noteq> []" "n \<notin> ?t"
    then have "net_members (by_uuid i) n = {}" "net_members (by_uuid ?i) n = {}"
      using active_sets_ok(1) [OF ok] active_sets_ok(1) [OF run(1)] by auto
    then have "live_in (by_uuid i) n = {}" "live_in (by_uuid ?i) n = {}"
      by (auto simp: live_in_def net_members_def)
    with g n(1) run(3) show "(case gauge ?i n of None \<Rightarrow> 0 | Some k \<Rightarrow> k) = card (live_in (by_uuid ?i) n)"
      by (simp add: gauge_ok_def)
  qed
  then show "gauge_ok (snd (ReplaceAll es i))" unfolding R by simp
  note as = active_sets_ok(2) [OF ok] active_sets_ok(2) [OF run(1)]
  have fin: "finite (addresses (by_uuid i) n)" "finite (addresses (table_of es) n)" for n
    using finite_addresses [OF index_okD(2) [OF ok]] finite_addresses [OF index_okD(2) [OF run(1)]] run(2) by simp_all
  note d = net_deltas_spec [of "active_sets i" "active_sets ?i", unfolded as run(2)]
  show "fst (ReplaceAll es i) =
      \<lparr>added = {n. n \<noteq> [] \<and> addresses (by_uuid i) n = {} \<and> addresses (table_of es) n \<noteq> {}},
       removed = {n. n \<noteq> [] \<and> addresses (by_uuid i) n \<noteq> {} \<and> addresses (table_of es) n = {}},
       churned = {n. n \<noteq> [] \<and> addresses (by_uuid i) n \<noteq> {} \<and> addresses (table_of es) n \<noteq> {} \<and>
         addresses (by_uuid i) n \<noteq> addresses (table_of es) n}\<rparr>"
    unfolding R using fin by (intro delta.equality) (auto simp: d)
qed

section \<open>The active list\<close>

definition live_uuids :: "(string \<rightharpoonup> Entry) \<Rightarrow> string set \<Rightarrow> string set" where
  "live_uuids T ns = (\<Union>n \<in> ns - {[]}. live_in T n)"

lemma distinct_concat_disjoint:
  "distinct ns \<Longrightarrow> (\<And>n. n \<in> set ns \<Longrightarrow> distinct (f n)) \<Longrightarrow>
   (\<And>m n. m \<in> set ns \<Longrightarrow> n \<in> set ns \<Longrightarrow> m \<noteq> n \<Longrightarrow> set (f m) \<inter> set (f n) = {}) \<Longrightarrow>
   distinct (concat (map f ns))"
proof (induction ns)
  case (Cons n ns)
  have "set (f n) \<inter> set (f m) = {}" if "m \<in> set ns" for m
    using Cons.prems(1,3) that by (metis distinct.simps(2) list.set_intros(1) list.set_intros(2))
  with Cons show ?case by auto
qed simp

text \<open>
  The list is the sorted multiset of the addresses of the active entries of the networks,
  whatever the iteration orders.
\<close>

lemma ActiveFIPs_multiset:
  assumes ok: "index_ok i" and ord: "ranges_over nets uuids networks i"
  shows "ActiveFIPsInNetworks nets uuids networks i =
    sorted_list_of_multiset (image_mset (\<lambda>u. e_address (the (by_uuid i u))) (mset_set (live_uuids (by_uuid i) (set networks))))"
proof (cases "networks = []")
  case True
  then show ?thesis by (simp add: ActiveFIPsInNetworks_def live_uuids_def)
next
  case False
  let ?f = "\<lambda>n. filter (\<lambda>u. live (entry_at i u)) (uuids n)"
  let ?us = "concat (map ?f nets)"
  have sets: "set (?f n) = (if n = [] then {} else live_in (by_uuid i) n)" if "n \<in> set nets" for n
    using that ord index_okD(4) [OF ok, of n]
    by (auto simp: ranges_over_def net_members_def live_in_def entry_at_def)
  have "distinct ?us"
  proof (rule distinct_concat_disjoint)
    show "set (?f m) \<inter> set (?f n) = {}" if "m \<in> set nets" "n \<in> set nets" "m \<noteq> n" for m n
      unfolding sets [OF that(1)] sets [OF that(2)] using that(3) by (auto simp: live_in_def)
  qed (use ord in \<open>auto simp: ranges_over_def\<close>)
  moreover have "set ?us = live_uuids (by_uuid i) (set networks)"
    using sets ord by (auto simp: live_uuids_def ranges_over_def split: if_splits)
  ultimately have us: "mset ?us = mset_set (live_uuids (by_uuid i) (set networks))"
    by (metis mset_set_set)
  have flat: "concat (map (\<lambda>n. map e_address (filter live (map (entry_at i) (uuids n)))) nets) =
      map (\<lambda>u. e_address (entry_at i u)) ?us"
    by (simp add: map_concat filter_map comp_def)
  have "\<forall>u \<in> set ?us. e_address (entry_at i u) = e_address (the (by_uuid i u))"
    by (auto simp: entry_at_def live_def entry_zero_def split: option.splits)
  then have "mset (map (\<lambda>u. e_address (entry_at i u)) ?us) =
      image_mset (\<lambda>u. e_address (the (by_uuid i u))) (mset ?us)"
    unfolding mset_map by (intro image_mset_cong) auto
  then have "sort (map (\<lambda>u. e_address (entry_at i u)) ?us) =
      sorted_list_of_multiset (image_mset (\<lambda>u. e_address (the (by_uuid i u))) (mset ?us))"
    by (metis sorted_list_of_multiset_mset)
  with False show ?thesis unfolding ActiveFIPsInNetworks_def flat us by simp
qed

lemma set_ActiveFIPs:
  assumes ok: "index_ok i" and ord: "ranges_over nets uuids networks i"
  shows "set (ActiveFIPsInNetworks nets uuids networks i) =
    {e_address e | u e. by_uuid i u = Some e \<and> live e \<and> e_network e \<in> set networks - {[]}}"
proof -
  have "live_uuids (by_uuid i) (set networks) \<subseteq> dom (by_uuid i)" by (auto simp: live_uuids_def live_in_def)
  then have "finite (live_uuids (by_uuid i) (set networks))"
    using index_okD(2) [OF ok] finite_subset by blast
  then show ?thesis
    unfolding ActiveFIPs_multiset [OF ok ord] by (force simp: live_uuids_def live_in_def image_iff)
qed

end
