(* ===== verification/Fips_Feed.thy ===== *)
theory Fips_Feed
  imports Fips_Index Go_Json
begin

text \<open>
  The two feeds of the floating-IP index: the subscriber to platform events
  (\<^verbatim>\<open>internal/fips/subscriber.go\<close>) and the poller (\<^verbatim>\<open>internal/fips/poller.go\<close>), with the
  counters of \<^verbatim>\<open>internal/fips/metrics.go\<close>. A feed step takes the index and the counters and
  returns them changed, with the networks it passes to the republish callback, in order.
  Messages of the bus and answers of the source are arguments.
\<close>

section \<open>Counters\<close>

record fips_metrics =
  subscriberEventsTotal :: "string \<Rightarrow> nat"
  pollerTicksTotal :: "string \<times> string \<Rightarrow> nat"
  pollerChanges :: "string \<Rightarrow> nat"

definition metrics_new :: fips_metrics where
  "metrics_new = \<lparr>subscriberEventsTotal = (\<lambda>_. 0), pollerTicksTotal = (\<lambda>_. 0), pollerChanges = (\<lambda>_. 0)\<rparr>"

definition count_event :: "string \<Rightarrow> fips_metrics \<Rightarrow> fips_metrics" where
  "count_event k m = m\<lparr>subscriberEventsTotal := (subscriberEventsTotal m)(k := Suc (subscriberEventsTotal m k))\<rparr>"

definition count_tick :: "string \<Rightarrow> string \<Rightarrow> fips_metrics \<Rightarrow> fips_metrics" where
  "count_tick why res m =
     m\<lparr>pollerTicksTotal := (pollerTicksTotal m)((why, res) := Suc (pollerTicksTotal m (why, res)))\<rparr>"

definition count_changes :: "string \<Rightarrow> nat \<Rightarrow> fips_metrics \<Rightarrow> fips_metrics" where
  "count_changes k n m = m\<lparr>pollerChanges := (pollerChanges m)(k := pollerChanges m k + n)\<rparr>"

section \<open>The subscriber\<close>

record platformEvent =
  ev_ts :: i64
  ev_kind :: string
  ev_subject :: string
  ev_project :: string
  ev_meta :: "string \<rightharpoonup> string"

definition event_zero :: platformEvent where
  "event_zero = \<lparr>ev_ts = 0, ev_kind = [], ev_subject = [], ev_project = [], ev_meta = Map.empty\<rparr>"

text \<open>A JSON object of strings decodes into the map it finds; \<open>null\<close> makes it a nil map.\<close>

fun add_strs :: "(string \<times> json) list \<Rightarrow> (string \<rightharpoonup> string) \<Rightarrow> (string \<rightharpoonup> string) option" where
  "add_strs [] m = Some m"
| "add_strs ((k, JStr s) # kvs) m = add_strs kvs (m(k \<mapsto> s))"
| "add_strs ((k, JNull) # kvs) m = add_strs kvs (m(k \<mapsto> []))"
| "add_strs ((k, _) # kvs) m = None"

definition set_meta :: "platformEvent \<Rightarrow> json \<Rightarrow> platformEvent option" where
  "set_meta ev j = (case j of
     JObj kvs \<Rightarrow> map_option (\<lambda>m. ev\<lparr>ev_meta := m\<rparr>) (add_strs kvs (ev_meta ev))
   | JNull \<Rightarrow> Some (ev\<lparr>ev_meta := Map.empty\<rparr>)
   | _ \<Rightarrow> None)"

definition event_fields :: "platformEvent field list" where
  "event_fields =
     [(''TsUnixNano'', set_signed 64 (\<lambda>n. ev_ts_update (\<lambda>_. word_of_int n))),
      (''Kind'', set_str (\<lambda>s. ev_kind_update (\<lambda>_. s))),
      (''Subject'', set_str (\<lambda>s. ev_subject_update (\<lambda>_. s))),
      (''ProjectUUID'', set_str (\<lambda>s. ev_project_update (\<lambda>_. s))),
      (''Meta'', set_meta)]"

definition meta_get :: "platformEvent \<Rightarrow> string \<Rightarrow> string" where
  "meta_get ev k = (case ev_meta ev k of None \<Rightarrow> [] | Some s \<Rightarrow> s)"

definition entry_of_event :: "platformEvent \<Rightarrow> Entry" where
  "entry_of_event ev =
     \<lparr>e_uuid = ev_subject ev, e_project = ev_project ev, e_network = meta_get ev ''network_uuid'',
      e_address = meta_get ev ''address'', e_mapped = False, e_target_kind = meta_get ev ''target_kind'',
      e_target = meta_get ev ''target''\<rparr>"

type_synonym feed = "Index \<times> fips_metrics"

text \<open>
  \<open>cb\<close> says that a callback is set. The result is the networks the callback gets, at most one.
\<close>

definition handle_event :: "bool \<Rightarrow> platformEvent \<Rightarrow> feed \<Rightarrow> string list \<times> feed" where
  "handle_event cb ev = (\<lambda>(i, m).
     let entry = entry_of_event ev;
         fire = (\<lambda>n. if n \<noteq> [] \<and> cb then [n] else []) in
     if ev_kind ev = ''floating_ip.allocated'' then
       (let e = entry\<lparr>e_mapped := False, e_target_kind := [], e_target := []\<rparr>; (_, i') = Upsert e i in
        (fire (e_network e), (i', count_event ''allocated'' m)))
     else if ev_kind ev = ''floating_ip.mapped'' then
       (let e = entry\<lparr>e_mapped := True\<rparr>; (_, i') = Upsert e i in
        (fire (e_network e), (i', count_event ''mapped'' m)))
     else if ev_kind ev = ''floating_ip.unmapped'' then
       (let e = entry\<lparr>e_mapped := False, e_target_kind := [], e_target := []\<rparr>; (_, i') = Upsert e i in
        (fire (e_network e), (i', count_event ''unmapped'' m)))
     else if ev_kind ev = ''floating_ip.released'' then
       (let (prev, i') = Delete_entry (ev_subject ev) i in
        (fire (e_network prev), (i', count_event ''released'' m)))
     else ([], (i, count_event ''unknown'' m)))"

definition handle :: "bool \<Rightarrow> etcd_value \<Rightarrow> feed \<Rightarrow> string list \<times> feed" where
  "handle cb data s = (case unmarshal event_fields event_zero data of
     None \<Rightarrow> ([], s)
   | Some ev \<Rightarrow> handle_event cb ev s)"

text \<open>
  \<open>NewSubscriber\<close> refuses a nil connection or index. \<open>Run\<close> subscribes, flushes, and then handles the
  messages that arrive until the context is cancelled (\<open>ctxErr\<close>); \<open>subscribe\<close> and \<open>flush\<close> are the calls of
  the client.
\<close>

definition FipSubject :: string where
  "FipSubject = ''weft.events.floating_ip.>''"

definition NewSubscriber :: "bool \<Rightarrow> bool \<Rightarrow> (string, unit) result" where
  "NewSubscriber conn idx =
     (if \<not> conn then Inl ''fips.NewSubscriber: nil nats conn''
      else if \<not> idx then Inl ''fips.NewSubscriber: nil index''
      else Inr ())"

fun handle_all :: "bool \<Rightarrow> etcd_value list \<Rightarrow> feed \<Rightarrow> string list \<times> feed" where
  "handle_all cb [] s = ([], s)"
| "handle_all cb (x # xs) s =
     (let (fired, s1) = handle cb x s; (fired', s2) = handle_all cb xs s1 in (fired @ fired', s2))"

definition subscriber_Run ::
  "bool \<Rightarrow> (string, unit) result \<Rightarrow> (string, unit) result \<Rightarrow> etcd_value list \<Rightarrow> string \<Rightarrow> feed \<Rightarrow> string \<times> string list \<times> feed" where
  "subscriber_Run cb subscribe flush msgs ctxErr s =
     (case subscribe of
        Inl e \<Rightarrow> (''subscribe '' @ FipSubject @ '': '' @ e, [], s)
      | Inr _ \<Rightarrow>
          (case flush of
             Inl e \<Rightarrow> (''flush after subscribe: '' @ e, [], s)
           | Inr _ \<Rightarrow> (ctxErr, handle_all cb msgs s)))"

section \<open>The poller\<close>

record SourceFIP =
  src_uuid :: string
  src_address :: string
  src_network :: string
  src_project :: string
  src_mapped_to :: string
  src_status :: string

definition poller_every :: "i64 \<Rightarrow> i64" where
  "poller_every every = (if sint every \<le> 0 then 30 * 1000000000 else every)"

definition entry_of_source :: "SourceFIP \<Rightarrow> Entry" where
  "entry_of_source it =
     \<lparr>e_uuid = src_uuid it, e_project = src_project it, e_network = src_network it,
      e_address = src_address it, e_mapped = (src_status it = ''active''), e_target_kind = [],
      e_target = src_mapped_to it\<rparr>"

text \<open>The walk over the three sets, each in the order \<open>ord\<close> of the runtime, with the set of networks seen.\<close>

fun fire_once :: "string set \<Rightarrow> string list \<Rightarrow> string list" where
  "fire_once seen [] = []"
| "fire_once seen (n # ns) = (if n \<in> seen then fire_once seen ns else n # fire_once (insert n seen) ns)"

definition tick :: "bool \<Rightarrow> (string set \<Rightarrow> string list) \<Rightarrow> string \<Rightarrow> (string, SourceFIP list) result \<Rightarrow>
    feed \<Rightarrow> (string, unit) result \<times> string list \<times> feed" where
  "tick cb ord why src = (\<lambda>(i, m). case src of
     Inl err \<Rightarrow> (Inl err, [], (i, count_tick why ''err'' m))
   | Inr items \<Rightarrow>
       (let m1 = count_tick why ''ok'' m;
            (d, i') = ReplaceAll (map entry_of_source items) i;
            m2 = count_changes ''churned'' (card (churned d))
                   (count_changes ''removed'' (card (removed d)) (count_changes ''added'' (card (added d)) m1));
            fired = (if 0 < card (added d) + card (removed d) + card (churned d) \<and> cb
                     then fire_once {} (ord (added d) @ ord (removed d) @ ord (churned d)) else []) in
        (Inr (), fired, (i', m2))))"

definition Seed :: "bool \<Rightarrow> (string set \<Rightarrow> string list) \<Rightarrow> (string, SourceFIP list) result \<Rightarrow>
    feed \<Rightarrow> (string, unit) result \<times> string list \<times> feed" where
  "Seed cb ord src = tick cb ord ''seed'' src"

text \<open>
  \<open>Run\<close>: the seed, then a tick per firing of the timer until the context is cancelled; the error of
  the seed is returned. \<open>srcs\<close> is the answers of the source from the second pass on.
\<close>

fun poller_refresh :: "bool \<Rightarrow> (string set \<Rightarrow> string list) \<Rightarrow> (string, SourceFIP list) result list \<Rightarrow> feed \<Rightarrow> string list \<times> feed" where
  "poller_refresh cb ord [] s = ([], s)"
| "poller_refresh cb ord (src # srcs) s =
     (let (_, fired, s1) = tick cb ord ''refresh'' src s; (fired', s2) = poller_refresh cb ord srcs s1 in
      (fired @ fired', s2))"

definition poller_run :: "bool \<Rightarrow> (string set \<Rightarrow> string list) \<Rightarrow> (string, SourceFIP list) result \<Rightarrow> (string, SourceFIP list) result list \<Rightarrow>
    feed \<Rightarrow> (string, unit) result \<times> string list \<times> feed" where
  "poller_run cb ord seed srcs s =
     (let (seedErr, fired, s1) = tick cb ord ''seed'' seed s; (fired', s2) = poller_refresh cb ord srcs s1 in
      (seedErr, fired @ fired', s2))"

section \<open>What a feed step does to the table\<close>

definition event_effect :: "platformEvent \<Rightarrow> (string \<rightharpoonup> Entry) \<Rightarrow> (string \<rightharpoonup> Entry)" where
  "event_effect ev T =
     (if ev_kind ev \<in> {''floating_ip.allocated'', ''floating_ip.unmapped''} then
        T(ev_subject ev \<mapsto> (entry_of_event ev)\<lparr>e_mapped := False, e_target_kind := [], e_target := []\<rparr>)
      else if ev_kind ev = ''floating_ip.mapped'' then T(ev_subject ev \<mapsto> (entry_of_event ev)\<lparr>e_mapped := True\<rparr>)
      else if ev_kind ev = ''floating_ip.released'' then T(ev_subject ev := None)
      else T)"

abbreviation feed_ok :: "feed \<Rightarrow> bool" where
  "feed_ok s \<equiv> index_ok (fst s) \<and> gauge_ok (fst s)"

lemma entry_of_event_sels [simp]:
  "e_uuid (entry_of_event ev) = ev_subject ev" "e_mapped (entry_of_event ev) = False"
  by (simp_all add: entry_of_event_def)

lemma handle_event_table:
  assumes ok: "feed_ok s" and subj: "ev_subject ev \<noteq> []"
  shows "by_uuid (fst (snd (handle_event cb ev s))) = event_effect ev (by_uuid (fst s))"
    and "feed_ok (snd (handle_event cb ev s))"
proof -
  obtain i m where s: "s = (i, m)" by fastforce
  have up: "by_uuid (snd (Upsert e i)) = (by_uuid i)(ev_subject ev \<mapsto> e) \<and> index_ok (snd (Upsert e i)) \<and> gauge_ok (snd (Upsert e i))"
    if "e_uuid e = ev_subject ev" for e
    using that Upsert_by_uuid [of i e] Upsert_ok [of i e] Upsert_gauge [of i e] ok subj s by simp
  have del: "by_uuid (snd (Delete_entry (ev_subject ev) i)) = (by_uuid i)(ev_subject ev := None) \<and>
      index_ok (snd (Delete_entry (ev_subject ev) i)) \<and> gauge_ok (snd (Delete_entry (ev_subject ev) i))"
    using Delete_ok [of i "ev_subject ev"] ok s by simp
  show "by_uuid (fst (snd (handle_event cb ev s))) = event_effect ev (by_uuid (fst s))"
    using up del by (simp add: handle_event_def event_effect_def s Let_def split_beta)
  show "feed_ok (snd (handle_event cb ev s))"
    using up del ok by (simp add: handle_event_def s Let_def split_beta)
qed

lemma fire_once_distinct: "distinct (fire_once seen ns) \<and> set (fire_once seen ns) = set ns - seen"
  by (induction seen ns rule: fire_once.induct) auto

lemma tick_ok:
  assumes ok: "feed_ok s" and dist: "distinct (map src_uuid items)"
  shows "by_uuid (fst (snd (snd (tick cb ord why (Inr items) s)))) = table_of (map entry_of_source items)"
    and "feed_ok (snd (snd (tick cb ord why (Inr items) s)))"
proof -
  obtain i m where s: "s = (i, m)" by fastforce
  have "distinct (map e_uuid (map entry_of_source items))" using dist by (simp add: entry_of_source_def comp_def)
  with ReplaceAll_run [of i] ok s show
    "by_uuid (fst (snd (snd (tick cb ord why (Inr items) s)))) = table_of (map entry_of_source items)"
    "feed_ok (snd (snd (tick cb ord why (Inr items) s)))"
    by (auto simp: tick_def Let_def split_beta)
qed

lemma finite_addressed: "finite (dom T) \<Longrightarrow> finite {n. addresses T n \<noteq> {}}"
proof -
  assume "finite (dom T)"
  have "{n. addresses T n \<noteq> {}} \<subseteq> (\<lambda>u. e_network (the (T u))) ` dom T"
    by (auto simp: live_in_def image_iff) force
  with \<open>finite (dom T)\<close> show ?thesis by (meson finite_imageI finite_subset)
qed

end
