(* ===== verification/Fips_Properties.thy ===== *)
theory Fips_Properties
  imports Fips_Feed
begin

text \<open>
  The properties of the floating-IP pipeline: the index under any interleaving of events and
  polls, the list the publisher reads, what the republish callback is told, and two cases in
  which it is told too little.
\<close>

section \<open>Reachable feeds\<close>

inductive feed_step :: "feed \<Rightarrow> feed \<Rightarrow> bool" where
  step_event: "unmarshal event_fields event_zero data = Some ev \<Longrightarrow> ev_subject ev \<noteq> [] \<Longrightarrow>
    handle cb data s = (fired, s') \<Longrightarrow> feed_step s s'"
| step_junk: "unmarshal event_fields event_zero data = None \<Longrightarrow> handle cb data s = (fired, s') \<Longrightarrow> feed_step s s'"
| step_poll: "distinct (map src_uuid items) \<Longrightarrow> tick cb ord why (Inr items) s = (r, fired, s') \<Longrightarrow> feed_step s s'"
| step_poll_error: "tick cb ord why (Inl e) s = (r, fired, s') \<Longrightarrow> feed_step s s'"

abbreviation feed_reachable :: "feed \<Rightarrow> bool" where
  "feed_reachable s \<equiv> \<exists>m. feed_step\<^sup>*\<^sup>* (index_new, m) s"

lemma tick_error: "tick cb ord why (Inl e) (i, m) = (Inl e, [], (i, count_tick why ''err'' m))"
  by (simp add: tick_def)

lemma feed_step_ok: "feed_step s s' \<Longrightarrow> feed_ok s \<Longrightarrow> feed_ok s'"
proof (induction rule: feed_step.induct)
  case (step_event data ev cb s fired s')
  then have "s' = snd (handle_event cb ev s)" by (simp add: handle_def)
  with handle_event_table(2) [OF step_event.prems step_event.hyps(2)] show ?case by simp
next
  case (step_junk data cb s fired s')
  then show ?case by (simp add: handle_def)
next
  case (step_poll items cb ord why s r fired s')
  from step_poll.hyps(2) have "s' = snd (snd (tick cb ord why (Inr items) s))" by simp
  then show ?case by (simp only: tick_ok(2) [OF step_poll.prems step_poll.hyps(1)])
next
  case (step_poll_error cb ord why e s r fired s')
  then show ?case by (cases s) (auto simp: tick_error)
qed

lemma feed_reachable_ok: "feed_reachable s \<Longrightarrow> feed_ok s"
proof -
  have "feed_step\<^sup>*\<^sup>* s0 s \<Longrightarrow> feed_ok s0 \<Longrightarrow> feed_ok s" for s0
    by (induction rule: rtranclp_induct) (metis feed_step_ok)+
  then show "feed_reachable s \<Longrightarrow> feed_ok s" by force
qed

text \<open>
  C16. In every state the subscriber and the poller can reach, in any interleaving, with malformed
  messages and failed polls in between, the gauge of a network is the length of the list of its
  active floating IPs. (Events carry a uuid, and snapshots carry each uuid once.)
\<close>

theorem fips_gauge_tracks_lookup:
  assumes "feed_reachable s" and "n \<noteq> []" and "ranges_over nets uuids [n] (fst s)"
  shows "(case gauge (fst s) n of None \<Rightarrow> 0 | Some k \<Rightarrow> k) = length (ActiveFIPsInNetworks nets uuids [n] (fst s))"
proof -
  have ok: "index_ok (fst s)" "gauge_ok (fst s)" using feed_reachable_ok [OF assms(1)] by blast+
  have "live_in (by_uuid (fst s)) n \<subseteq> dom (by_uuid (fst s))" by (auto simp: live_in_def)
  then have "finite (live_in (by_uuid (fst s)) n)" using index_okD(2) [OF ok(1)] finite_subset by blast
  moreover have "length (sorted_list_of_multiset M) = size M" for M :: "string multiset"
    by (metis mset_sorted_list_of_multiset size_mset)
  ultimately show ?thesis
    using ok(2) assms(2) by (simp add: ActiveFIPs_multiset [OF ok(1) assms(3)] live_uuids_def gauge_ok_def)
qed

definition event_example :: "string \<Rightarrow> string \<Rightarrow> string \<Rightarrow> string \<Rightarrow> etcd_value" where
  "event_example kind u n a = Doc (JObj [(''Kind'', JStr kind), (''Subject'', JStr u),
     (''Meta'', JObj [(''network_uuid'', JStr n), (''address'', JStr a)])])"

lemmas event_eval = event_example_def event_fields_def event_zero_def find_field_def set_str_def set_meta_def
  entry_of_event_def meta_get_def

definition feed_example :: feed where
  "feed_example = snd (handle True (event_example ''floating_ip.mapped'' ''f1'' ''n1'' ''203.0.113.7'') (index_new, metrics_new))"

lemma feed_example_reachable: "feed_reachable feed_example"
proof -
  have "feed_step (index_new, metrics_new) feed_example"
    unfolding feed_example_def
    by (rule step_event [OF _ _ prod.collapse [symmetric]]) (simp add: event_eval, simp)
  then show ?thesis by blast
qed

lemma feed_example_table:
  "by_uuid (fst feed_example) = [''f1'' \<mapsto> \<lparr>e_uuid = ''f1'', e_project = [], e_network = ''n1'', e_address = ''203.0.113.7'',
     e_mapped = True, e_target_kind = [], e_target = []\<rparr>]" "net_set (fst feed_example) ''n1'' = {''f1''}"
  by (simp_all add: feed_example_def handle_def handle_event_def event_eval index_new_def Upsert_def indexLocked_def
      refreshGaugeLocked_def entry_at_def entry_zero_def net_set_def Let_def)

theorem fips_gauge_tracks_lookup_witness:
  "(case gauge (fst feed_example) ''n1'' of None \<Rightarrow> 0 | Some k \<Rightarrow> k) =
     length (ActiveFIPsInNetworks [''n1''] (\<lambda>_. [''f1'']) [''n1''] (fst feed_example))"
  by (rule fips_gauge_tracks_lookup [OF feed_example_reachable])
     (simp_all add: ranges_over_def feed_example_table)

text \<open>
  The list of active floating IPs the publisher reads is the sorted multiset of the addresses
  of the mapped entries of the given networks, whatever order the runtime ranges over its maps
  in: the same state gives the same bytes.
\<close>

theorem fips_lookup_deterministic:
  assumes "feed_reachable s" and "ranges_over nets uuids networks (fst s)" and "ranges_over nets' uuids' networks (fst s)"
  shows "ActiveFIPsInNetworks nets uuids networks (fst s) = ActiveFIPsInNetworks nets' uuids' networks (fst s) \<and>
    sorted (ActiveFIPsInNetworks nets uuids networks (fst s)) \<and>
    set (ActiveFIPsInNetworks nets uuids networks (fst s)) =
      {e_address e | u e. by_uuid (fst s) u = Some e \<and> e_mapped e \<and> e_address e \<noteq> [] \<and> e_network e \<in> set networks - {[]}}"
proof -
  have ok: "index_ok (fst s)" using feed_reachable_ok [OF assms(1)] by blast
  then show ?thesis
    using ActiveFIPs_multiset [OF ok assms(2)] ActiveFIPs_multiset [OF ok assms(3)] set_ActiveFIPs [OF ok assms(2)]
    by (simp add: live_def)
qed

theorem fips_lookup_deterministic_witness:
  "set (ActiveFIPsInNetworks [''n1'', ''n2''] (\<lambda>n. if n = ''n1'' then [''f1''] else []) [''n2'', ''n1'', ''n1''] (fst feed_example)) =
     {e_address e | u e. by_uuid (fst feed_example) u = Some e \<and> e_mapped e \<and> e_address e \<noteq> [] \<and> e_network e \<in> {''n2'', ''n1''} - {[]}}"
proof -
  have "net_set (fst feed_example) ''n2'' = {}"
    by (simp add: feed_example_def handle_def handle_event_def event_eval index_new_def Upsert_def indexLocked_def
      refreshGaugeLocked_def entry_at_def entry_zero_def net_set_def Let_def)
  then have r: "ranges_over [''n1'', ''n2''] (\<lambda>n. if n = ''n1'' then [''f1''] else []) [''n2'', ''n1'', ''n1''] (fst feed_example)"
    by (simp add: ranges_over_def feed_example_table insert_commute)
  from fips_lookup_deterministic [OF feed_example_reachable r r] show ?thesis by simp
qed

section \<open>The subscriber\<close>

definition handle_all :: "bool \<Rightarrow> etcd_value list \<Rightarrow> feed \<Rightarrow> feed" where
  "handle_all cb ds s = fold (\<lambda>d s. snd (handle cb d s)) ds s"

definition events_of :: "etcd_value list \<Rightarrow> platformEvent list" where
  "events_of ds = List.map_filter (unmarshal event_fields event_zero) ds"

lemma handle_all_table:
  "feed_ok s \<Longrightarrow> (\<forall>ev \<in> set (events_of ds). ev_subject ev \<noteq> []) \<Longrightarrow>
   by_uuid (fst (handle_all cb ds s)) = fold event_effect (events_of ds) (by_uuid (fst s)) \<and> feed_ok (handle_all cb ds s)"
proof (induction ds arbitrary: s)
  case (Cons d ds)
  show ?case
  proof (cases "unmarshal event_fields event_zero d")
    case None
    with Cons show ?thesis by (simp add: handle_all_def events_of_def handle_def)
  next
    case (Some ev)
    with Cons.prems have subj: "ev_subject ev \<noteq> []" by (simp add: events_of_def)
    note step = handle_event_table [OF Cons.prems(1) subj, of cb]
    have "\<forall>ev \<in> set (events_of ds). ev_subject ev \<noteq> []" using Cons.prems(2) Some by (simp add: events_of_def)
    with Cons.IH [OF step(2)] step(1) Some show ?thesis
      by (simp add: handle_all_def events_of_def handle_def)
  qed
qed (simp add: handle_all_def events_of_def)

lemma event_effect_other: "ev_subject ev \<noteq> u \<Longrightarrow> event_effect ev T u = T u"
  by (simp add: event_effect_def)

lemma fold_event_effect_other: "\<forall>ev \<in> set evs. ev_subject ev \<noteq> u \<Longrightarrow> fold event_effect evs T u = T u"
  by (induction evs arbitrary: T) (auto simp: event_effect_other)

text \<open>
  The last event of a floating IP decides what the index holds for it: mapped with the network,
  address and target of the event, tracked but not active after allocated and unmapped, gone after
  released. Malformed messages and events of other floating IPs in between change nothing.
\<close>

theorem last_event_decides:
  assumes "feed_reachable s" and "\<forall>ev \<in> set (events_of ds). ev_subject ev \<noteq> []"
    and "events_of ds = before @ ev # after" and "\<forall>x \<in> set after. ev_subject x \<noteq> ev_subject ev"
  shows "by_uuid (fst (handle_all cb ds s)) (ev_subject ev) =
    (if ev_kind ev = ''floating_ip.mapped'' then Some ((entry_of_event ev)\<lparr>e_mapped := True\<rparr>)
     else if ev_kind ev \<in> {''floating_ip.allocated'', ''floating_ip.unmapped''}
       then Some ((entry_of_event ev)\<lparr>e_mapped := False, e_target_kind := [], e_target := []\<rparr>)
     else if ev_kind ev = ''floating_ip.released'' then None
     else fold event_effect before (by_uuid (fst s)) (ev_subject ev))"
proof -
  have "by_uuid (fst (handle_all cb ds s)) (ev_subject ev) =
    event_effect ev (fold event_effect before (by_uuid (fst s))) (ev_subject ev)"
    using handle_all_table [OF feed_reachable_ok [OF assms(1)] assms(2)] fold_event_effect_other [OF assms(4)]
    by (simp add: assms(3))
  then show ?thesis by (auto simp: event_effect_def)
qed

definition messages_example :: "etcd_value list" where
  "messages_example = [event_example ''floating_ip.mapped'' ''f1'' ''n1'' ''203.0.113.7'', Junk ''?'',
     event_example ''floating_ip.released'' ''f1'' [] [], event_example ''floating_ip.mapped'' ''f2'' ''n1'' ''203.0.113.8'']"

theorem last_event_decides_witness:
  "by_uuid (fst (handle_all True messages_example (index_new, metrics_new))) ''f1'' = None"
proof -
  have r: "feed_reachable (index_new, metrics_new)" by blast
  have eq: "events_of messages_example =
      [event_zero\<lparr>ev_kind := ''floating_ip.mapped'', ev_subject := ''f1'', ev_meta := [''network_uuid'' \<mapsto> ''n1'', ''address'' \<mapsto> ''203.0.113.7'']\<rparr>] @
      event_zero\<lparr>ev_kind := ''floating_ip.released'', ev_subject := ''f1'', ev_meta := [''network_uuid'' \<mapsto> [], ''address'' \<mapsto> []]\<rparr> #
      [event_zero\<lparr>ev_kind := ''floating_ip.mapped'', ev_subject := ''f2'', ev_meta := [''network_uuid'' \<mapsto> ''n1'', ''address'' \<mapsto> ''203.0.113.8'']\<rparr>]"
    by (simp add: events_of_def messages_example_def event_eval map_filter_simps)
  then have subj: "\<forall>ev \<in> set (events_of messages_example). ev_subject ev \<noteq> []" by simp
  show ?thesis using last_event_decides [OF r subj eq, of True] by simp
qed

lemma addresses_unchanged:
  "\<forall>u. T u \<noteq> T' u \<longrightarrow> (\<forall>e. T u = Some e \<longrightarrow> e_network e \<noteq> n) \<and> (\<forall>e. T' u = Some e \<longrightarrow> e_network e \<noteq> n) \<Longrightarrow>
   addresses T n = addresses T' n"
proof -
  assume a: "\<forall>u. T u \<noteq> T' u \<longrightarrow> (\<forall>e. T u = Some e \<longrightarrow> e_network e \<noteq> n) \<and> (\<forall>e. T' u = Some e \<longrightarrow> e_network e \<noteq> n)"
  have "u \<in> live_in T n \<longleftrightarrow> u \<in> live_in T' n" for u
    using a by (cases "T u = T' u") (auto simp: live_in_def)
  then have "live_in T n = live_in T' n" by blast
  moreover have "T u = T' u" if "u \<in> live_in T n" for u using that a by (fastforce simp: live_in_def)
  ultimately show ?thesis by (simp add: addresses_def)
qed

text \<open>
  A handled event is passed to the republish callback for every network whose set of active
  addresses it changes, as long as it does not move the floating IP from one network to another.
\<close>

theorem event_fires_changed_network:
  assumes "feed_reachable s" and "ev_subject ev \<noteq> []"
    and "\<forall>e. by_uuid (fst s) (ev_subject ev) = Some e \<longrightarrow> ev_kind ev \<noteq> ''floating_ip.released'' \<longrightarrow>
      e_network e = meta_get ev ''network_uuid''"
    and "handle_event True ev s = (fired, s')"
  shows "{n. n \<noteq> [] \<and> addresses (by_uuid (fst s)) n \<noteq> addresses (by_uuid (fst s')) n} \<subseteq> set fired"
proof -
  obtain i m where s: "s = (i, m)" by fastforce
  let ?T = "by_uuid (fst s)" and ?u = "ev_subject ev"
  have ok: "feed_ok s" using assms(1) by (rule feed_reachable_ok)
  have T': "by_uuid (fst s') = event_effect ev ?T"
    using handle_event_table(1) [OF ok assms(2), of True] assms(4) by simp
  have "addresses ?T n = addresses (event_effect ev ?T) n" if n: "n \<noteq> []" "n \<notin> set fired" for n
  proof (rule addresses_unchanged, intro allI impI)
    fix u
    assume ne: "?T u \<noteq> event_effect ev ?T u"
    then have u: "u = ?u" by (metis event_effect_other)
    show "(\<forall>e. ?T u = Some e \<longrightarrow> e_network e \<noteq> n) \<and> (\<forall>e. event_effect ev ?T u = Some e \<longrightarrow> e_network e \<noteq> n)"
    proof (cases "ev_kind ev = ''floating_ip.released''")
      case True
      have "fired = (if e_network (entry_at i ?u) \<noteq> [] then [e_network (entry_at i ?u)] else [])"
        using assms(4) True Delete_ok [of i ?u] ok by (auto simp: handle_event_def s Let_def split_beta)
      with n True u show ?thesis by (auto simp: event_effect_def entry_at_def s split: if_splits)
    next
      case False
      with ne u have k: "ev_kind ev \<in> {''floating_ip.allocated'', ''floating_ip.mapped'', ''floating_ip.unmapped''}"
        by (auto simp: event_effect_def split: if_splits)
      have net: "e_network (entry_of_event ev) = meta_get ev ''network_uuid''" by (simp add: entry_of_event_def)
      have "fired = (if meta_get ev ''network_uuid'' \<noteq> [] then [meta_get ev ''network_uuid''] else [])"
        using assms(4) k net by (auto simp: handle_event_def s Let_def split_beta)
      with n False k u net assms(3) show ?thesis by (auto simp: event_effect_def split: if_splits)
    qed
  qed
  then show ?thesis unfolding T' by blast
qed

theorem event_fires_changed_network_witness:
  "{n. n \<noteq> [] \<and> addresses (by_uuid (fst feed_example)) n \<noteq> addresses (by_uuid (fst (snd (handle_event True
      (event_zero\<lparr>ev_kind := ''floating_ip.released'', ev_subject := ''f1''\<rparr>) feed_example)))) n} \<subseteq> {''n1''}"
proof -
  have "fst (handle_event True (event_zero\<lparr>ev_kind := ''floating_ip.released'', ev_subject := ''f1''\<rparr>) feed_example) = [''n1'']"
    using feed_example_table(1)
    by (simp add: handle_event_def event_zero_def Delete_entry_def Let_def split_beta)
  with event_fires_changed_network [OF feed_example_reachable _ _ prod.collapse [symmetric],
      of "event_zero\<lparr>ev_kind := ''floating_ip.released'', ev_subject := ''f1''\<rparr>"]
  show ?thesis by (simp add: event_zero_def)
qed

text \<open>
  An event that moves an active floating IP to another network fires the callback for the new
  network only: the old network has lost its address, and nobody is told. The next poll does not
  repair it, because it finds the index already up to date.
\<close>

theorem moved_fip_old_network_not_told:
  "let (fired, s') = handle True (event_example ''floating_ip.mapped'' ''f1'' ''n2'' ''203.0.113.7'') feed_example in
   fired = [''n2''] \<and> addresses (by_uuid (fst feed_example)) ''n1'' = {''203.0.113.7''} \<and>
   addresses (by_uuid (fst s')) ''n1'' = {} \<and>
   fst (ReplaceAll [entry_of_source \<lparr>src_uuid = ''f1'', src_address = ''203.0.113.7'', src_network = ''n2'',
     src_project = [], src_mapped_to = [], src_status = ''active''\<rparr>] (fst s')) =
     \<lparr>added = {}, removed = {}, churned = {}\<rparr>"
proof -
  let ?s' = "snd (handle True (event_example ''floating_ip.mapped'' ''f1'' ''n2'' ''203.0.113.7'') feed_example)"
  have dec: "unmarshal event_fields event_zero (event_example ''floating_ip.mapped'' ''f1'' ''n2'' ''203.0.113.7'') =
      Some (event_zero\<lparr>ev_kind := ''floating_ip.mapped'', ev_subject := ''f1'',
        ev_meta := [''network_uuid'' \<mapsto> ''n2'', ''address'' \<mapsto> ''203.0.113.7'']\<rparr>)" (is "_ = Some ?ev")
    by (simp add: event_eval)
  have h: "handle True (event_example ''floating_ip.mapped'' ''f1'' ''n2'' ''203.0.113.7'') feed_example = handle_event True ?ev feed_example"
    using dec by (simp add: handle_def)
  have fired: "fst (handle_event True ?ev feed_example) = [''n2'']"
    by (cases feed_example) (simp add: handle_event_def event_zero_def entry_of_event_def meta_get_def Let_def split_beta)
  have T': "by_uuid (fst ?s') = event_effect ?ev (by_uuid (fst feed_example))"
    unfolding h using handle_event_table(1) [OF feed_reachable_ok [OF feed_example_reachable]] by (simp add: event_zero_def)
  have live: "live_in (by_uuid (fst feed_example)) ''n1'' = {''f1''}" "live_in (by_uuid (fst ?s')) ''n1'' = {}"
    unfolding T' feed_example_table(1)
    by (auto simp: live_in_def live_def event_effect_def event_zero_def entry_of_event_def meta_get_def split: if_splits)
  let ?e = "entry_of_source \<lparr>src_uuid = ''f1'', src_address = ''203.0.113.7'', src_network = ''n2'',
     src_project = [], src_mapped_to = [], src_status = ''active''\<rparr>"
  have ok: "feed_ok ?s'"
    unfolding h using handle_event_table(2) [OF feed_reachable_ok [OF feed_example_reachable]] by (simp add: event_zero_def)
  have same: "addresses (table_of [?e]) n = addresses (by_uuid (fst ?s')) n" for n
  proof -
    have "live_in (table_of [?e]) n = (if n = ''n2'' then {''f1''} else {})"
      "live_in (by_uuid (fst ?s')) n = (if n = ''n2'' then {''f1''} else {})"
      unfolding T' feed_example_table(1)
      by (auto simp: live_in_def live_def event_effect_def event_zero_def entry_of_event_def meta_get_def
          table_of_def entry_of_source_def split: if_splits)
    then show ?thesis unfolding addresses_def T' feed_example_table(1)
      by (simp add: event_effect_def event_zero_def entry_of_event_def meta_get_def table_of_def entry_of_source_def)
  qed
  have "fst (ReplaceAll [?e] (fst ?s')) = \<lparr>added = {}, removed = {}, churned = {}\<rparr>"
    using ReplaceAll_run(4) [of "fst ?s'" "[?e]"] ok unfolding same by simp
  with fired live show ?thesis by (simp add: h addresses_def feed_example_table(1) split_beta)
qed

text \<open>
  Nothing checks that an event names a floating IP. An event with an empty subject is filed
  under the empty uuid, and a second one for another network is filed there too without the first
  being taken out: the first network then has a member that is an entry of the second, and the
  list of its active floating IPs contains the address of the second.
\<close>

theorem empty_subject_leaks:
  "let s = handle_all True [event_example ''floating_ip.mapped'' [] ''n1'' ''203.0.113.7'',
        event_example ''floating_ip.mapped'' [] ''n2'' ''203.0.113.8''] (index_new, metrics_new) in
   net_set (fst s) ''n1'' = {[]} \<and> e_network (entry_at (fst s) []) = ''n2'' \<and>
   ActiveFIPsInNetworks [''n1''] (\<lambda>_. [[]]) [''n1''] (fst s) = [''203.0.113.8'']"
  by (simp add: handle_all_def handle_def handle_event_def event_eval index_new_def Upsert_def indexLocked_def
      refreshGaugeLocked_def entry_at_def entry_zero_def net_set_def ActiveFIPsInNetworks_def live_def Let_def)

section \<open>The poller\<close>

definition enumerating :: "(string set \<Rightarrow> string list) \<Rightarrow> bool" where
  "enumerating ord \<longleftrightarrow> (\<forall>A. finite A \<longrightarrow> distinct (ord A) \<and> set (ord A) = A)"

lemma replace_fires:
  assumes ok: "feed_ok s" and dist: "distinct (map src_uuid items)" and ord: "enumerating ord"
  shows "set (fst (snd (tick True ord why (Inr items) s))) =
      {n. n \<noteq> [] \<and> addresses (by_uuid (fst s)) n \<noteq> addresses (table_of (map entry_of_source items)) n}"
    and "distinct (fst (snd (tick True ord why (Inr items) s)))"
proof -
  obtain i m where s: "s = (i, m)" by fastforce
  let ?es = "map entry_of_source items" and ?d = "fst (ReplaceAll (map entry_of_source items) i)"
  have "distinct (map e_uuid ?es)" using dist by (simp add: entry_of_source_def comp_def)
  note run = ReplaceAll_run [OF conjunct1 [OF ok [unfolded s fst_conv]] conjunct2 [OF ok [unfolded s fst_conv]] this]
  have fd: "finite (dom (by_uuid i))" "finite (dom (table_of ?es))"
    using index_okD(2) [of i] index_okD(2) [OF run(2)] ok run(1) by (simp_all add: s)
  have fin: "finite (added ?d)" "finite (removed ?d)" "finite (churned ?d)"
    unfolding run(4) by (auto intro: finite_subset [OF _ finite_addressed [OF fd(1)]] finite_subset [OF _ finite_addressed [OF fd(2)]])
  let ?ns = "ord (added ?d) @ ord (removed ?d) @ ord (churned ?d)"
  have sets: "set (ord (added ?d)) = added ?d" "set (ord (removed ?d)) = removed ?d" "set (ord (churned ?d)) = churned ?d"
    using fin ord by (auto simp: enumerating_def)
  have "added ?d = {}" "removed ?d = {}" "churned ?d = {}" if "\<not> 0 < card (added ?d) + card (removed ?d) + card (churned ?d)"
    using that fin by simp_all
  then have fired: "fst (snd (tick True ord why (Inr items) s)) = fire_once {} ?ns"
    using sets by (auto simp: tick_def s Let_def split_beta)
  have "set ?ns = added ?d \<union> (removed ?d \<union> churned ?d)" by (simp only: set_append sets)
  also have "\<dots> = {n. n \<noteq> [] \<and> addresses (by_uuid i) n \<noteq> addresses (table_of ?es) n}"
    unfolding run(4) by (auto simp del: addresses_empty)
  finally have un: "set ?ns = {n. n \<noteq> [] \<and> addresses (by_uuid i) n \<noteq> addresses (table_of ?es) n}" .
  show "set (fst (snd (tick True ord why (Inr items) s))) =
      {n. n \<noteq> [] \<and> addresses (by_uuid (fst s)) n \<noteq> addresses (table_of ?es) n}"
    "distinct (fst (snd (tick True ord why (Inr items) s)))"
    unfolding fired using fire_once_distinct [of "{}" ?ns] un by (simp_all add: s)
qed

text \<open>
  C17. A successful poll makes the index what the source says and passes to the callback exactly
  the networks whose set of active addresses changed, each once.
\<close>

theorem poll_fires_exactly_changes:
  assumes "feed_reachable s" and "distinct (map src_uuid items)" and "enumerating ord"
    and "tick True ord why (Inr items) s = (r, fired, s')"
  shows "r = Inr () \<and> by_uuid (fst s') = table_of (map entry_of_source items) \<and> distinct fired \<and>
    set fired = {n. n \<noteq> [] \<and> addresses (by_uuid (fst s)) n \<noteq> addresses (by_uuid (fst s')) n}"
proof -
  note ok = feed_reachable_ok [OF assms(1)]
  have t: "fired = fst (snd (tick True ord why (Inr items) s))" "s' = snd (snd (tick True ord why (Inr items) s))"
    by (simp_all add: assms(4))
  have "r = Inr ()" using assms(4) by (cases s) (auto simp: tick_def Let_def split_beta)
  with replace_fires [OF ok assms(2,3)] tick_ok(1) [OF ok assms(2)] show ?thesis unfolding t by simp
qed

definition items_example :: "SourceFIP list" where
  "items_example = [\<lparr>src_uuid = ''f1'', src_address = ''203.0.113.7'', src_network = ''n1'', src_project = [],
       src_mapped_to = ''vm1'', src_status = ''available''\<rparr>,
     \<lparr>src_uuid = ''f2'', src_address = ''203.0.113.8'', src_network = ''n2'', src_project = [],
       src_mapped_to = ''vm2'', src_status = ''active''\<rparr>]"

lemma items_example_distinct: "distinct (map src_uuid items_example)"
  by (simp add: items_example_def)

lemma enumerating_sorted: "enumerating sorted_list_of_set"
  by (simp add: enumerating_def)

theorem poll_fires_exactly_changes_witness:
  "fst (tick True sorted_list_of_set ''refresh'' (Inr items_example) feed_example) = Inr () \<and>
   distinct (fst (snd (tick True sorted_list_of_set ''refresh'' (Inr items_example) feed_example)))"
  using poll_fires_exactly_changes [OF feed_example_reachable items_example_distinct enumerating_sorted triple_eq]
  by blast

text \<open>
  Polling again with the same answer changes nothing and fires nothing.
\<close>

theorem poll_idempotent:
  assumes "feed_reachable s" and "distinct (map src_uuid items)" and "enumerating ord"
    and "tick cb ord why (Inr items) s = (r, fired, s')" and "tick cb ord why' (Inr items) s' = (r', fired', s'')"
  shows "fired' = [] \<and> by_uuid (fst s'') = by_uuid (fst s')"
proof -
  note ok = feed_reachable_ok [OF assms(1)]
  have s': "s' = snd (snd (tick cb ord why (Inr items) s))" by (simp add: assms(4))
  have ok': "feed_ok s'" unfolding s' by (rule tick_ok(2) [OF ok assms(2)])
  have T: "by_uuid (fst s') = table_of (map entry_of_source items)" unfolding s' by (rule tick_ok(1) [OF ok assms(2)])
  have "set (fst (snd (tick True ord why' (Inr items) s'))) = {}"
    unfolding replace_fires(1) [OF ok' assms(2,3)] T by simp
  moreover have "fst (snd (tick cb ord why' (Inr items) s')) \<in> {[], fst (snd (tick True ord why' (Inr items) s'))}"
    by (cases s') (auto simp: tick_def Let_def split_beta)
  ultimately have "fired' = []" using assms(5) by auto
  moreover have "by_uuid (fst s'') = table_of (map entry_of_source items)"
    using tick_ok(1) [OF ok' assms(2), of cb ord why'] assms(5) by simp
  ultimately show ?thesis using T by simp
qed

theorem poll_idempotent_witness:
  "fst (snd (tick True sorted_list_of_set ''refresh'' (Inr items_example)
     (snd (snd (tick True sorted_list_of_set ''seed'' (Inr items_example) feed_example))))) = []"
  by (rule poll_idempotent [OF feed_example_reachable items_example_distinct enumerating_sorted triple_eq triple_eq,
        THEN conjunct1])

lemma table_of_distinct:
  "distinct (map e_uuid es) \<Longrightarrow> table_of es u = Some e \<longleftrightarrow> e \<in> set es \<and> e_uuid e = u"
proof -
  have "fold (\<lambda>e T. T(e_uuid e \<mapsto> e)) es T u = Some e \<longleftrightarrow>
      (e \<in> set es \<and> e_uuid e = u \<or> u \<notin> e_uuid ` set es \<and> T u = Some e)"
    if "distinct (map e_uuid es)" for T
    using that by (induction es arbitrary: T) (auto simp: image_iff)
  then show "distinct (map e_uuid es) \<Longrightarrow> ?thesis" by (simp add: table_of_def)
qed

text \<open>
  C36. Eventual consistency: whatever events were lost or came out of order before, after a
  successful poll the list the publisher reads is exactly the addresses the source reports as
  active on the networks.
\<close>

theorem poll_converges:
  assumes "feed_reachable s" and "distinct (map src_uuid items)"
    and "tick cb ord why (Inr items) s = (r, fired, s')" and "ranges_over nets uuids networks (fst s')"
  shows "set (ActiveFIPsInNetworks nets uuids networks (fst s')) =
    {src_address it | it. it \<in> set items \<and> src_status it = ''active'' \<and> src_address it \<noteq> [] \<and>
       src_network it \<in> set networks - {[]}}"
proof -
  note ok = feed_reachable_ok [OF assms(1)]
  have s': "s' = snd (snd (tick cb ord why (Inr items) s))" by (simp add: assms(3))
  have ok': "index_ok (fst s')" unfolding s' using tick_ok(2) [OF ok assms(2)] by blast
  have T: "by_uuid (fst s') = table_of (map entry_of_source items)" unfolding s' by (rule tick_ok(1) [OF ok assms(2)])
  have "distinct (map e_uuid (map entry_of_source items))" using assms(2) by (simp add: entry_of_source_def comp_def)
  from table_of_distinct [OF this] have tab: "table_of (map entry_of_source items) u = Some e \<longleftrightarrow>
      (\<exists>it \<in> set items. e = entry_of_source it \<and> src_uuid it = u)" for u e
    by (auto simp: entry_of_source_def)
  have sels: "live (entry_of_source it) \<longleftrightarrow> src_status it = ''active'' \<and> src_address it \<noteq> []"
    "e_address (entry_of_source it) = src_address it" "e_network (entry_of_source it) = src_network it" for it
    by (simp_all add: live_def entry_of_source_def)
  show ?thesis
    unfolding set_ActiveFIPs [OF ok' assms(4)] T tab
  proof (intro set_eqI iffI)
    fix a
    assume "a \<in> {e_address e | u e. (\<exists>it \<in> set items. e = entry_of_source it \<and> src_uuid it = u) \<and> live e \<and>
      e_network e \<in> set networks - {[]}}"
    then obtain it where "it \<in> set items" "a = e_address (entry_of_source it)" "live (entry_of_source it)"
      "e_network (entry_of_source it) \<in> set networks - {[]}" by blast
    then show "a \<in> {src_address it | it. it \<in> set items \<and> src_status it = ''active'' \<and> src_address it \<noteq> [] \<and>
       src_network it \<in> set networks - {[]}}" unfolding sels by blast
  next
    fix a
    assume "a \<in> {src_address it | it. it \<in> set items \<and> src_status it = ''active'' \<and> src_address it \<noteq> [] \<and>
       src_network it \<in> set networks - {[]}}"
    then obtain it where "it \<in> set items" "a = src_address it" "src_status it = ''active''" "src_address it \<noteq> []"
      "src_network it \<in> set networks - {[]}" by blast
    then have "a = e_address (entry_of_source it)" "live (entry_of_source it)"
      "e_network (entry_of_source it) \<in> set networks - {[]}" unfolding sels by blast+
    with \<open>it \<in> set items\<close> show "a \<in> {e_address e | u e. (\<exists>it \<in> set items. e = entry_of_source it \<and> src_uuid it = u) \<and> live e \<and>
      e_network e \<in> set networks - {[]}}" by blast
  qed
qed

theorem poll_converges_witness:
  "set (ActiveFIPsInNetworks [''n3''] (\<lambda>_. []) [''n3''] (fst (snd (snd (tick True sorted_list_of_set ''refresh''
     (Inr items_example) feed_example))))) =
   {src_address it | it. it \<in> set items_example \<and> src_status it = ''active'' \<and> src_address it \<noteq> [] \<and>
       src_network it \<in> {''n3''} - {[]}}"
proof -
  let ?s' = "snd (snd (tick True sorted_list_of_set ''refresh'' (Inr items_example) feed_example))"
  have ok: "index_ok (fst ?s')" using tick_ok(2) [OF feed_reachable_ok [OF feed_example_reachable] items_example_distinct] by blast
  have T: "by_uuid (fst ?s') = table_of (map entry_of_source items_example)"
    by (rule tick_ok(1) [OF feed_reachable_ok [OF feed_example_reachable] items_example_distinct])
  have "net_set (fst ?s') ''n3'' = {}"
    unfolding index_okD(4) [OF ok] T by (auto simp: net_members_def table_of_def items_example_def entry_of_source_def split: if_splits)
  then have r: "ranges_over [''n3''] (\<lambda>_. []) [''n3''] (fst ?s')" by (simp add: ranges_over_def)
  from poll_converges [OF feed_example_reachable items_example_distinct triple_eq r] show ?thesis unfolding list.set .
qed

text \<open>
  A failing source never empties the index: whatever number of polls fail, from the seed on,
  the index stays as it was, nothing is fired, and \<open>Run\<close> returns the error of the seed.
\<close>

theorem poll_failures_harmless:
  "\<exists>m'. poller_run cb ord (Inl e) (map Inl es) (i, m) = (Inl e, [], (i, m'))"
proof -
  have "\<exists>m'. poller_refresh cb ord (map Inl es) (i, m) = ([], (i, m'))" for m
    by (induction es arbitrary: m) (auto simp: tick_error Let_def split_beta)
  then show ?thesis by (force simp add: poller_run_def tick_error)
qed

end
