(* ===== verification/Go_NetIP.thy ===== *)
theory Go_NetIP
  imports Go_Strings
begin

text \<open>
  \<^verbatim>\<open>net/netip\<close> as the publisher uses it: \<^verbatim>\<open>ParseAddr\<close>, \<^verbatim>\<open>Addr.Is4\<close> and \<^verbatim>\<open>Addr.String\<close>, and
  \<^verbatim>\<open>net.ParseIP\<close>, which is \<^verbatim>\<open>ParseAddr\<close> without zones. Bytes are numbers below 256.
\<close>

datatype Addr = Addr4 "nat list" | Addr6 "nat list" string

section \<open>IPv4\<close>

text \<open>A field: at least one digit, no leading zero, at most 255.\<close>

definition parse_octet :: "string \<Rightarrow> nat option" where
  "parse_octet w =
     (if w = [] \<or> \<not> list_all is_digit w then None
      else if 1 < length w \<and> hd w = CHR ''0'' then None
      else if 255 < dec_val w then None
      else Some (dec_val w))"

definition parse_ipv4_fields :: "string \<Rightarrow> nat list option" where
  "parse_ipv4_fields s =
     (case map parse_octet (split_on (CHR ''.'') s) of
        [Some a, Some b, Some c, Some d] \<Rightarrow> Some [a, b, c, d]
      | _ \<Rightarrow> None)"

definition show_ipv4 :: "nat list \<Rightarrow> string" where
  "show_ipv4 bs = join_with ''.'' (map dec_digits bs)"

section \<open>IPv6\<close>

definition is_hex :: "char \<Rightarrow> bool" where
  "is_hex c \<longleftrightarrow> is_digit c \<or> c \<in> set ''abcdef'' \<or> c \<in> set ''ABCDEF''"

definition hex_val :: "char \<Rightarrow> nat" where
  "hex_val c = (if is_digit c then digit_val c
     else if 97 \<le> (of_char c :: nat) then of_char c - 87 else of_char c - 55)"

definition hex_num :: "string \<Rightarrow> nat" where
  "hex_num s = foldl (\<lambda>acc c. 16 * acc + hex_val c) 0 s"

text \<open>
  The loop over the colon-separated groups: the bytes so far, and the place of the ellipsis. A
  dot after a group starts an embedded IPv4 address.
\<close>

function ipv6_loop :: "string \<Rightarrow> nat list \<Rightarrow> nat option \<Rightarrow> (nat list \<times> nat option) option" where
  "ipv6_loop s ip ell =
     (if 16 \<le> length ip then (if s = [] then Some (ip, ell) else None)
      else
        let hs = takeWhile is_hex s; r = dropWhile is_hex s in
        if 4 < length hs then None
        else if hs = [] then None
        else if r \<noteq> [] \<and> hd r = CHR ''.'' then
          (if ell = None \<and> length ip \<noteq> 12 then None
           else if 16 < length ip + 4 then None
           else (case parse_ipv4_fields s of None \<Rightarrow> None | Some f \<Rightarrow> Some (ip @ f, ell)))
        else
          let ip' = ip @ [hex_num hs div 256, hex_num hs mod 256] in
          if r = [] then Some (ip', ell)
          else if hd r \<noteq> CHR '':'' then None
          else if tl r = [] then None
          else if hd (tl r) = CHR '':'' then
            (if ell \<noteq> None then None
             else if tl (tl r) = [] then Some (ip', Some (length ip'))
             else ipv6_loop (tl (tl r)) ip' (Some (length ip')))
          else ipv6_loop (tl r) ip' ell)"
  by pat_completeness auto

termination
  by (relation "measure (\<lambda>(s, ip, ell). 16 - length ip)") auto

declare ipv6_loop.simps [simp del]

definition ipv6_expand :: "nat list \<Rightarrow> nat option \<Rightarrow> nat list option" where
  "ipv6_expand ip ell =
     (if length ip < 16 then
        (case ell of None \<Rightarrow> None
         | Some e \<Rightarrow> Some (take e ip @ replicate (16 - length ip) 0 @ drop e ip))
      else if ell \<noteq> None then None
      else Some ip)"

definition parse_ipv6 :: "string \<Rightarrow> Addr option" where
  "parse_ipv6 inp =
     (let s = takeWhile (\<lambda>c. c \<noteq> CHR ''%'') inp; rest = dropWhile (\<lambda>c. c \<noteq> CHR ''%'') inp; zone = tl rest in
      if rest \<noteq> [] \<and> zone = [] then None
      else
        let lead = has_prefix s ''::''; s1 = (if lead then drop 2 s else s) in
        if lead \<and> s1 = [] then Some (Addr6 (replicate 16 0) zone)
        else
          (case ipv6_loop s1 [] (if lead then Some 0 else None) of
             None \<Rightarrow> None
           | Some (ip, ell) \<Rightarrow> map_option (\<lambda>bs. Addr6 bs zone) (ipv6_expand ip ell)))"

definition is_4in6 :: "nat list \<Rightarrow> bool" where
  "is_4in6 bs \<longleftrightarrow> take 12 bs = replicate 10 0 @ [255, 255]"

fun groups :: "nat list \<Rightarrow> nat list" where
  "groups (a # b # bs) = (256 * a + b) # groups bs"
| "groups _ = []"

fun hex_show :: "nat \<Rightarrow> string" where
  "hex_show n = (if n < 16 then [hex_digit n] else hex_show (n div 16) @ [hex_digit (n mod 16)])"

declare hex_show.simps [simp del]

text \<open>The first longest run of zero groups, of two or more, is written as an ellipsis.\<close>

definition zero_run :: "nat list \<Rightarrow> nat \<Rightarrow> nat" where
  "zero_run gs i = length (takeWhile (\<lambda>g. g = 0) (drop i gs))"

definition best_run :: "nat list \<Rightarrow> (nat \<times> nat) option" where
  "best_run gs = foldl (\<lambda>best i. let l = zero_run gs i in
     if 2 \<le> l \<and> (case best of None \<Rightarrow> True | Some (_, m) \<Rightarrow> m < l) then Some (i, l) else best) None [0..<8]"

definition show_groups :: "nat list \<Rightarrow> string" where
  "show_groups gs = join_with '':'' (map hex_show gs)"

definition show_ipv6 :: "nat list \<Rightarrow> string" where
  "show_ipv6 bs =
     (let gs = groups bs in
      case best_run gs of
        None \<Rightarrow> show_groups gs
      | Some (i, l) \<Rightarrow> show_groups (take i gs) @ ''::'' @ show_groups (drop (i + l) gs))"

section \<open>Addresses\<close>

text \<open>The first of \<open>.\<close>, \<open>:\<close> and \<open>%\<close> decides.\<close>

fun parse_addr_from :: "string \<Rightarrow> string \<Rightarrow> Addr option" where
  "parse_addr_from s [] = None"
| "parse_addr_from s (c # cs) =
     (if c = CHR ''.'' then map_option Addr4 (parse_ipv4_fields s)
      else if c = CHR '':'' then parse_ipv6 s
      else if c = CHR ''%'' then None
      else parse_addr_from s cs)"

definition ParseAddr :: "string \<Rightarrow> Addr option" where
  "ParseAddr s = parse_addr_from s s"

definition show_addr :: "Addr \<Rightarrow> string" where
  "show_addr a = (case a of
     Addr4 bs \<Rightarrow> show_ipv4 bs
   | Addr6 bs zone \<Rightarrow>
       (if is_4in6 bs then ''::ffff:'' @ show_ipv4 (drop 12 bs) else show_ipv6 bs) @
       (if zone = [] then [] else CHR ''%'' # zone))"

definition Is4 :: "Addr \<Rightarrow> bool" where
  "Is4 a = (case a of Addr4 _ \<Rightarrow> True | Addr6 _ _ \<Rightarrow> False)"

text \<open>\<^verbatim>\<open>net.ParseIP(s) != nil\<close>.\<close>

definition parse_ip_ok :: "string \<Rightarrow> bool" where
  "parse_ip_ok s = (case ParseAddr s of None \<Rightarrow> False | Some (Addr4 _) \<Rightarrow> True | Some (Addr6 _ zone) \<Rightarrow> zone = [])"

section \<open>What is printed is read back\<close>

lemma split_on_no: "c \<notin> set w \<Longrightarrow> split_on c w = [w]"
  by (induction w) auto

lemma split_on_append: "c \<notin> set w \<Longrightarrow> split_on c (w @ c # s) = w # split_on c s"
  by (induction w) auto

lemma split_join: "ws \<noteq> [] \<Longrightarrow> \<forall>w \<in> set ws. c \<notin> set w \<Longrightarrow> split_on c (join_with [c] ws) = ws"
proof (induction "[c]" ws rule: join_with.induct)
  case (2 w)
  then show ?case by (simp add: split_on_no)
next
  case (3 w v ws)
  then show ?case by (simp add: split_on_append)
qed simp

lemma hd_dec_digits: "0 < n \<Longrightarrow> hd (dec_digits n) \<noteq> CHR ''0''"
proof (induction n rule: dec_digits.induct)
  case (1 n)
  show ?case
  proof (cases "n < 10")
    case True
    with 1 have "of_char (digit_char n) = 48 + n" by (simp add: digit_char_def)
    with 1 True show ?thesis by (auto simp: dec_digits.simps [of n])
  next
    case False
    with 1 show ?thesis by (simp add: dec_digits.simps [of n])
  qed
qed

lemma parse_octet_digits: "n < 256 \<Longrightarrow> parse_octet (dec_digits n) = Some n"
proof (cases "n = 0")
  case True
  then show ?thesis by (simp add: parse_octet_def dec_digits.simps dec_val_def digit_char_def is_digit_def digit_val_def)
next
  case False
  then show "n < 256 \<Longrightarrow> ?thesis" by (simp add: parse_octet_def dec_digits_digits hd_dec_digits)
qed

lemma parse_show_ipv4:
  assumes "length bs = 4" and "\<forall>b \<in> set bs. b < 256"
  shows "parse_ipv4_fields (show_ipv4 bs) = Some bs"
proof -
  have dot: "\<not> is_digit (CHR ''.'')" by (simp add: is_digit_def)
  have "split_on (CHR ''.'') (show_ipv4 bs) = map dec_digits bs"
    unfolding show_ipv4_def by (rule split_join) (use assms(1) dec_digits_no_char [OF dot] in auto)
  moreover obtain a b c d where "bs = [a, b, c, d]"
    using assms(1) by (auto simp: numeral_eq_Suc length_Suc_conv)
  ultimately show ?thesis using assms(2) by (simp add: parse_ipv4_fields_def parse_octet_digits)
qed

lemma parse_addr_from_digits:
  "list_all is_digit w \<Longrightarrow> parse_addr_from s (w @ c # t) =
     (if c = CHR ''.'' then map_option Addr4 (parse_ipv4_fields s)
      else if c = CHR '':'' then parse_ipv6 s else if c = CHR ''%'' then None else parse_addr_from s t)"
  by (induction w) (auto simp: is_digit_def)

lemma show_ipv4_front: "length bs = 4 \<Longrightarrow> \<exists>t. show_ipv4 bs = dec_digits (hd bs) @ CHR ''.'' # t"
  by (auto simp: show_ipv4_def numeral_eq_Suc length_Suc_conv)

lemma ParseAddr_show_ipv4:
  assumes "length bs = 4" and "\<forall>b \<in> set bs. b < 256"
  shows "ParseAddr (show_ipv4 bs) = Some (Addr4 bs)"
proof -
  obtain t where "show_ipv4 bs = dec_digits (hd bs) @ CHR ''.'' # t" using show_ipv4_front [OF assms(1)] by blast
  with parse_show_ipv4 [OF assms] parse_addr_from_digits [OF dec_digits_digits, of "show_ipv4 bs" "hd bs" "CHR ''.''" t]
  show ?thesis by (simp add: ParseAddr_def)
qed

text \<open>A number, a colon and an IPv4 address are not an IP address.\<close>

lemma takeWhile_hex_digits:
  "list_all is_digit w \<Longrightarrow> \<not> is_hex c \<Longrightarrow>
   takeWhile is_hex (w @ c # t) = w \<and> dropWhile is_hex (w @ c # t) = c # t"
  by (induction w) (auto simp: is_hex_def)

lemma colon_ipv4_no_ip:
  assumes "length bs = 4" and "\<forall>b \<in> set bs. b < 256"
  shows "\<not> parse_ip_ok (dec_digits n @ CHR '':'' # show_ipv4 bs)"
proof -
  let ?s = "dec_digits n @ CHR '':'' # show_ipv4 bs"
  obtain t where t: "show_ipv4 bs = dec_digits (hd bs) @ CHR ''.'' # t" using show_ipv4_front [OF assms(1)] by blast
  have nh: "\<not> is_hex (CHR '':'')" "\<not> is_hex (CHR ''.'')" by (simp_all add: is_hex_def is_digit_def)
  note w1 = takeWhile_hex_digits [OF dec_digits_digits nh(1)]
  note w2 = takeWhile_hex_digits [OF dec_digits_digits nh(2)]
  have pct: "CHR ''%'' \<notin> set ?s"
  proof -
    have "\<not> is_digit (CHR ''%'')" by (simp add: is_digit_def)
    from dec_digits_no_char [OF this] have "CHR ''%'' \<notin> set (dec_digits k)" for k by blast
    then show ?thesis using assms(1) by (auto simp: show_ipv4_def numeral_eq_Suc length_Suc_conv)
  qed
  have hd: "hd (show_ipv4 bs) \<noteq> CHR '':''" "show_ipv4 bs \<noteq> []"
    using dec_digits_digits [of "hd bs"] by (cases "dec_digits (hd bs)"; auto simp: t is_digit_def)+
  have "ipv6_loop ?s [] None = None"
    using w1 hd by (subst ipv6_loop.simps) (simp add: Let_def, subst ipv6_loop.simps, simp add: Let_def t w2)
  moreover have "\<not> has_prefix ?s ''::''"
    using dec_digits_digits [of n] by (cases "dec_digits n") (auto simp: has_prefix_iff is_digit_def)
  moreover have "takeWhile (\<lambda>c. c \<noteq> CHR ''%'') ?s = ?s" "dropWhile (\<lambda>c. c \<noteq> CHR ''%'') ?s = []"
    unfolding takeWhile_eq_all_conv dropWhile_eq_Nil_conv using pct by blast+
  ultimately have "parse_ipv6 ?s = None"
    unfolding parse_ipv6_def Let_def by (simp only: if_False option.case simp_thms list.sel)
  then show ?thesis
    using parse_addr_from_digits [OF dec_digits_digits, of ?s n "CHR '':''" "show_ipv4 bs"]
    by (simp add: parse_ip_ok_def ParseAddr_def)
qed

text \<open>The equations that evaluate the parser and the printer on a literal.\<close>

lemma replicate_num: "replicate (numeral n) x = x # replicate (pred_numeral n) x"
  by (simp add: numeral_eq_Suc)

lemmas netip_eval = hex_show.simps hex_digit_def ipv6_loop.simps is_hex_def is_digit_def hex_num_def hex_val_def
  digit_val_def parse_ipv6_def ipv6_expand_def has_prefix_def parse_ipv4_fields_def parse_octet_def dec_val_def
  ParseAddr_def Let_def show_addr_def show_ipv6_def is_4in6_def best_run_def zero_run_def show_groups_def upt_rec
  show_ipv4_def dec_digits.simps digit_char_def char_of_def bit_0 replicate_num

end
