(* ===== verification/Publisher.thy ===== *)
theory Publisher
  imports Router_Store Go_NetIP Fips_Index
begin

text \<open>
  The router publisher: \<^verbatim>\<open>internal/publisher\<close>. A router becomes a desired state (peers and
  prefixes), which is encoded and sent on the subject of the router. The NATS connection is a
  parameter: a record of the two calls the code makes on it. The floating-IP lookup the publisher
  reads is an interface, stated as a locale and interpreted by the index and by the empty lookup.
\<close>

section \<open>Desired state\<close>

record PeerConfig =
  pc_address :: string
  pc_remote_asn :: u32
  pc_hold_time :: u32
  pc_policy :: string

record PrefixAdvertisement =
  pa_prefix :: string
  pa_next_hop :: string
  pa_communities :: "u32 list"

record DesiredState =
  ds_peers :: "PeerConfig list"
  ds_prefixes :: "PrefixAdvertisement list"

definition state_zero :: DesiredState where
  "state_zero = \<lparr>ds_peers = [], ds_prefixes = []\<rparr>"

definition peer_of :: "string \<Rightarrow> nat \<Rightarrow> PeerConfig" where
  "peer_of addr asn = \<lparr>pc_address = addr, pc_remote_asn = of_nat asn, pc_hold_time = 0, pc_policy = []\<rparr>"

definition prefix_of :: "string \<Rightarrow> PrefixAdvertisement" where
  "prefix_of cidr = \<lparr>pa_prefix = cidr, pa_next_hop = [], pa_communities = []\<rparr>"

definition parseExternalPeer :: "string \<Rightarrow> PeerConfig option" where
  "parseExternalPeer ext =
     (let external = trim_space ext in
      if external = [] then None
      else case last_index_byte external (CHR '':'') of
        Some i \<Rightarrow>
          if parse_ip_ok external then Some (peer_of external 0)
          else
            (let asnStr = take i external; peer = drop (i + 1) external in
             case parse_uint 32 asnStr of
               None \<Rightarrow> None
             | Some asn \<Rightarrow> if \<not> parse_ip_ok peer then None else Some (peer_of peer asn))
      | None \<Rightarrow> if \<not> parse_ip_ok external then None else Some (peer_of external 0))"

definition singleHostCIDR :: "string \<Rightarrow> string" where
  "singleHostCIDR ip = (case ParseAddr ip of
     None \<Rightarrow> []
   | Some addr \<Rightarrow> if Is4 addr then show_addr addr @ ''/32'' else show_addr addr @ ''/128'')"

text \<open>\<open>fips\<close> is the lookup; \<open>None\<close> is a nil interface.\<close>

definition StateFor :: "Router \<Rightarrow> (string list \<Rightarrow> string list) option \<Rightarrow> DesiredState" where
  "StateFor r fips =
     (if router_kind r \<noteq> ''egress'' \<or> router_backend r \<noteq> ''gobgp'' then state_zero
      else case parseExternalPeer (router_external r) of
        None \<Rightarrow> state_zero
      | Some peer \<Rightarrow>
          (let prefixes = map prefix_of (router_prefixes r);
               more = (case fips of None \<Rightarrow> []
                 | Some lookup \<Rightarrow>
                     map (\<lambda>addr. prefix_of (singleHostCIDR addr))
                       (filter (\<lambda>addr. singleHostCIDR addr \<noteq> []) (lookup (router_networks r)))) in
           \<lparr>ds_peers = [peer], ds_prefixes = prefixes @ more\<rparr>))"

definition SubjectFor :: "string \<Rightarrow> string" where
  "SubjectFor uuid = ''weft.router.'' @ uuid @ ''.config''"

definition noop_lookup :: "string list \<Rightarrow> string list" where
  "noop_lookup networks = []"

section \<open>On the wire\<close>

text \<open>\<open>omitempty\<close> leaves out zero numbers, empty strings and empty slices.\<close>

definition omit_str :: "string \<Rightarrow> string \<Rightarrow> (string \<times> json) list" where
  "omit_str k s = (if s = [] then [] else [(k, JStr s)])"

definition json_of_peer :: "PeerConfig \<Rightarrow> json" where
  "json_of_peer p = JObj ([(''Address'', JStr (pc_address p)), (''RemoteASN'', JNum (uint (pc_remote_asn p)))] @
     (if pc_hold_time p = 0 then [] else [(''HoldTime'', JNum (uint (pc_hold_time p)))]) @
     omit_str ''PolicyName'' (pc_policy p))"

definition json_of_prefix :: "PrefixAdvertisement \<Rightarrow> json" where
  "json_of_prefix p = JObj ((''Prefix'', JStr (pa_prefix p)) # omit_str ''NextHop'' (pa_next_hop p) @
     (if pa_communities p = [] then [] else [(''Communities'', JArr (map (\<lambda>c. JNum (uint c)) (pa_communities p)))]))"

definition marshal_state :: "DesiredState \<Rightarrow> etcd_value" where
  "marshal_state st = Doc (JObj [(''peers'', JArr (map json_of_peer (ds_peers st))),
     (''prefixes'', JArr (map json_of_prefix (ds_prefixes st)))])"

text \<open>The connection: publish on a subject, and wait until the server has it.\<close>

record 's bus =
  bus_publish :: "string \<Rightarrow> etcd_value \<Rightarrow> 's \<Rightarrow> (rpc_err, unit) result \<times> 's"
  bus_flush :: "'s \<Rightarrow> (rpc_err, unit) result \<times> 's"

definition send_flush :: "'s bus \<Rightarrow> string \<Rightarrow> string \<Rightarrow> etcd_value \<Rightarrow> 's \<Rightarrow> (store_err, unit) result \<times> 's" where
  "send_flush b what subject payload s =
     (case bus_publish b subject payload s of
        (Inl e, s1) \<Rightarrow> (Inl (ErrWrap (what @ subject) e), s1)
      | (Inr _, s1) \<Rightarrow>
          (case bus_flush b s1 of
             (Inl e, s2) \<Rightarrow> (Inl (ErrWrap ''nats flush'' e), s2)
           | (Inr _, s2) \<Rightarrow> (Inr (), s2)))"

definition nats_publish :: "'s bus \<Rightarrow> (string list \<Rightarrow> string list) \<Rightarrow> Router \<Rightarrow> 's \<Rightarrow> (store_err, unit) result \<times> 's" where
  "nats_publish b lookup r s =
     (let state = StateFor r (Some lookup) in
      if ds_peers state = [] \<and> ds_prefixes state = [] then (Inr (), s)
      else send_flush b ''nats publish '' (SubjectFor (router_uuid r)) (marshal_state state) s)"

definition nats_withdraw :: "'s bus \<Rightarrow> string \<Rightarrow> 's \<Rightarrow> (store_err, unit) result \<times> 's" where
  "nats_withdraw b uuid s =
     send_flush b ''nats publish empty '' (SubjectFor uuid)
       (Doc (JObj [(''peers'', JArr []), (''prefixes'', JArr [])])) s"

text \<open>The interface the handlers use, and its two implementations.\<close>

record 's router_publisher =
  pub_publish :: "Router \<Rightarrow> 's \<Rightarrow> (store_err, unit) result \<times> 's"
  pub_withdraw :: "string \<Rightarrow> 's \<Rightarrow> (store_err, unit) result \<times> 's"

definition noop_publisher :: "'s router_publisher" where
  "noop_publisher = \<lparr>pub_publish = (\<lambda>r s. (Inr (), s)), pub_withdraw = (\<lambda>u s. (Inr (), s))\<rparr>"

definition nats_publisher :: "'s bus \<Rightarrow> (string list \<Rightarrow> string list) \<Rightarrow> 's router_publisher" where
  "nats_publisher b lookup = \<lparr>pub_publish = nats_publish b lookup, pub_withdraw = nats_withdraw b\<rparr>"

section \<open>The lookup slot\<close>

text \<open>
  The interface \<open>FIPLookup\<close> has two dynamic types: the empty lookup, and a pointer to an index of type
  \<open>'p\<close>. The slot that holds one is an \<^verbatim>\<open>atomic.Value\<close>: a store of nil, and a store of another
  dynamic type than the value it holds, panic; a load of an unset slot gives nil.
\<close>

datatype 'p FIPLookup = NoopFIPLookup | IndexRef 'p

fun lookup_fn :: "('p \<Rightarrow> string list \<Rightarrow> string list) \<Rightarrow> 'p FIPLookup \<Rightarrow> string list \<Rightarrow> string list" where
  "lookup_fn index NoopFIPLookup = noop_lookup"
| "lookup_fn index (IndexRef p) = index p"

fun same_type :: "'p FIPLookup \<Rightarrow> 'p FIPLookup \<Rightarrow> bool" where
  "same_type NoopFIPLookup NoopFIPLookup \<longleftrightarrow> True"
| "same_type (IndexRef _) (IndexRef _) \<longleftrightarrow> True"
| "same_type _ _ \<longleftrightarrow> False"

type_synonym 'p slot = "'p FIPLookup option"

definition atomic_store :: "'p FIPLookup option \<Rightarrow> 'p slot \<Rightarrow> (store_err, unit) result \<times> 'p slot" where
  "atomic_store v slot = (case v of
     None \<Rightarrow> (Inl (GoPanic ''sync/atomic: store of nil value into Value''), slot)
   | Some new \<Rightarrow>
       (case slot of
          None \<Rightarrow> (Inr (), Some new)
        | Some old \<Rightarrow>
            if same_type old new then (Inr (), Some new)
            else (Inl (GoPanic ''sync/atomic: store of inconsistently typed value into Value''), slot)))"

text \<open>The publisher object: its connection (\<open>None\<close> once closed) and the slot.\<close>

record ('c, 'p) NATS =
  nats_conn :: "'c option"
  nats_fips :: "'p slot"

definition NewNATS :: "(string \<Rightarrow> (rpc_err, 'c) result) \<Rightarrow> string \<Rightarrow> (store_err, ('c, 'p) NATS) result" where
  "NewNATS connect url =
     (if url = [] then Inl (ErrMsg ''nats publisher: empty url'')
      else case connect url of
        Inl e \<Rightarrow> Inl (ErrWrap (''nats connect '' @ url) e)
      | Inr nc \<Rightarrow> Inr \<lparr>nats_conn = Some nc, nats_fips = snd (atomic_store (Some NoopFIPLookup) None)\<rparr>)"

text \<open>A nil lookup is replaced by the empty one.\<close>

definition SetFIPLookup :: "'p FIPLookup option \<Rightarrow> ('c, 'p) NATS \<Rightarrow> (store_err, unit) result \<times> ('c, 'p) NATS" where
  "SetFIPLookup fips n =
     (let (r, slot) = atomic_store (Some (case fips of None \<Rightarrow> NoopFIPLookup | Some f \<Rightarrow> f)) (nats_fips n) in
      (r, n\<lparr>nats_fips := slot\<rparr>))"

definition fipLookup :: "('c, 'p) NATS \<Rightarrow> 'p FIPLookup" where
  "fipLookup n = (case nats_fips n of None \<Rightarrow> NoopFIPLookup | Some v \<Rightarrow> v)"

definition Close_NATS :: "('c, 'p) NATS \<Rightarrow> ('c, 'p) NATS" where
  "Close_NATS n = n\<lparr>nats_conn := None\<rparr>"

text \<open>\<open>Publish\<close> of the object reads the slot first.\<close>

definition Publish_NATS :: "('p \<Rightarrow> string list \<Rightarrow> string list) \<Rightarrow> 's bus \<Rightarrow> ('c, 'p) NATS \<Rightarrow> Router \<Rightarrow> 's \<Rightarrow> (store_err, unit) result \<times> 's" where
  "Publish_NATS index b n = nats_publish b (lookup_fn index (fipLookup n))"

section \<open>The lookup interface\<close>

locale fip_lookup =
  fixes lookup :: "'i \<Rightarrow> string list \<Rightarrow> string list"
    and active :: "'i \<Rightarrow> string \<Rightarrow> string set"
    and good :: "'i \<Rightarrow> bool"
  assumes lookup_set: "good i \<Longrightarrow> set (lookup i ns) = (\<Union>n \<in> set ns. active i n)"
    and lookup_sorted: "good i \<Longrightarrow> sorted (lookup i ns)"
begin

text \<open>The prefixes of a gobgp egress router: its own, and the active floating IPs of its networks.\<close>

lemma announced:
  assumes "good i" and "router_kind r = ''egress''" and "router_backend r = ''gobgp''"
    and "parseExternalPeer (router_external r) = Some p"
  shows "pa_prefix ` set (ds_prefixes (StateFor r (Some (lookup i)))) =
    set (router_prefixes r) \<union> (singleHostCIDR ` (\<Union>n \<in> set (router_networks r). active i n) - {[]})"
proof -
  have pa: "pa_prefix (prefix_of c) = c" for c by (simp add: prefix_of_def)
  have "pa_prefix ` set (ds_prefixes (StateFor r (Some (lookup i)))) =
      set (router_prefixes r) \<union> singleHostCIDR ` {a \<in> set (lookup i (router_networks r)). singleHostCIDR a \<noteq> []}"
    using assms(2-4) by (simp add: StateFor_def Let_def image_Un image_image pa)
  then show ?thesis unfolding lookup_set [OF assms(1)] by auto
qed

end

text \<open>The index, together with the iteration orders of the runtime.\<close>

type_synonym iter_orders = "string list \<Rightarrow> string list \<times> (string \<Rightarrow> string list)"

definition index_lookup :: "Index \<times> iter_orders \<Rightarrow> string list \<Rightarrow> string list" where
  "index_lookup = (\<lambda>(i, ord) ns. ActiveFIPsInNetworks (fst (ord ns)) (snd (ord ns)) ns i)"

definition orders_ok :: "Index \<times> iter_orders \<Rightarrow> bool" where
  "orders_ok = (\<lambda>(i, ord). index_ok i \<and> (\<forall>ns. ranges_over (fst (ord ns)) (snd (ord ns)) ns i))"

definition index_active :: "Index \<times> iter_orders \<Rightarrow> string \<Rightarrow> string set" where
  "index_active = (\<lambda>(i, ord) n. if n = [] then {} else addresses (by_uuid i) n)"

interpretation index_fips: fip_lookup index_lookup index_active orders_ok
proof (unfold_locales, goal_cases)
  case (1 i ns)
  obtain x ord where i: "i = (x, ord)" by fastforce
  then have ok: "index_ok x" and r: "ranges_over (fst (ord ns)) (snd (ord ns)) ns x"
    using 1 by (auto simp: orders_ok_def)
  have mem: "a \<in> index_active i n \<longleftrightarrow> n \<noteq> [] \<and> (\<exists>u e. by_uuid x u = Some e \<and> live e \<and> e_network e = n \<and> a = e_address e)" for a n
    unfolding i index_active_def addresses_def live_in_def image_iff by force
  have "{e_address e | u e. by_uuid x u = Some e \<and> live e \<and> e_network e \<in> set ns - {[]}} = (\<Union>n \<in> set ns. index_active i n)"
    unfolding set_eq_iff UN_iff mem by blast
  then show ?case using set_ActiveFIPs [OF ok r] by (simp add: i index_lookup_def)
next
  case (2 i ns)
  then show ?case by (cases i) (simp add: index_lookup_def ActiveFIPsInNetworks_def)
qed

interpretation noop_fips: fip_lookup "\<lambda>_. noop_lookup" "\<lambda>_ _. {}" "\<lambda>_. True"
  by unfold_locales (simp_all add: noop_lookup_def)

section \<open>Lemmas\<close>

lemma singleHostCIDR_ipv4:
  "length bs = 4 \<Longrightarrow> \<forall>b \<in> set bs. b < 256 \<Longrightarrow> singleHostCIDR (show_ipv4 bs) = show_ipv4 bs @ ''/32''"
  by (simp add: singleHostCIDR_def ParseAddr_show_ipv4 Is4_def show_addr_def)

lemma parse_ip_ok_ipv4: "length bs = 4 \<Longrightarrow> \<forall>b \<in> set bs. b < 256 \<Longrightarrow> parse_ip_ok (show_ipv4 bs)"
  by (simp add: parse_ip_ok_def ParseAddr_show_ipv4)

lemma ipv4_no_colon: "length bs = 4 \<Longrightarrow> CHR '':'' \<notin> set (show_ipv4 bs)"
proof -
  have "\<not> is_digit (CHR '':'')" by (simp add: is_digit_def)
  from dec_digits_no_char [OF this] have "CHR '':'' \<notin> set (dec_digits n)" for n by blast
  then show "length bs = 4 \<Longrightarrow> ?thesis" by (auto simp: show_ipv4_def numeral_eq_Suc length_Suc_conv)
qed

lemma StateFor_other: "router_kind r \<noteq> ''egress'' \<or> router_backend r \<noteq> ''gobgp'' \<Longrightarrow> StateFor r fips = state_zero"
  by (simp add: StateFor_def)

end
