(* ===== verification/Publisher_Properties.thy ===== *)
theory Publisher_Properties
  imports Publisher Fips_Properties
begin

text \<open>
  The properties of the publisher: how the external peer of a router is read, which prefixes are
  announced for it, and when a message is sent.
\<close>

section \<open>External peers\<close>

lemma plain_digits: "list_all is_digit w \<Longrightarrow> \<forall>c \<in> set w. 33 \<le> (of_char c :: nat) \<and> (of_char c :: nat) \<le> 126"
  by (auto simp: list_all_iff is_digit_def)

lemma plain_ipv4: "\<forall>c \<in> set (show_ipv4 bs). 33 \<le> (of_char c :: nat) \<and> (of_char c :: nat) \<le> 126"
proof -
  have chars: "\<forall>c \<in> set (join_with ''.'' ws). 33 \<le> (of_char c :: nat) \<and> (of_char c :: nat) \<le> 126"
    if "\<forall>w \<in> set ws. list_all is_digit w" for ws
    using that
  proof (induction "''.''" ws rule: join_with.induct)
    case (2 w)
    then show ?case using plain_digits [of w] by simp
  next
    case (3 w v ws)
    then show ?case using plain_digits [of w] by auto
  qed simp
  show ?thesis unfolding show_ipv4_def by (rule chars) (simp add: dec_digits_digits)
qed

text \<open>
  C37. The documented shapes of \<open>External\<close> are read as documented: \<open>ASN:a.b.c.d\<close> gives that peer with
  that remote ASN, for every ASN below \<open>2^32\<close> and every IPv4 address, and \<open>a.b.c.d\<close> alone gives
  the peer with ASN 0.
\<close>

theorem external_peer_ipv4:
  assumes "length bs = 4" and "\<forall>b \<in> set bs. b < 256" and "asn < 2 ^ 32"
  shows "parseExternalPeer (dec_digits asn @ '':'' @ show_ipv4 bs) = Some (peer_of (show_ipv4 bs) asn) \<and>
    parseExternalPeer (show_ipv4 bs) = Some (peer_of (show_ipv4 bs) 0)"
proof
  let ?s = "dec_digits asn @ CHR '':'' # show_ipv4 bs"
  have trim: "trim_space ?s = ?s" "trim_space (show_ipv4 bs) = show_ipv4 bs"
    using plain_digits [OF dec_digits_digits, of asn] plain_ipv4 [of bs] by (auto intro!: trim_space_plain)
  note colon = ipv4_no_colon [OF assms(1)]
  have "last_index_byte ?s (CHR '':'') = Some (length (dec_digits asn))"
    by (rule last_index_byte_split [OF colon])
  then show "parseExternalPeer (dec_digits asn @ '':'' @ show_ipv4 bs) = Some (peer_of (show_ipv4 bs) asn)"
    using trim colon_ipv4_no_ip [OF assms(1,2), of asn] parse_uint_digits [OF assms(3)] parse_ip_ok_ipv4 [OF assms(1,2)]
    by (simp add: parseExternalPeer_def)
  have "show_ipv4 bs \<noteq> []" using show_ipv4_front [OF assms(1)] by auto
  moreover have "last_index_byte (show_ipv4 bs) (CHR '':'') = None" using colon last_index_byte_None by blast
  ultimately show "parseExternalPeer (show_ipv4 bs) = Some (peer_of (show_ipv4 bs) 0)"
    using trim parse_ip_ok_ipv4 [OF assms(1,2)]
    by (simp add: parseExternalPeer_def Let_def)
qed

theorem external_peer_ipv4_witness:
  "parseExternalPeer (dec_digits 65512 @ '':'' @ show_ipv4 [198, 51, 100, 1]) = Some (peer_of (show_ipv4 [198, 51, 100, 1]) 65512)"
  using external_peer_ipv4 [of "[198, 51, 100, 1]" 65512] by simp

text \<open>
  An IPv6 peer cannot be given with an ASN: \<open>65512:2001:db8::1\<close> is refused, because the split is
  on the last colon, and with an ASN of at most four digits the whole string is itself an IPv6
  address, so the ASN is silently taken as its first group.
\<close>

theorem external_peer_ipv6_asn:
  "parseExternalPeer ''65512:2001:db8::1'' = None \<and>
   parseExternalPeer ''100:2001:db8::1'' = Some (peer_of ''100:2001:db8::1'' 0)"
proof -
  have "parse_ip_ok ''65512:2001:db8::1'' = False" "parse_ip_ok ''100:2001:db8::1'' = True"
    by (simp_all add: parse_ip_ok_def netip_eval)
  moreover have "trim_space ''65512:2001:db8::1'' = ''65512:2001:db8::1''" "trim_space ''100:2001:db8::1'' = ''100:2001:db8::1''"
    by (rule trim_space_plain, simp)+
  moreover have "parse_uint 32 ''65512:2001:db8:'' = None" by (simp add: parse_uint_def is_digit_def)
  ultimately show ?thesis by (simp add: parseExternalPeer_def Let_def)
qed

section \<open>Announced prefixes\<close>

text \<open>
  The desired state of a router: empty unless it is a gobgp egress router with a readable
  external peer; then that one peer, the router's own prefixes in their order, and after them a
  host route for each address of the lookup that parses, in its order.
\<close>

theorem state_for_spec:
  "StateFor r fips =
     (if router_kind r = ''egress'' \<and> router_backend r = ''gobgp'' \<and> parseExternalPeer (router_external r) \<noteq> None
      then \<lparr>ds_peers = [the (parseExternalPeer (router_external r))],
            ds_prefixes = map prefix_of (router_prefixes r @
              filter (\<lambda>c. c \<noteq> []) (map singleHostCIDR
                (case fips of None \<Rightarrow> [] | Some lookup \<Rightarrow> lookup (router_networks r))))\<rparr>
      else \<lparr>ds_peers = [], ds_prefixes = []\<rparr>)"
  by (auto simp: StateFor_def state_zero_def Let_def filter_map comp_def split: option.splits)

text \<open>
  A link-local address with a zone is announced with the zone in the prefix, which is not a
  CIDR: the check that is meant to skip malformed entries lets it pass.
\<close>

theorem zoned_address_announced:
  "singleHostCIDR ''fe80::1%eth0'' = ''fe80::1%eth0/128'' \<and> singleHostCIDR ''2001:DB8::1'' = ''2001:db8::1/128'' \<and>
   singleHostCIDR ''203.0.113.7'' = ''203.0.113.7/32'' \<and> singleHostCIDR ''203.0.113'' = []"
proof -
  have "ParseAddr ''fe80::1%eth0'' = Some (Addr6 [254, 128, 0, 0, 0, 0, 0, 0, 0, 0, 0, 0, 0, 0, 0, 1] ''eth0'')"
    "ParseAddr ''2001:DB8::1'' = Some (Addr6 [32, 1, 13, 184, 0, 0, 0, 0, 0, 0, 0, 0, 0, 0, 0, 1] [])"
    "ParseAddr ''203.0.113.7'' = Some (Addr4 [203, 0, 113, 7])" "ParseAddr ''203.0.113'' = None"
    by (simp_all add: netip_eval)
  moreover have "show_addr (Addr6 [254, 128, 0, 0, 0, 0, 0, 0, 0, 0, 0, 0, 0, 0, 0, 1] ''eth0'') = ''fe80::1%eth0''"
    "show_addr (Addr6 [32, 1, 13, 184, 0, 0, 0, 0, 0, 0, 0, 0, 0, 0, 0, 1] []) = ''2001:db8::1''"
    "show_addr (Addr4 [203, 0, 113, 7]) = ''203.0.113.7''"
    by (simp_all add: netip_eval)
  ultimately show ?thesis by (simp add: singleHostCIDR_def Is4_def)
qed

text \<open>
  Publishing sends at most one message, on the subject of the router itself: none for a router
  without actionable state, and otherwise the desired state; an error of the connection is returned.
\<close>

theorem publish_one_message:
  "nats_publish b lookup r s =
     (if StateFor r (Some lookup) = state_zero then (Inr (), s)
      else case bus_publish b (''weft.router.'' @ router_uuid r @ ''.config'') (marshal_state (StateFor r (Some lookup))) s of
        (Inl e, s1) \<Rightarrow> (Inl (ErrWrap (''nats publish '' @ SubjectFor (router_uuid r)) e), s1)
      | (Inr _, s1) \<Rightarrow> (case bus_flush b s1 of
          (Inl e, s2) \<Rightarrow> (Inl (ErrWrap ''nats flush'' e), s2)
        | (Inr _, s2) \<Rightarrow> (Inr (), s2)))"
proof -
  have "ds_peers st = [] \<and> ds_prefixes st = [] \<longleftrightarrow> st = state_zero" for st :: DesiredState
    by (cases st) (simp add: state_zero_def)
  then show ?thesis unfolding nats_publish_def send_flush_def SubjectFor_def Let_def by simp
qed

section \<open>The lookup slot\<close>

text \<open>
  A new publisher holds the empty lookup, and from then on its slot can hold nothing else: every
  store of an index panics and leaves it as it was.
\<close>

inductive slot_reachable :: "(string \<Rightarrow> (rpc_err, 'c) result) \<Rightarrow> ('c, 'p) NATS \<Rightarrow> bool" for connect where
  slot_new: "NewNATS connect url = Inr n \<Longrightarrow> slot_reachable connect n"
| slot_set: "slot_reachable connect n \<Longrightarrow> slot_reachable connect (snd (SetFIPLookup fips n))"
| slot_close: "slot_reachable connect n \<Longrightarrow> slot_reachable connect (Close_NATS n)"

lemma slot_holds_noop: "slot_reachable connect n \<Longrightarrow> nats_fips n = Some NoopFIPLookup"
proof (induction rule: slot_reachable.induct)
  case (slot_set n fips)
  have "same_type NoopFIPLookup f \<Longrightarrow> f = NoopFIPLookup" for f :: "'b FIPLookup" by (cases f) simp_all
  with slot_set show ?case by (auto simp: SetFIPLookup_def atomic_store_def split: option.splits)
qed (auto simp: NewNATS_def atomic_store_def Close_NATS_def split: if_splits sum.splits)

text \<open>
  C23. The floating-IP index can never be installed: on any publisher that was built with \<open>NewNATS\<close>,
  whatever was set before, \<open>SetFIPLookup\<close> of an index panics (the slot is an \<^verbatim>\<open>atomic.Value\<close> seeded with
  another concrete type), so no floating IP is ever part of what \<open>Publish\<close> sends.
\<close>

theorem index_lookup_never_installed:
  assumes "slot_reachable connect n"
  shows "fst (SetFIPLookup (Some (IndexRef p)) n) = Inl (GoPanic ''sync/atomic: store of inconsistently typed value into Value'') \<and>
    Publish_NATS index b n r s = nats_publish b (\<lambda>_. []) r s"
proof -
  have noop: "noop_lookup = (\<lambda>_. [])" by (rule ext) (simp add: noop_lookup_def)
  show ?thesis
    using slot_holds_noop [OF assms] by (simp add: SetFIPLookup_def atomic_store_def Publish_NATS_def fipLookup_def noop)
qed

definition fresh_nats :: "(unit, unit) NATS" where
  "fresh_nats = \<lparr>nats_conn = Some (), nats_fips = Some NoopFIPLookup\<rparr>"

lemma fresh_nats_new: "NewNATS (\<lambda>_. Inr ()) ''nats://n:4222'' = Inr fresh_nats"
  by (simp add: NewNATS_def fresh_nats_def atomic_store_def)

theorem index_lookup_never_installed_witness:
  "fst (SetFIPLookup (Some (IndexRef ())) fresh_nats) =
     Inl (GoPanic ''sync/atomic: store of inconsistently typed value into Value'')"
  using index_lookup_never_installed [OF slot_new [OF fresh_nats_new], of "()"] by (rule conjunct1)

section \<open>From the event to the announcement\<close>

text \<open>The prefixes a router gets from an index.\<close>

lemma index_announces:
  assumes "orders_ok (i, ord)" and "by_uuid i u = Some e" and "live e" and "e_network e \<in> set (router_networks r)"
    and "e_network e \<noteq> []" and "router_kind r = ''egress''" and "router_backend r = ''gobgp''"
    and "parseExternalPeer (router_external r) = Some p" and "singleHostCIDR (e_address e) \<noteq> []"
  shows "singleHostCIDR (e_address e) \<in> pa_prefix ` set (ds_prefixes (StateFor r (Some (index_lookup (i, ord)))))"
proof -
  have "e_address e \<in> index_active (i, ord) (e_network e)"
    using assms(2,3,5) unfolding index_active_def addresses_def live_in_def by force
  then show ?thesis
    unfolding index_fips.announced [OF assms(1,6-8)] using assms(4,9) by blast
qed

text \<open>
  C15. When a \<open>mapped\<close> event for an IPv4 address arrives, in any reachable state of the index, the
  next desired state of every gobgp egress router of that network (with a readable external
  peer) contains the address as a /32.
\<close>

theorem mapped_fip_is_announced:
  assumes "feed_reachable s" and "handle_event cb ev s = (fired, (i, m))"
    and "ev_kind ev = ''floating_ip.mapped''" and "ev_subject ev \<noteq> []"
    and "meta_get ev ''network_uuid'' \<noteq> []" and "meta_get ev ''network_uuid'' \<in> set (router_networks r)"
    and "meta_get ev ''address'' = show_ipv4 bs" and "length bs = 4" and "\<forall>b \<in> set bs. b < 256"
    and "router_kind r = ''egress''" and "router_backend r = ''gobgp''" and "parseExternalPeer (router_external r) = Some p"
    and "\<forall>ns. ranges_over (fst (ord ns)) (snd (ord ns)) ns i"
  shows "prefix_of (show_ipv4 bs @ ''/32'') \<in> set (ds_prefixes (StateFor r (Some (index_lookup (i, ord)))))"
proof -
  note step = handle_event_table [OF feed_reachable_ok [OF assms(1)] assms(4), of cb, unfolded assms(2)]
  have T: "by_uuid i (ev_subject ev) = Some ((entry_of_event ev)\<lparr>e_mapped := True\<rparr>)"
    using step(1) assms(3) by (simp add: event_effect_def)
  have ok: "orders_ok (i, ord)" using step(2) assms(13) by (simp add: orders_ok_def)
  let ?e = "(entry_of_event ev)\<lparr>e_mapped := True\<rparr>"
  have e: "e_address ?e = show_ipv4 bs" "e_network ?e = meta_get ev ''network_uuid''"
    using assms(7) by (simp_all add: entry_of_event_def)
  have "live ?e" using e show_ipv4_front [OF assms(8)] by (auto simp: live_def)
  with index_announces [OF ok T, of r p] assms(5,6,10-12) singleHostCIDR_ipv4 [OF assms(8,9)] e
  have "show_ipv4 bs @ ''/32'' \<in> pa_prefix ` set (ds_prefixes (StateFor r (Some (index_lookup (i, ord)))))" by simp
  then obtain x where "x \<in> set (ds_prefixes (StateFor r (Some (index_lookup (i, ord)))))" "pa_prefix x = show_ipv4 bs @ ''/32''"
    by auto
  moreover from this have "x = prefix_of (pa_prefix x)"
    by (auto simp: StateFor_def Let_def prefix_of_def state_zero_def split: if_splits option.splits)
  ultimately show ?thesis by simp
qed

definition sorted_orders :: "Index \<Rightarrow> iter_orders" where
  "sorted_orders i ns = (remdups ns, \<lambda>n. sorted_list_of_set (net_set i n))"

lemma sorted_orders_range: "index_ok i \<Longrightarrow> ranges_over (fst (sorted_orders i ns)) (snd (sorted_orders i ns)) ns i"
proof -
  assume ok: "index_ok i"
  have "net_set i n \<subseteq> dom (by_uuid i)" for n
    unfolding index_okD(4) [OF ok] by (auto simp: net_members_def)
  then have "finite (net_set i n)" for n using index_okD(2) [OF ok] finite_subset by blast
  then show ?thesis by (simp add: ranges_over_def sorted_orders_def)
qed

definition egress_example :: Router where
  "egress_example = router_zero\<lparr>router_uuid := ''u1'', router_kind := ''egress'', router_backend := ''gobgp'',
     router_networks := [''n1''], router_external := show_ipv4 [198, 51, 100, 1]\<rparr>"

theorem mapped_fip_is_announced_witness:
  "\<exists>i ord. prefix_of (show_ipv4 [203, 0, 113, 7] @ ''/32'') \<in> set (ds_prefixes (StateFor egress_example (Some (index_lookup (i, ord)))))"
proof -
  let ?ev = "event_zero\<lparr>ev_kind := ''floating_ip.mapped'', ev_subject := ''f1'',
    ev_meta := [''network_uuid'' \<mapsto> ''n1'', ''address'' \<mapsto> show_ipv4 [203, 0, 113, 7]]\<rparr>"
  obtain fired i m where run: "handle_event True ?ev (index_new, metrics_new) = (fired, (i, m))"
    by (metis prod.collapse)
  have reach: "feed_reachable (index_new, metrics_new)" by blast
  have "index_ok i" using handle_event_table(2) [OF feed_reachable_ok [OF reach], of ?ev True] run by (simp add: event_zero_def)
  then have "\<forall>ns. ranges_over (fst (sorted_orders i ns)) (snd (sorted_orders i ns)) ns i"
    using sorted_orders_range by blast
  moreover have "parseExternalPeer (show_ipv4 [198, 51, 100, 1]) = Some (peer_of (show_ipv4 [198, 51, 100, 1]) 0)"
  proof -
    have "trim_space (show_ipv4 [198, 51, 100, 1]) = show_ipv4 [198, 51, 100, 1]" by (rule trim_space_plain [OF plain_ipv4])
    moreover have "last_index_byte (show_ipv4 [198, 51, 100, 1]) (CHR '':'') = None"
      using ipv4_no_colon [of "[198, 51, 100, 1]"] last_index_byte_None by force
    moreover have "show_ipv4 [198, 51, 100, 1] \<noteq> []" using show_ipv4_front [of "[198, 51, 100, 1]"] by auto
    ultimately show ?thesis using parse_ip_ok_ipv4 [of "[198, 51, 100, 1]"] by (simp add: parseExternalPeer_def Let_def)
  qed
  ultimately have "prefix_of (show_ipv4 [203, 0, 113, 7] @ ''/32'') \<in>
      set (ds_prefixes (StateFor egress_example (Some (index_lookup (i, sorted_orders i)))))"
    using mapped_fip_is_announced [OF reach run, of egress_example "[203, 0, 113, 7]" _ "sorted_orders i"]
    by (simp add: event_zero_def meta_get_def egress_example_def)
  then show ?thesis by blast
qed

end
