(* ===== verification/Lifecycle.thy ===== *)
theory Lifecycle
  imports Router_Store
begin

text \<open>
  The router lifecycle: \<^verbatim>\<open>internal/lifecycle\<close>. A router of kind egress on the gobgp backend has one
  micro-VM per replica; \<open>Ensure\<close> registers and starts them through the weft agent, \<open>Destroy\<close> stops
  and deletes them. The agent is code outside the repository: a record of the calls made on it,
  with the gRPC status each may return.
\<close>

section \<open>Status codes\<close>

datatype grpc_code =
    OK | Canceled | Unknown | InvalidArgument | DeadlineExceeded | NotFound | AlreadyExists
  | PermissionDenied | ResourceExhausted | FailedPrecondition | Aborted | OutOfRange
  | Unimplemented | Internal | Unavailable | DataLoss | Unauthenticated

text \<open>A failed call returns its code and its text; \<open>status.Code\<close> of an error is its first component.\<close>

type_synonym agent_err = "grpc_code \<times> string"

text \<open>The error of a lifecycle call: what was called, and the wrapped error.\<close>

datatype lc_err = LcWrap string agent_err | LcMsg string

section \<open>The agent\<close>

record VMRequest =
  vm_name :: string
  vm_project :: string
  vm_image :: string

record FloatingIPInfo =
  fi_uuid :: string
  fi_address :: string
  fi_network :: string
  fi_project :: string
  fi_mapped_to :: string
  fi_status :: string

text \<open>
  A response may be nil, and so may an element of its list. \<open>StartVM\<close>, \<open>StopVM\<close> and \<open>DeleteVM\<close>
  carry no image: their requests leave it empty.
\<close>

record 's agentClient =
  RegisterMicroVM :: "VMRequest \<Rightarrow> 's \<Rightarrow> (agent_err, unit) result \<times> 's"
  StartVM :: "VMRequest \<Rightarrow> 's \<Rightarrow> (agent_err, unit) result \<times> 's"
  StopVM :: "VMRequest \<Rightarrow> 's \<Rightarrow> (agent_err, unit) result \<times> 's"
  DeleteVM :: "VMRequest \<Rightarrow> 's \<Rightarrow> (agent_err, unit) result \<times> 's"
  AgentListFloatingIPs :: "'s \<Rightarrow> (agent_err, FloatingIPInfo option list option) result \<times> 's"

record FIPSnapshot =
  snap_uuid :: string
  snap_address :: string
  snap_network :: string
  snap_project :: string
  snap_mapped_to :: string
  snap_status :: string

record 's WeftClient =
  wc_image :: string
  wc_project :: string
  wc_client :: "'s agentClient"
  wc_conn :: bool

section \<open>Names\<close>

definition maxReplicas :: nat where
  "maxReplicas = 10"

definition vmBareName :: "string \<Rightarrow> string" where
  "vmBareName routerUUID = ''weft-router-'' @ routerUUID"

definition itoa :: "nat \<Rightarrow> string" where
  "itoa n = dec_digits n"

definition replicaNames :: "string \<Rightarrow> nat \<Rightarrow> string list" where
  "replicaNames routerUUID n = map (\<lambda>i. ''weft-router-'' @ routerUUID @ ''-'' @ itoa (i + 1)) [0..<n]"

definition vmNamesFor :: "string \<Rightarrow> i64 \<Rightarrow> string list" where
  "vmNamesFor routerUUID replicas =
     (if sint replicas \<le> 1 then [vmBareName routerUUID]
      else replicaNames routerUUID (if sint replicas > int maxReplicas then maxReplicas else nat (sint replicas)))"

section \<open>Operations\<close>

text \<open>\<open>NewWeftClient\<close>: \<open>dial\<close> is what connecting to the socket gives.\<close>

definition newWeftClientWithStub :: "string \<Rightarrow> string \<Rightarrow> 's agentClient \<Rightarrow> 's WeftClient" where
  "newWeftClientWithStub img project c =
     \<lparr>wc_image = img, wc_project = (if project = [] then ''platform'' else project), wc_client = c,
      wc_conn = False\<rparr>"

definition NewWeftClient ::
  "(string \<Rightarrow> (agent_err, 's agentClient) result) \<Rightarrow> string \<Rightarrow> string \<Rightarrow> string \<Rightarrow> (lc_err, 's WeftClient) result" where
  "NewWeftClient dial socketPath img project =
     (if img = [] then Inl (LcMsg ''weftclient: image is required'')
      else
        (let project' = (if project = [] then ''platform'' else project) in
         case dial socketPath of
           Inl e \<Rightarrow> Inl (LcWrap (''weftclient: dial '' @ socketPath) e)
         | Inr client \<Rightarrow> Inr \<lparr>wc_image = img, wc_project = project', wc_client = client, wc_conn = True\<rparr>))"

text \<open>The connection is closed once; a client around a stub has none.\<close>

definition Close_Weft :: "'s WeftClient \<Rightarrow> 's WeftClient" where
  "Close_Weft w = (if wc_conn w then w\<lparr>wc_conn := False\<rparr> else w)"

lemma Close_Weft_idem: "Close_Weft (Close_Weft w) = Close_Weft w" "\<not> wc_conn (Close_Weft w)"
  by (simp_all add: Close_Weft_def)

fun ensure_loop :: "'s WeftClient \<Rightarrow> string list \<Rightarrow> 's \<Rightarrow> (lc_err, unit) result \<times> 's" where
  "ensure_loop w [] s = (Inr (), s)"
| "ensure_loop w (name # names) s =
     (let start = (\<lambda>s1. case StartVM (wc_client w) \<lparr>vm_name = name, vm_project = wc_project w, vm_image = []\<rparr> s1 of
            (Inl e, s2) \<Rightarrow>
              if fst e \<in> {AlreadyExists, FailedPrecondition} then ensure_loop w names s2
              else (Inl (LcWrap (''StartVM '' @ name) e), s2)
          | (Inr _, s2) \<Rightarrow> ensure_loop w names s2) in
      case RegisterMicroVM (wc_client w) \<lparr>vm_name = name, vm_project = wc_project w, vm_image = wc_image w\<rparr> s of
        (Inl e, s1) \<Rightarrow>
          if fst e \<noteq> AlreadyExists then (Inl (LcWrap (''RegisterMicroVM '' @ name) e), s1) else start s1
      | (Inr _, s1) \<Rightarrow> start s1)"

definition Ensure :: "'s WeftClient \<Rightarrow> Router \<Rightarrow> 's \<Rightarrow> (lc_err, unit) result \<times> 's" where
  "Ensure w r s =
     (if router_kind r \<noteq> ''egress'' \<or> router_backend r \<noteq> ''gobgp'' then (Inr (), s)
      else ensure_loop w (vmNamesFor (router_uuid r) (router_replicas r)) s)"

fun destroy_loop :: "'s WeftClient \<Rightarrow> string list \<Rightarrow> 's \<Rightarrow> (lc_err, unit) result \<times> 's" where
  "destroy_loop w [] s = (Inr (), s)"
| "destroy_loop w (name # names) s =
     (let req = \<lparr>vm_name = name, vm_project = wc_project w, vm_image = []\<rparr>;
          (_, s1) = StopVM (wc_client w) req s in
      case DeleteVM (wc_client w) req s1 of
        (Inl e, s2) \<Rightarrow>
          if fst e = NotFound then destroy_loop w names s2
          else (Inl (LcWrap (''DeleteVM '' @ name) e), s2)
      | (Inr _, s2) \<Rightarrow> destroy_loop w names s2)"

definition Destroy :: "'s WeftClient \<Rightarrow> string \<Rightarrow> 's \<Rightarrow> (lc_err, unit) result \<times> 's" where
  "Destroy w uuid s = destroy_loop w (vmBareName uuid # replicaNames uuid maxReplicas) s"

definition snapshot_of :: "FloatingIPInfo \<Rightarrow> FIPSnapshot" where
  "snapshot_of f = \<lparr>snap_uuid = fi_uuid f, snap_address = fi_address f, snap_network = fi_network f,
     snap_project = fi_project f, snap_mapped_to = fi_mapped_to f, snap_status = fi_status f\<rparr>"

definition ListFloatingIPs :: "'s WeftClient \<Rightarrow> 's \<Rightarrow> (lc_err, FIPSnapshot list) result \<times> 's" where
  "ListFloatingIPs w s =
     (case AgentListFloatingIPs (wc_client w) s of
        (Inl e, s1) \<Rightarrow> (Inl (LcWrap ''ListFloatingIPs'' e), s1)
      | (Inr None, s1) \<Rightarrow> (Inr [], s1)
      | (Inr (Some fs), s1) \<Rightarrow> (Inr (map snapshot_of (List.map_filter id fs)), s1))"

text \<open>The interface the server uses, and its two implementations.\<close>

record 's router_lifecycle =
  lc_ensure :: "Router \<Rightarrow> 's \<Rightarrow> (lc_err, unit) result \<times> 's"
  lc_destroy :: "string \<Rightarrow> 's \<Rightarrow> (lc_err, unit) result \<times> 's"

definition noop_lifecycle :: "'s router_lifecycle" where
  "noop_lifecycle = \<lparr>lc_ensure = (\<lambda>r s. (Inr (), s)), lc_destroy = (\<lambda>u s. (Inr (), s))\<rparr>"

definition weft_lifecycle :: "'s WeftClient \<Rightarrow> 's router_lifecycle" where
  "weft_lifecycle w = \<lparr>lc_ensure = Ensure w, lc_destroy = Destroy w\<rparr>"

section \<open>What the agent promises\<close>

text \<open>
  The documented behaviour of the agent that the code relies on: \<open>vms s\<close> is its inventory of
  (project, name) pairs. Registering adds one (or reports that it is there already), deleting
  removes one (or reports that it is not there); another error may come before or after the effect;
  starting and stopping leave the inventory alone.
\<close>

definition register_law :: "'s agentClient \<Rightarrow> ('s \<Rightarrow> (string \<times> string) set) \<Rightarrow> bool" where
  "register_law ag vms \<longleftrightarrow> (\<forall>q s res s'. RegisterMicroVM ag q s = (res, s') \<longrightarrow>
     vms s \<subseteq> vms s' \<and> vms s' \<subseteq> insert (vm_project q, vm_name q) (vms s) \<and>
     (case res of Inr _ \<Rightarrow> (vm_project q, vm_name q) \<in> vms s'
      | Inl e \<Rightarrow> fst e = AlreadyExists \<longrightarrow> (vm_project q, vm_name q) \<in> vms s'))"

definition delete_law :: "'s agentClient \<Rightarrow> ('s \<Rightarrow> (string \<times> string) set) \<Rightarrow> bool" where
  "delete_law ag vms \<longleftrightarrow> (\<forall>q s res s'. DeleteVM ag q s = (res, s') \<longrightarrow>
     vms s' \<subseteq> vms s \<and> vms s - {(vm_project q, vm_name q)} \<subseteq> vms s' \<and>
     (case res of Inr _ \<Rightarrow> (vm_project q, vm_name q) \<notin> vms s'
      | Inl e \<Rightarrow> fst e = NotFound \<longrightarrow> (vm_project q, vm_name q) \<notin> vms s'))"

definition agent_laws :: "'s agentClient \<Rightarrow> ('s \<Rightarrow> (string \<times> string) set) \<Rightarrow> bool" where
  "agent_laws ag vms \<longleftrightarrow> register_law ag vms \<and> delete_law ag vms \<and>
     (\<forall>q s. vms (snd (StartVM ag q s)) = vms s) \<and> (\<forall>q s. vms (snd (StopVM ag q s)) = vms s)"

lemma agent_start_stop [simp]:
  "agent_laws ag vms \<Longrightarrow> vms (snd (StartVM ag q s)) = vms s"
  "agent_laws ag vms \<Longrightarrow> vms (snd (StopVM ag q s)) = vms s"
  by (simp_all add: agent_laws_def)

lemma agent_register:
  assumes "agent_laws ag vms" and "RegisterMicroVM ag q s = (res, s')"
  shows "vms s \<subseteq> vms s'" and "vms s' \<subseteq> insert (vm_project q, vm_name q) (vms s)"
    and "res = Inr u \<or> res = Inl e \<and> fst e = AlreadyExists \<Longrightarrow> (vm_project q, vm_name q) \<in> vms s'"
proof -
  from assms(1) have "register_law ag vms" unfolding agent_laws_def by (elim conjE)
  note law = this [unfolded register_law_def, rule_format, OF assms(2)]
  from law show "vms s \<subseteq> vms s'" by (elim conjE)
  from law show "vms s' \<subseteq> insert (vm_project q, vm_name q) (vms s)" by (elim conjE)
  from law show "res = Inr u \<or> res = Inl e \<and> fst e = AlreadyExists \<Longrightarrow> (vm_project q, vm_name q) \<in> vms s'"
    by (cases res) simp_all
qed

lemma agent_delete:
  assumes "agent_laws ag vms" and "DeleteVM ag q s = (res, s')"
  shows "vms s' \<subseteq> vms s" and "vms s - {(vm_project q, vm_name q)} \<subseteq> vms s'"
    and "res = Inr u \<or> res = Inl e \<and> fst e = NotFound \<Longrightarrow> (vm_project q, vm_name q) \<notin> vms s'"
proof -
  from assms(1) have "delete_law ag vms" unfolding agent_laws_def by (elim conjE)
  note law = this [unfolded delete_law_def, rule_format, OF assms(2)]
  from law show "vms s' \<subseteq> vms s" by (elim conjE)
  from law show "vms s - {(vm_project q, vm_name q)} \<subseteq> vms s'" by (elim conjE)
  from law show "res = Inr u \<or> res = Inl e \<and> fst e = NotFound \<Longrightarrow> (vm_project q, vm_name q) \<notin> vms s'"
    by (cases res) simp_all
qed

section \<open>Names do not clash\<close>

lemma vmBareName_inj [simp]: "vmBareName u = vmBareName v \<longleftrightarrow> u = v"
  by (simp add: vmBareName_def)

lemma length_replicaNames [simp]: "length (replicaNames u n) = n"
  by (simp add: replicaNames_def)

lemma dash_not_digit: "CHR ''-'' \<notin> set (itoa n)"
proof -
  have "\<not> is_digit (CHR ''-'')" by (simp add: is_digit_def)
  then show ?thesis unfolding itoa_def by (rule dec_digits_no_char)
qed

lemma split_first_eq:
  "xs @ c # ys = xs' @ c # ys' \<Longrightarrow> c \<notin> set xs \<Longrightarrow> c \<notin> set xs' \<Longrightarrow> xs = xs' \<and> ys = ys'"
  by (induction xs arbitrary: xs') (auto simp: Cons_eq_append_conv append_eq_Cons_conv)

lemma dashed_eq:
  assumes "u @ ''-'' @ itoa m = v @ ''-'' @ itoa n"
  shows "u = v \<and> m = n"
proof -
  have "rev (itoa m) @ CHR ''-'' # rev u = rev (itoa n) @ CHR ''-'' # rev v"
    using arg_cong [OF assms, of rev] by simp
  then have "rev (itoa m) = rev (itoa n) \<and> rev u = rev v"
    using dash_not_digit [of m] dash_not_digit [of n]
    by (intro split_first_eq) simp_all
  then show ?thesis by (simp add: itoa_def)
qed

end
