(* ===== verification/Lifecycle_Properties.thy ===== *)
theory Lifecycle_Properties
  imports Lifecycle
begin

text \<open>
  What the lifecycle of a router achieves on an agent that keeps its promises: \<open>Ensure\<close> produces the
  micro-VMs of the router, \<open>Destroy\<close> removes every one that any \<open>Ensure\<close> of it may have produced, and
  neither touches another router's.
\<close>

section \<open>Lemmas\<close>

text \<open>The names \<open>Destroy\<close> probes, and the pairs they stand for in the inventory.\<close>

definition probed_names :: "string \<Rightarrow> string list" where
  "probed_names u = vmBareName u # replicaNames u maxReplicas"

definition vm_pairs :: "'s WeftClient \<Rightarrow> string list \<Rightarrow> (string \<times> string) set" where
  "vm_pairs w names = Pair (wc_project w) ` set names"

lemma vm_pairs_simps [simp]:
  "vm_pairs w [] = {}" "vm_pairs w (n # ns) = insert (wc_project w, n) (vm_pairs w ns)"
  by (simp_all add: vm_pairs_def)

lemma vm_pairs_mono: "set xs \<subseteq> set ys \<Longrightarrow> vm_pairs w xs \<subseteq> vm_pairs w ys"
  by (auto simp: vm_pairs_def)

lemma replicaNames_mono: "m \<le> n \<Longrightarrow> set (replicaNames u m) \<subseteq> set (replicaNames u n)"
  by (auto simp: replicaNames_def)

lemma vmNamesFor_probed: "set (vmNamesFor u n) \<subseteq> set (probed_names u)"
proof -
  have "set (replicaNames u (nat (sint n))) \<subseteq> set (replicaNames u maxReplicas)" if "\<not> int maxReplicas < sint n"
    using that by (intro replicaNames_mono) linarith
  then show ?thesis by (auto simp: vmNamesFor_def probed_names_def)
qed

lemma ensure_loop_vms:
  assumes "agent_laws (wc_client w) vms" and "ensure_loop w names s = (res, s')"
  shows "vms s \<subseteq> vms s' \<and> vms s' \<subseteq> vms s \<union> vm_pairs w names \<and> (res = Inr () \<longrightarrow> vm_pairs w names \<subseteq> vms s')"
  using assms(2)
proof (induction names arbitrary: s)
  case Nil
  then show ?case by simp
next
  case (Cons n ns)
  let ?x = "(wc_project w, n)" and ?q = "\<lparr>vm_name = n, vm_project = wc_project w, vm_image = wc_image w\<rparr>"
    and ?q' = "\<lparr>vm_name = n, vm_project = wc_project w, vm_image = []\<rparr>"
  obtain r1 s1 where reg: "RegisterMicroVM (wc_client w) ?q s = (r1, s1)" by fastforce
  obtain r2 s2 where st: "StartVM (wc_client w) ?q' s1 = (r2, s2)" by fastforce
  have grow: "vms s \<subseteq> vms s1" "vms s1 \<subseteq> insert ?x (vms s)"
    using agent_register(1,2) [OF assms(1) reg] by simp_all
  have there: "?x \<in> vms s1" if "r1 = Inr u \<or> r1 = Inl e \<and> fst e = AlreadyExists" for u e
    using agent_register(3) [OF assms(1) reg that] by simp
  have same: "vms s2 = vms s1" using agent_start_stop(1) [OF assms(1), of ?q' s1] st by simp
  have step: "(\<exists>u e. r1 = Inr u \<or> r1 = Inl e \<and> fst e = AlreadyExists) \<and> ensure_loop w ns s2 = (res, s') \<or>
      res \<noteq> Inr () \<and> (s' = s1 \<or> s' = s2)"
    using Cons.prems reg st by (auto simp: Let_def split: sum.splits if_splits)
  then show ?case
  proof (elim disjE conjE exE)
    fix u e
    assume "r1 = Inr u" "ensure_loop w ns s2 = (res, s')"
    with Cons.IH [of s2] there [of u] grow same show ?thesis by auto
  next
    fix e
    assume "r1 = Inl e" "fst e = AlreadyExists" "ensure_loop w ns s2 = (res, s')"
    with Cons.IH [of s2] there [of _ e] grow same show ?thesis by auto
  qed (use grow same in auto)
qed

lemma destroy_loop_vms:
  assumes "agent_laws (wc_client w) vms" and "destroy_loop w names s = (res, s')"
  shows "vms s' \<subseteq> vms s \<and> vms s - vm_pairs w names \<subseteq> vms s' \<and> (res = Inr () \<longrightarrow> vms s' \<inter> vm_pairs w names = {})"
  using assms(2)
proof (induction names arbitrary: s)
  case Nil
  then show ?case by simp
next
  case (Cons n ns)
  let ?x = "(wc_project w, n)" and ?q = "\<lparr>vm_name = n, vm_project = wc_project w, vm_image = []\<rparr>"
  obtain r1 s1 where stop: "StopVM (wc_client w) ?q s = (r1, s1)" by fastforce
  obtain r2 s2 where del: "DeleteVM (wc_client w) ?q s1 = (r2, s2)" by fastforce
  have same: "vms s1 = vms s" using agent_start_stop(2) [OF assms(1), of ?q s] stop by simp
  have shrink: "vms s2 \<subseteq> vms s" "vms s - {?x} \<subseteq> vms s2"
    using agent_delete(1,2) [OF assms(1) del] same by simp_all
  have gone: "?x \<notin> vms s2" if "r2 = Inr u \<or> r2 = Inl e \<and> fst e = NotFound" for u e
    using agent_delete(3) [OF assms(1) del that] by simp
  have step: "(\<exists>u e. r2 = Inr u \<or> r2 = Inl e \<and> fst e = NotFound) \<and> destroy_loop w ns s2 = (res, s') \<or>
      res \<noteq> Inr () \<and> s' = s2"
    using Cons.prems stop del by (auto simp: Let_def split: sum.splits if_splits)
  then show ?case
  proof (elim disjE conjE exE)
    fix u e
    assume "r2 = Inr u" "destroy_loop w ns s2 = (res, s')"
    with Cons.IH [of s2] gone [of u] shrink show ?thesis by auto
  next
    fix e
    assume "r2 = Inl e" "fst e = NotFound" "destroy_loop w ns s2 = (res, s')"
    with Cons.IH [of s2] gone [of _ e] shrink show ?thesis by auto
  qed (use shrink in auto)
qed

lemma Destroy_vms:
  assumes "agent_laws (wc_client w) vms" and "Destroy w u s = (res, s')"
  shows "vms s' \<subseteq> vms s" and "vms s - vm_pairs w (probed_names u) \<subseteq> vms s'"
    and "res = Inr () \<Longrightarrow> vms s' \<inter> vm_pairs w (probed_names u) = {}"
  using destroy_loop_vms [OF assms(1), of "probed_names u"] assms(2) by (simp_all add: Destroy_def probed_names_def)

lemma Ensure_vms:
  assumes "agent_laws (wc_client w) vms" and "Ensure w r s = (res, s')"
  shows "vms s \<subseteq> vms s'" and "vms s' \<subseteq> vms s \<union> vm_pairs w (vmNamesFor (router_uuid r) (router_replicas r))"
    and "res = Inr () \<Longrightarrow> router_kind r = ''egress'' \<Longrightarrow> router_backend r = ''gobgp'' \<Longrightarrow>
         vm_pairs w (vmNamesFor (router_uuid r) (router_replicas r)) \<subseteq> vms s'"
  using ensure_loop_vms [OF assms(1), of "vmNamesFor (router_uuid r) (router_replicas r)" s res s'] assms(2)
  by (auto simp: Ensure_def split: if_splits)

text \<open>Two routers whose uuids have no dash (the server draws hexadecimal ones) share no name.\<close>

lemma bare_not_replica: "CHR ''-'' \<notin> set v \<Longrightarrow> vmBareName v \<notin> set (replicaNames u n)"
  by (auto simp: vmBareName_def replicaNames_def)

lemma probed_disjoint:
  assumes "u \<noteq> v" and "CHR ''-'' \<notin> set u" and "CHR ''-'' \<notin> set v"
  shows "set (probed_names u) \<inter> set (probed_names v) = {}"
proof -
  have "set (replicaNames u maxReplicas) \<inter> set (replicaNames v maxReplicas) = {}"
  proof (rule ccontr)
    assume "\<not> ?thesis"
    then obtain i j where "''weft-router-'' @ u @ ''-'' @ itoa i = ''weft-router-'' @ v @ ''-'' @ itoa j"
      unfolding replicaNames_def by force
    then have "u = v" using dashed_eq [of u i v j] by (simp only: same_append_eq)
    with assms(1) show False by simp
  qed
  then show ?thesis
    using assms bare_not_replica [of u v] bare_not_replica [of v u] by (auto simp: probed_names_def)
qed

section \<open>What a router calls for\<close>

text \<open>The micro-VMs a router calls for: only egress routers of the gobgp backend have any.\<close>

definition wanted_vms :: "'s WeftClient \<Rightarrow> Router \<Rightarrow> (string \<times> string) set" where
  "wanted_vms wc r = (if router_kind r = ''egress'' \<and> router_backend r = ''gobgp''
     then vm_pairs wc (vmNamesFor (router_uuid r) (router_replicas r)) else {})"

lemma ensure_exact:
  assumes "agent_laws (wc_client wc) vms" and "fst (Ensure wc r s) = Inr ()"
  shows "vms (snd (Ensure wc r s)) = vms s \<union> wanted_vms wc r"
proof -
  obtain s' where run: "Ensure wc r s = (Inr (), s')" using assms(2) by (cases "Ensure wc r s") auto
  show ?thesis
  proof (cases "router_kind r = ''egress'' \<and> router_backend r = ''gobgp''")
    case True
    with run Ensure_vms [OF assms(1) run] show ?thesis by (auto simp: wanted_vms_def)
  next
    case False
    then have "Ensure wc r s = (Inr (), s)" by (simp add: Ensure_def)
    with False show ?thesis by (simp only: wanted_vms_def snd_conv if_False Un_empty_right)
  qed
qed

section \<open>An agent that keeps its promises\<close>

text \<open>An inventory held as a set: the instance on which the properties are witnessed.\<close>

definition set_agent :: "(string \<times> string) set agentClient" where
  "set_agent = \<lparr>
     RegisterMicroVM = (\<lambda>q s. if (vm_project q, vm_name q) \<in> s then (Inl (AlreadyExists, ''vm exists''), s)
        else (Inr (), insert (vm_project q, vm_name q) s)),
     StartVM = (\<lambda>q s. (Inr (), s)), StopVM = (\<lambda>q s. (Inr (), s)),
     DeleteVM = (\<lambda>q s. if (vm_project q, vm_name q) \<in> s then (Inr (), s - {(vm_project q, vm_name q)})
        else (Inl (NotFound, ''no such vm''), s)),
     AgentListFloatingIPs = (\<lambda>s. (Inr None, s))\<rparr>"

lemma set_agent_laws: "agent_laws set_agent (\<lambda>s. s)"
  unfolding agent_laws_def register_law_def delete_law_def set_agent_def
  by (intro conjI allI impI) (simp_all, (force split: if_splits)+)

section \<open>Properties\<close>

text \<open>
  An \<open>Ensure\<close> that succeeds leaves exactly the router's micro-VMs added to the inventory: one
  name per replica, between one and ten, all different.
\<close>

theorem ensure_creates_vms:
  assumes "agent_laws (wc_client w) vms" and "router_kind r = ''egress''" and "router_backend r = ''gobgp''"
    and "Ensure w r s = (Inr (), s')"
  shows "vms s' = vms s \<union> vm_pairs w (vmNamesFor (router_uuid r) (router_replicas r)) \<and>
    distinct (vmNamesFor (router_uuid r) (router_replicas r)) \<and>
    int (length (vmNamesFor (router_uuid r) (router_replicas r))) = max 1 (min 10 (sint (router_replicas r)))"
proof -
  have "distinct (replicaNames u n)" for u n
    using dashed_eq [of u _ u] by (auto simp: replicaNames_def distinct_map inj_on_def itoa_def)
  then have "distinct (vmNamesFor (router_uuid r) (router_replicas r))" by (simp add: vmNamesFor_def)
  moreover have "int (length (vmNamesFor (router_uuid r) (router_replicas r))) = max 1 (min 10 (sint (router_replicas r)))"
    by (simp add: vmNamesFor_def maxReplicas_def)
  ultimately show ?thesis using Ensure_vms [OF assms(1,4)] assms(2,3) by blast
qed

abbreviation demo_router :: "string \<Rightarrow> Router" where
  "demo_router u \<equiv> router_zero\<lparr>router_uuid := u, router_kind := ''egress'', router_backend := ''gobgp'', router_replicas := 2\<rparr>"

abbreviation demo_client :: "(string \<times> string) set WeftClient" where
  "demo_client \<equiv> newWeftClientWithStub ''img'' [] set_agent"

lemmas lifecycle_eval = Ensure_def Destroy_def vmNamesFor_def replicaNames_def vmBareName_def itoa_def maxReplicas_def
  newWeftClientWithStub_def set_agent_def Let_def upt_rec dec_digits.simps digit_char_def char_of_def bit_0

lemma demo_ensure: "Ensure demo_client (demo_router ''ab'') {} =
    (Inr (), {(''platform'', ''weft-router-ab-1''), (''platform'', ''weft-router-ab-2'')})"
  by (simp add: lifecycle_eval insert_commute)

lemma demo_client_laws: "agent_laws (wc_client demo_client) (\<lambda>s. s)"
  using set_agent_laws by (simp add: newWeftClientWithStub_def)

theorem ensure_creates_vms_witness:
  "snd (Ensure demo_client (demo_router ''ab'') {}) = vm_pairs demo_client (vmNamesFor ''ab'' 2)"
  using ensure_creates_vms [OF demo_client_laws _ _ demo_ensure] demo_ensure by simp

text \<open>
  C18. A \<open>Destroy\<close> that succeeds removes every micro-VM an earlier \<open>Ensure\<close> of the router may have
  made, whether that \<open>Ensure\<close> succeeded or stopped half-way and whatever replica count it was
  called with, and removes nothing that is not one of the router's names.
\<close>

theorem destroy_undoes_ensure:
  assumes "agent_laws (wc_client w) vms" and "Ensure w r s = (res, s1)"
    and "Destroy w (router_uuid r) s1 = (Inr (), s2)"
  shows "vms s2 \<inter> vm_pairs w (vmNamesFor (router_uuid r) n) = {} \<and>
    vms s2 = vms s - vm_pairs w (probed_names (router_uuid r))"
proof -
  have sub: "vm_pairs w (vmNamesFor (router_uuid r) k) \<subseteq> vm_pairs w (probed_names (router_uuid r))" for k
    by (rule vm_pairs_mono) (rule vmNamesFor_probed)
  from Ensure_vms(1,2) [OF assms(1,2)] Destroy_vms [OF assms(1,3)] sub [of n] sub [of "router_replicas r"]
  show ?thesis by blast
qed

lemma demo_destroy: "Destroy demo_client ''ab'' {(''platform'', ''weft-router-ab-1''), (''platform'', ''weft-router-ab-2'')} =
    (Inr (), {})"
  by (simp add: lifecycle_eval)

theorem destroy_undoes_ensure_witness:
  "snd (Destroy demo_client ''ab'' (snd (Ensure demo_client (demo_router ''ab'') {}))) = {}"
  using destroy_undoes_ensure [OF demo_client_laws demo_ensure, of "{}" 2] demo_destroy demo_ensure
  by simp

text \<open>
  Tearing one router down, successfully or not, never removes a micro-VM of another router
  whose uuid differs (uuids are hexadecimal, so they hold no dash).
\<close>

theorem destroy_spares_others:
  assumes "agent_laws (wc_client w) vms" and "u \<noteq> v" and "CHR ''-'' \<notin> set u" and "CHR ''-'' \<notin> set v"
    and "Destroy w u s = (res, s')"
  shows "vms s' \<inter> vm_pairs w (vmNamesFor v n) = vms s \<inter> vm_pairs w (vmNamesFor v n)"
proof -
  have "vm_pairs w (vmNamesFor v n) \<inter> vm_pairs w (probed_names u) = {}"
    using probed_disjoint [OF assms(2-4)] vmNamesFor_probed [of v n] by (auto simp: vm_pairs_def)
  with Destroy_vms(1,2) [OF assms(1,5)] show ?thesis by auto
qed

theorem destroy_spares_others_witness:
  "snd (Destroy demo_client ''cd'' {(''platform'', ''weft-router-ab'')}) \<inter> vm_pairs demo_client (vmNamesFor ''ab'' 1) =
   {(''platform'', ''weft-router-ab'')}"
  using destroy_spares_others [OF demo_client_laws _ _ _ prod.collapse [symmetric],
      of "''cd''" "''ab''" "{(''platform'', ''weft-router-ab'')}" 1]
  by (simp add: vmNamesFor_def vmBareName_def vm_pairs_def newWeftClientWithStub_def)

text \<open>The names of ten replicas are not in lexicographic order: the tenth comes before the second.\<close>

theorem replica_names_unsorted:
  "\<not> sorted (vmNamesFor ''ab'' 10) \<and> sorted (vmNamesFor ''ab'' 9)"
  by (simp add: lifecycle_eval less_eq_char_def of_char_def)

end
