(* ===== verification/Server.thy ===== *)
theory Server
  imports Scheduling_Store LB_Store DNS_Memory DNS_Etcd Publisher Lifecycle
begin

text \<open>
  The gRPC server: \<^verbatim>\<open>internal/server\<close>. The sixteen handlers over the store interfaces, the router
  publisher and the router lifecycle; the construction of the server and its fallbacks; and the
  resynchronisation at startup. Of a request only the fields the handler reads are kept. The state
  has two parts, the stores (\<open>'d\<close>) and the world outside (\<open>'w\<close>: NATS and the weft agent); the random
  bytes of a uuid and the time of day are arguments of the handlers that draw them.
\<close>

section \<open>The stores behind the server\<close>

record ('v, 'd) row_backend =
  rb_list :: "string \<Rightarrow> 'd \<Rightarrow> (store_err, 'v list) result \<times> 'd"
  rb_create :: "'v \<Rightarrow> 'd \<Rightarrow> (store_err, 'v) result \<times> 'd"
  rb_delete :: "string \<Rightarrow> 'd \<Rightarrow> (store_err, unit) result \<times> 'd"
  rb_get :: "string \<Rightarrow> 'd \<Rightarrow> (store_err, 'v) result \<times> 'd"

record 'd stores =
  st_rules :: "(Rule, 'd) row_backend"
  st_dns :: "'d dns_backend"
  st_list_zones :: "string \<Rightarrow> 'd \<Rightarrow> (store_err, Zone list) result \<times> 'd"
  st_list_records :: "string \<Rightarrow> 'd \<Rightarrow> (store_err, Record list) result \<times> 'd"
  st_routers :: "(Router, 'd) row_backend"
  st_update_status :: "string \<times> string \<Rightarrow> string \<Rightarrow> 'd \<Rightarrow> (store_err, unit) result \<times> 'd"
  st_lbs :: "(LoadBalancer, 'd) row_backend"
  st_set_backends :: "string list \<Rightarrow> string \<Rightarrow> 'd \<Rightarrow> (store_err, LoadBalancer) result \<times> 'd"

record ('d, 'w) Server =
  srv_stores :: "'d stores"
  srv_publisher :: "'w router_publisher"
  srv_lifecycle :: "'w router_lifecycle"
  srv_etcd :: bool

text \<open>What the status receiver and the republishing get of it: the store of the routers, with its status update.\<close>

definition RouterStore ::
  "('d, 'w) Server \<Rightarrow> (Router, 'd) row_backend \<times> (string \<times> string \<Rightarrow> string \<Rightarrow> 'd \<Rightarrow> (store_err, unit) result \<times> 'd)" where
  "RouterStore sv = (st_routers (srv_stores sv), st_update_status (srv_stores sv))"

section \<open>Statuses\<close>

text \<open>A status keeps its format and its arguments apart; \<open>status.Error\<close> has no arguments.\<close>

datatype fmt_arg = AStr string | AInt int | AErr store_err

datatype grpc_status = Status (st_code: grpc_code) (st_fmt: string) (st_args: "fmt_arg list")

abbreviation invalid :: "string \<Rightarrow> fmt_arg list \<Rightarrow> grpc_status" where
  "invalid \<equiv> Status InvalidArgument"

text \<open>
  What the handlers of the four domains repeat: a listing, an insertion into the store, and a
  deletion, each with its translation of errors. \<open>what\<close> is the noun of the messages.
\<close>

definition list_handler :: "string \<Rightarrow> ('v \<Rightarrow> 'p) \<Rightarrow> (store_err, 'v list) result \<times> 'd \<Rightarrow> (grpc_status, 'p list) result \<times> 'd" where
  "list_handler what to_proto res = (case res of
     (Inl e, d) \<Rightarrow> (Inl (Status Internal (''list '' @ what @ '' : %v'') [AErr e]), d)
   | (Inr vs, d) \<Rightarrow> (Inr (map to_proto vs), d))"

definition create_status :: "string \<Rightarrow> string \<Rightarrow> string \<Rightarrow> store_err \<Rightarrow> grpc_status" where
  "create_status what name project e =
     (if e = ErrAlreadyExists then Status AlreadyExists (what @ '' %q already exists in project %q'') [AStr name, AStr project]
      else Status Internal (''create '' @ what @ '' : %v'') [AErr e])"

definition delete_handler ::
  "string \<Rightarrow> (string \<Rightarrow> 'd \<Rightarrow> (store_err, unit) result \<times> 'd) \<Rightarrow> string \<Rightarrow> 'd \<Rightarrow> (grpc_status, unit) result \<times> 'd" where
  "delete_handler what delete req_uuid d =
     (let uuid = trim_space req_uuid in
      if uuid = [] then (Inl (invalid ''uuid is required'' []), d)
      else case delete uuid d of
        (Inl e, d') \<Rightarrow>
          (Inl (if e = ErrNotFound then Status NotFound (what @ '' %q not found'') [AStr uuid]
                else Status Internal (''delete '' @ what @ '' : %v'') [AErr e]), d')
      | (Inr _, d') \<Rightarrow> (Inr (), d'))"

definition newUUID :: "8 word list \<Rightarrow> string" where
  "newUUID b = hex_encode b"

section \<open>Scheduling rules\<close>

record CreateSchedulingRuleRequest =
  csr_name :: string
  csr_count :: i32
  csr_selector :: string
  csr_az :: string
  csr_rack :: string
  csr_host :: string
  csr_project :: string

definition ListSchedulingRules :: "('d, 'w) Server \<Rightarrow> string \<Rightarrow> 'd \<Rightarrow> (grpc_status, RuleInfo list) result \<times> 'd" where
  "ListSchedulingRules sv project d =
     list_handler ''scheduling rules'' rule_to_proto (rb_list (st_rules (srv_stores sv)) project d)"

definition validProximity :: "string \<Rightarrow> bool" where
  "validProximity s \<longleftrightarrow> s \<in> {[], ''same'', ''different''}"

text \<open>The walk over az, rack and host has an empty body whatever \<open>validProximity\<close> says, so nothing of it is left.\<close>

definition CreateSchedulingRule ::
  "('d, 'w) Server \<Rightarrow> 8 word list \<Rightarrow> i64 \<Rightarrow> CreateSchedulingRuleRequest \<Rightarrow> 'd \<Rightarrow> (grpc_status, RuleInfo) result \<times> 'd" where
  "CreateSchedulingRule sv bytes now req d =
     (let name = trim_space (csr_name req) in
      if name = [] then (Inl (invalid ''name is required'' []), d)
      else if sint (csr_count req) \<le> 0 then (Inl (invalid ''count must be > 0 ; got %d'' [AInt (sint (csr_count req))]), d)
      else
        (let r = \<lparr>rule_uuid = newUUID bytes, rule_name = name, rule_count = csr_count req, rule_ready = 0,
               rule_selector = csr_selector req, rule_az = csr_az req, rule_rack = csr_rack req,
               rule_host = csr_host req, rule_project = csr_project req, rule_status = ''unschedulable'',
               rule_created = now\<rparr> in
         case rb_create (st_rules (srv_stores sv)) r d of
           (Inl e, d') \<Rightarrow> (Inl (create_status ''scheduling rule'' name (csr_project req) e), d')
         | (Inr saved, d') \<Rightarrow> (Inr (rule_to_proto saved), d')))"

definition DeleteSchedulingRule :: "('d, 'w) Server \<Rightarrow> string \<Rightarrow> 'd \<Rightarrow> (grpc_status, unit) result \<times> 'd" where
  "DeleteSchedulingRule sv uuid d = delete_handler ''scheduling rule'' (rb_delete (st_rules (srv_stores sv))) uuid d"

section \<open>DNS\<close>

definition validRecordTypes :: "string list" where
  "validRecordTypes = [''A'', ''AAAA'', ''CNAME'', ''SRV'', ''TXT'', ''NS'', ''MX'']"

record CreateDNSZoneRequest =
  czr_name :: string
  czr_role :: string
  czr_ttl :: i32
  czr_push_target :: string
  czr_project :: string

record CreateDNSRecordRequest =
  crr_zone :: string
  crr_type :: string
  crr_name :: string
  crr_value :: string
  crr_ttl :: i32

definition ListDNSZones :: "('d, 'w) Server \<Rightarrow> string \<Rightarrow> 'd \<Rightarrow> (grpc_status, ZoneInfo list) result \<times> 'd" where
  "ListDNSZones sv project d = list_handler ''dns zones'' zone_to_proto (st_list_zones (srv_stores sv) project d)"

definition CreateDNSZone ::
  "('d, 'w) Server \<Rightarrow> 8 word list \<Rightarrow> i64 \<Rightarrow> CreateDNSZoneRequest \<Rightarrow> 'd \<Rightarrow> (grpc_status, ZoneInfo) result \<times> 'd" where
  "CreateDNSZone sv bytes now req d =
     (let name = trim_space (czr_name req); role = (if czr_role req = [] then ''primary'' else czr_role req) in
      if name = [] then (Inl (invalid ''name is required'' []), d)
      else if role \<notin> {''primary'', ''secondary'', ''forward''} then
        (Inl (invalid ''role %q must be primary / secondary / forward'' [AStr role]), d)
      else
        (let ttl = (if sint (czr_ttl req) \<le> 0 then 300 else czr_ttl req);
             z = \<lparr>zone_uuid = newUUID bytes, zone_name = name, zone_role = role, zone_records = 0, zone_ttl = ttl,
               zone_backend = ''coredns'', zone_push_target = czr_push_target req, zone_push_state = [],
               zone_project = czr_project req, zone_status = ''syncing'', zone_created = now\<rparr> in
         case op_create_zone (st_dns (srv_stores sv)) z d of
           (Inl e, d') \<Rightarrow> (Inl (create_status ''dns zone'' name (czr_project req) e), d')
         | (Inr saved, d') \<Rightarrow> (Inr (zone_to_proto saved), d')))"

definition DeleteDNSZone :: "('d, 'w) Server \<Rightarrow> string \<Rightarrow> 'd \<Rightarrow> (grpc_status, unit) result \<times> 'd" where
  "DeleteDNSZone sv uuid d = delete_handler ''dns zone'' (op_delete_zone (st_dns (srv_stores sv))) uuid d"

definition ListDNSRecords :: "('d, 'w) Server \<Rightarrow> string \<Rightarrow> 'd \<Rightarrow> (grpc_status, RecordInfo list) result \<times> 'd" where
  "ListDNSRecords sv zone d = list_handler ''dns records'' rec_to_proto (st_list_records (srv_stores sv) zone d)"

text \<open>The TTL of a record: the request's, else the zone's default (an error of the lookup is ignored), else 300.\<close>

definition record_ttl :: "('d, 'w) Server \<Rightarrow> string \<Rightarrow> i32 \<Rightarrow> 'd \<Rightarrow> i32 \<times> 'd" where
  "record_ttl sv zoneUUID ttl d =
     (if sint ttl \<le> 0 then
        (let (res, d') = op_get_zone (st_dns (srv_stores sv)) zoneUUID d;
             ttl' = (case res of Inl _ \<Rightarrow> ttl | Inr z \<Rightarrow> zone_ttl z) in
         (if sint ttl' \<le> 0 then 300 else ttl', d'))
      else (ttl, d))"

definition CreateDNSRecord ::
  "('d, 'w) Server \<Rightarrow> 8 word list \<Rightarrow> CreateDNSRecordRequest \<Rightarrow> 'd \<Rightarrow> (grpc_status, RecordInfo) result \<times> 'd" where
  "CreateDNSRecord sv bytes req d =
     (let zoneUUID = trim_space (crr_zone req); rtype = to_upper (trim_space (crr_type req));
          name = trim_space (crr_name req) in
      if zoneUUID = [] then (Inl (invalid ''zone_uuid is required'' []), d)
      else if rtype \<notin> set validRecordTypes then
        (Inl (invalid ''type %q must be one of A/AAAA/CNAME/SRV/TXT/NS/MX'' [AStr (crr_type req)]), d)
      else if name = [] then (Inl (invalid ''name is required (use \"@\" for the apex)'' []), d)
      else if trim_space (crr_value req) = [] then (Inl (invalid ''value is required'' []), d)
      else
        (let (ttl, d1) = record_ttl sv zoneUUID (crr_ttl req) d;
             r = \<lparr>rec_uuid = newUUID bytes, rec_zone = zoneUUID, rec_zone_name = [], rec_name = name,
               rec_type = rtype, rec_value = crr_value req, rec_ttl = ttl, rec_source = ''static''\<rparr> in
         case op_create_record (st_dns (srv_stores sv)) r d1 of
           (Inl e, d') \<Rightarrow>
             (Inl (if e = ErrZoneNotFound then Status NotFound ''dns zone %q not found'' [AStr zoneUUID]
                   else Status Internal ''create dns record : %v'' [AErr e]), d')
         | (Inr saved, d') \<Rightarrow> (Inr (rec_to_proto saved), d')))"

definition DeleteDNSRecord :: "('d, 'w) Server \<Rightarrow> string \<Rightarrow> 'd \<Rightarrow> (grpc_status, unit) result \<times> 'd" where
  "DeleteDNSRecord sv uuid d = delete_handler ''dns record'' (op_delete_record (st_dns (srv_stores sv))) uuid d"

section \<open>Load balancers\<close>

definition validLBModes :: "string list" where
  "validLBModes = [''L4'', ''L7'']"

record CreateLoadBalancerRequest =
  clr_name :: string
  clr_mode :: string
  clr_port :: u32
  clr_backends :: "string list"
  clr_az :: string
  clr_project :: string

definition ListLoadBalancers :: "('d, 'w) Server \<Rightarrow> string \<Rightarrow> 'd \<Rightarrow> (grpc_status, LoadBalancerInfo list) result \<times> 'd" where
  "ListLoadBalancers sv project d = list_handler ''load balancers'' lb_to_proto (rb_list (st_lbs (srv_stores sv)) project d)"

definition CreateLoadBalancer ::
  "('d, 'w) Server \<Rightarrow> 8 word list \<Rightarrow> i64 \<Rightarrow> CreateLoadBalancerRequest \<Rightarrow> 'd \<Rightarrow> (grpc_status, LoadBalancerInfo) result \<times> 'd" where
  "CreateLoadBalancer sv bytes now req d =
     (let name = trim_space (clr_name req); mode = to_upper (trim_space (clr_mode req));
          az = (if trim_space (clr_az req) = [] then ''multi'' else trim_space (clr_az req)) in
      if name = [] then (Inl (invalid ''name is required'' []), d)
      else if mode \<notin> set validLBModes then (Inl (invalid ''mode %q must be L4 or L7'' [AStr (clr_mode req)]), d)
      else if clr_port req = 0 \<or> 65535 < clr_port req then
        (Inl (invalid ''port must be 1-65535 ; got %d'' [AInt (uint (clr_port req))]), d)
      else
        (let l = \<lparr>lb_uuid = newUUID bytes, lb_name = name, lb_mode = mode, lb_address = [], lb_port = clr_port req,
               lb_backends = clr_backends req, lb_az = az, lb_controller = [], lb_project = clr_project req,
               lb_status = ''provisioning'', lb_created = now\<rparr> in
         case rb_create (st_lbs (srv_stores sv)) l d of
           (Inl e, d') \<Rightarrow> (Inl (create_status ''load balancer'' name (clr_project req) e), d')
         | (Inr saved, d') \<Rightarrow> (Inr (lb_to_proto saved), d')))"

definition DeleteLoadBalancer :: "('d, 'w) Server \<Rightarrow> string \<Rightarrow> 'd \<Rightarrow> (grpc_status, unit) result \<times> 'd" where
  "DeleteLoadBalancer sv uuid d = delete_handler ''load balancer'' (rb_delete (st_lbs (srv_stores sv))) uuid d"

definition SetLoadBalancerBackends ::
  "('d, 'w) Server \<Rightarrow> string \<Rightarrow> string list \<Rightarrow> 'd \<Rightarrow> (grpc_status, LoadBalancerInfo) result \<times> 'd" where
  "SetLoadBalancerBackends sv req_uuid backends d =
     (let uuid = trim_space req_uuid in
      if uuid = [] then (Inl (invalid ''uuid is required'' []), d)
      else case st_set_backends (srv_stores sv) backends uuid d of
        (Inl e, d') \<Rightarrow>
          (Inl (if e = ErrNotFound then Status NotFound ''load balancer %q not found'' [AStr uuid]
                else Status Internal ''set lb backends : %v'' [AErr e]), d')
      | (Inr updated, d') \<Rightarrow> (Inr (lb_to_proto updated), d'))"

end
