(* ===== verification/Server_Routers.thy ===== *)
theory Server_Routers
  imports Server
begin

text \<open>
  The rest of \<^verbatim>\<open>internal/server\<close>: the router handlers, which also publish the desired state and drive
  the micro-VMs, the resynchronisation at startup, and the construction of the server with its two
  sets of stores (memory and etcd).
\<close>

section \<open>Routers\<close>

definition validRouterKinds :: "string list" where
  "validRouterKinds = [''peer'', ''egress'']"

definition validRouterBackends :: "string list" where
  "validRouterBackends = [''wireguard'', ''gobgp'', ''vyos'', ''frr'']"

record CreateRouterRequest =
  cro_name :: string
  cro_kind :: string
  cro_backend :: string
  cro_networks :: "string list"
  cro_external :: string
  cro_prefixes :: "string list"
  cro_replicas :: i32
  cro_project :: string

definition ListRouters :: "('d, 'w) Server \<Rightarrow> string \<Rightarrow> 'd \<Rightarrow> (grpc_status, RouterInfo list) result \<times> 'd" where
  "ListRouters sv project d = list_handler ''routers'' router_to_proto (rb_list (st_routers (srv_stores sv)) project d)"

text \<open>The checks of \<open>CreateRouter\<close>, and the row it stores when they pass.\<close>

definition router_backend_default :: "string \<Rightarrow> string \<Rightarrow> string" where
  "router_backend_default kind backend =
     (if backend = [] then
        (if kind = ''peer'' then ''wireguard'' else if kind = ''egress'' then ''gobgp'' else backend)
      else backend)"

definition router_of_request :: "8 word list \<Rightarrow> i64 \<Rightarrow> CreateRouterRequest \<Rightarrow> (grpc_status, Router) result" where
  "router_of_request bytes now req =
     (let name = trim_space (cro_name req); kind = trim_space (cro_kind req);
          backend = router_backend_default kind (trim_space (cro_backend req));
          replicas = (if sint (cro_replicas req) \<le> 0 then 1 else scast (cro_replicas req) :: i64) in
      if name = [] then Inl (invalid ''name is required'' [])
      else if kind \<notin> set validRouterKinds then Inl (invalid ''kind %q must be peer or egress'' [AStr (cro_kind req)])
      else if backend \<notin> set validRouterBackends then
        Inl (invalid ''backend %q must be wireguard / gobgp / vyos / frr'' [AStr (cro_backend req)])
      else if kind = ''peer'' \<and> length (cro_networks req) < 1 then
        Inl (invalid ''peer routers must list at least one network'' [])
      else if kind = ''egress'' \<and> trim_space (cro_external req) = [] then
        Inl (invalid ''egress routers must declare external (AS / peer)'' [])
      else if 10 < sint replicas then
        Inl (invalid ''replicas %d exceeds the orchestrator cap of 10 ; pick 1-10'' [AInt (sint replicas)])
      else Inr \<lparr>router_uuid = newUUID bytes, router_name = name, router_kind = kind, router_backend = backend,
        router_networks = cro_networks req, router_external = trim_space (cro_external req),
        router_prefixes = cro_prefixes req, router_replicas = replicas, router_peer_state = [],
        router_project = cro_project req, router_status = ''configuring'', router_created = now\<rparr>)"

text \<open>The errors of the publisher and of the lifecycle are logged and dropped.\<close>

definition push_router :: "('d, 'w) Server \<Rightarrow> Router \<Rightarrow> 'w \<Rightarrow> 'w" where
  "push_router sv r w =
     (let (_, w1) = pub_publish (srv_publisher sv) r w; (_, w2) = lc_ensure (srv_lifecycle sv) r w1 in w2)"

definition CreateRouter ::
  "('d, 'w) Server \<Rightarrow> 8 word list \<Rightarrow> i64 \<Rightarrow> CreateRouterRequest \<Rightarrow> 'd \<times> 'w \<Rightarrow> (grpc_status, RouterInfo) result \<times> 'd \<times> 'w" where
  "CreateRouter sv bytes now req = (\<lambda>(d, w).
     case router_of_request bytes now req of
       Inl st \<Rightarrow> (Inl st, d, w)
     | Inr r \<Rightarrow>
         (case rb_create (st_routers (srv_stores sv)) r d of
            (Inl e, d') \<Rightarrow> (Inl (create_status ''router'' (trim_space (cro_name req)) (cro_project req) e), d', w)
          | (Inr saved, d') \<Rightarrow> (Inr (router_to_proto saved), d', push_router sv saved w)))"

definition DeleteRouter :: "('d, 'w) Server \<Rightarrow> string \<Rightarrow> 'd \<times> 'w \<Rightarrow> (grpc_status, unit) result \<times> 'd \<times> 'w" where
  "DeleteRouter sv req_uuid = (\<lambda>(d, w).
     case delete_handler ''router'' (rb_delete (st_routers (srv_stores sv))) req_uuid d of
       (Inl st, d') \<Rightarrow> (Inl st, d', w)
     | (Inr _, d') \<Rightarrow>
         (let uuid = trim_space req_uuid;
              (_, w1) = pub_withdraw (srv_publisher sv) uuid w;
              (_, w2) = lc_destroy (srv_lifecycle sv) uuid w1 in
          (Inr (), d', w2)))"

text \<open>\<open>ResyncRouters\<close>: the error is the listing's, wrapped.\<close>

definition ResyncRouters :: "('d, 'w) Server \<Rightarrow> 'd \<times> 'w \<Rightarrow> (string \<times> store_err, nat) result \<times> 'd \<times> 'w" where
  "ResyncRouters sv = (\<lambda>(d, w).
     case rb_list (st_routers (srv_stores sv)) [] d of
       (Inl e, d') \<Rightarrow> (Inl (''list routers'', e), d', w)
     | (Inr rs, d') \<Rightarrow> (Inr (length rs), d', fold (push_router sv) rs w))"

section \<open>Construction\<close>

text \<open>
  The in-memory stores are four separate objects. A listing ranges over a map, in the order the
  runtime picks, given here as a function of the state for each map.
\<close>

record mem_world =
  mw_rules :: sched_mem
  mw_dns :: dns_mem
  mw_routers :: router_mem
  mw_lbs :: lb_mem

record mem_orders =
  ord_rules :: "sched_mem \<Rightarrow> string list"
  ord_zones :: "dns_mem \<Rightarrow> string list"
  ord_records :: "dns_mem \<Rightarrow> string list"
  ord_routers :: "router_mem \<Rightarrow> string list"
  ord_lbs :: "lb_mem \<Rightarrow> string list"

definition on_part :: "('w \<Rightarrow> 'a) \<Rightarrow> ('a \<Rightarrow> 'w \<Rightarrow> 'w) \<Rightarrow> ('a \<Rightarrow> 'r \<times> 'a) \<Rightarrow> 'w \<Rightarrow> 'r \<times> 'w" where
  "on_part get put f w = (let (r, a) = f (get w) in (r, put a w))"

abbreviation on_rules :: "(sched_mem \<Rightarrow> 'r \<times> sched_mem) \<Rightarrow> mem_world \<Rightarrow> 'r \<times> mem_world" where
  "on_rules \<equiv> on_part mw_rules (\<lambda>a. mw_rules_update (\<lambda>_. a))"

abbreviation on_dns :: "(dns_mem \<Rightarrow> 'r \<times> dns_mem) \<Rightarrow> mem_world \<Rightarrow> 'r \<times> mem_world" where
  "on_dns \<equiv> on_part mw_dns (\<lambda>a. mw_dns_update (\<lambda>_. a))"

abbreviation on_routers :: "(router_mem \<Rightarrow> 'r \<times> router_mem) \<Rightarrow> mem_world \<Rightarrow> 'r \<times> mem_world" where
  "on_routers \<equiv> on_part mw_routers (\<lambda>a. mw_routers_update (\<lambda>_. a))"

abbreviation on_lbs :: "(lb_mem \<Rightarrow> 'r \<times> lb_mem) \<Rightarrow> mem_world \<Rightarrow> 'r \<times> mem_world" where
  "on_lbs \<equiv> on_part mw_lbs (\<lambda>a. mw_lbs_update (\<lambda>_. a))"

definition lift_dns :: "(('a \<Rightarrow> 'a) \<Rightarrow> 'w \<Rightarrow> 'w) \<Rightarrow> ('w \<Rightarrow> 'a) \<Rightarrow> 'a dns_backend \<Rightarrow> 'w dns_backend" where
  "lift_dns upd get be =
     \<lparr>op_create_zone = (\<lambda>z. on_part get (\<lambda>a. upd (\<lambda>_. a)) (op_create_zone be z)),
      op_delete_zone = (\<lambda>u. on_part get (\<lambda>a. upd (\<lambda>_. a)) (op_delete_zone be u)),
      op_get_zone = (\<lambda>u. on_part get (\<lambda>a. upd (\<lambda>_. a)) (op_get_zone be u)),
      op_create_record = (\<lambda>r. on_part get (\<lambda>a. upd (\<lambda>_. a)) (op_create_record be r)),
      op_delete_record = (\<lambda>u. on_part get (\<lambda>a. upd (\<lambda>_. a)) (op_delete_record be u)),
      op_get_record = (\<lambda>u. on_part get (\<lambda>a. upd (\<lambda>_. a)) (op_get_record be u))\<rparr>"

definition mem_stores :: "mem_orders \<Rightarrow> mem_world stores" where
  "mem_stores ord =
     \<lparr>st_rules = \<lparr>rb_list = (\<lambda>p. on_rules (\<lambda>s. (Inr (sched_mem_list (ord_rules ord s) p s), s))),
        rb_create = (\<lambda>r. on_rules (sched_mem_create r)), rb_delete = (\<lambda>u. on_rules (sched_mem_delete u)),
        rb_get = (\<lambda>u. on_rules (sched_mem_get u))\<rparr>,
      st_dns = lift_dns mw_dns_update mw_dns dns_memory,
      st_list_zones = (\<lambda>p. on_dns (\<lambda>s. (Inr (dns_mem_list_zones (ord_zones ord s) p s), s))),
      st_list_records = (\<lambda>z. on_dns (\<lambda>s. (Inr (dns_mem_list_records (ord_records ord s) z s), s))),
      st_routers = \<lparr>rb_list = (\<lambda>p. on_routers (\<lambda>s. (Inr (router_mem_list (ord_routers ord s) p s), s))),
        rb_create = (\<lambda>r. on_routers (router_mem_create r)), rb_delete = (\<lambda>u. on_routers (router_mem_delete u)),
        rb_get = (\<lambda>u. on_routers (router_mem_get u))\<rparr>,
      st_update_status = (\<lambda>st u. on_routers (router_mem_update_status st u)),
      st_lbs = \<lparr>rb_list = (\<lambda>p. on_lbs (\<lambda>s. (Inr (lb_mem_list (ord_lbs ord s) p s), s))),
        rb_create = (\<lambda>r. on_lbs (lb_mem_create r)), rb_delete = (\<lambda>u. on_lbs (lb_mem_delete u)),
        rb_get = (\<lambda>u. on_lbs (lb_mem_get u))\<rparr>,
      st_set_backends = (\<lambda>bs u. on_lbs (lb_mem_set_backends bs u))\<rparr>"

definition mem_new :: mem_world where
  "mem_new = \<lparr>mw_rules = sched_mem_new, mw_dns = dns_mem_new, mw_routers = router_mem_new, mw_lbs = lb_mem_new\<rparr>"

text \<open>The etcd stores share one client, and so one keyspace.\<close>

definition etcd_stores :: "'s etcd_client \<Rightarrow> 's stores" where
  "etcd_stores cl =
     \<lparr>st_rules = \<lparr>rb_list = (\<lambda>p. exec cl (sched_etcd_list p)), rb_create = (\<lambda>r. exec cl (sched_etcd_create r)),
        rb_delete = (\<lambda>u. exec cl (sched_etcd_delete u)), rb_get = (\<lambda>u. exec cl (sched_etcd_get u))\<rparr>,
      st_dns = dns_etcd cl,
      st_list_zones = (\<lambda>p. exec cl (dns_etcd_list_zones p)),
      st_list_records = (\<lambda>z. exec cl (dns_etcd_list_records z)),
      st_routers = \<lparr>rb_list = (\<lambda>p. exec cl (router_etcd_list p)), rb_create = (\<lambda>r. exec cl (router_etcd_create r)),
        rb_delete = (\<lambda>u. exec cl (router_etcd_delete u)), rb_get = (\<lambda>u. exec cl (router_etcd_get u))\<rparr>,
      st_update_status = (\<lambda>st u. exec cl (router_etcd_update_status st u)),
      st_lbs = \<lparr>rb_list = (\<lambda>p. exec cl (lb_etcd_list p)), rb_create = (\<lambda>r. exec cl (lb_etcd_create r)),
        rb_delete = (\<lambda>u. exec cl (lb_etcd_delete u)), rb_get = (\<lambda>u. exec cl (lb_etcd_get u))\<rparr>,
      st_set_backends = (\<lambda>bs u. exec cl (lb_etcd_set_backends bs u))\<rparr>"

record ('d, 'w) Options =
  opt_etcd_url :: string
  opt_stores :: "'d stores option"
  opt_publisher :: "'w router_publisher option"
  opt_lifecycle :: "'w router_lifecycle option"

text \<open>
  \<open>newEtcdClient\<close> splits and trims the endpoints; \<open>dial\<close> is the constructor of the client. \<open>New\<close> takes the
  two sets of stores it may build; a failure to dial falls back to memory.
\<close>

definition etcd_endpoints :: "string \<Rightarrow> string list" where
  "etcd_endpoints rawURL = map trim_space (split_on (CHR '','') rawURL)"

definition newEtcdClient :: "(string list \<Rightarrow> (rpc_err, 'c) result) \<Rightarrow> string \<Rightarrow> (store_err, 'c) result" where
  "newEtcdClient dial rawURL =
     (let endpoints = etcd_endpoints rawURL in
      case dial endpoints of Inl e \<Rightarrow> Inl (ErrWrap (''dial etcd '' @ join_with '' '' endpoints) e) | Inr c \<Rightarrow> Inr c)"

definition New ::
  "'d stores \<Rightarrow> ('c \<Rightarrow> 'd stores) \<Rightarrow> (string list \<Rightarrow> (rpc_err, 'c) result) \<Rightarrow> ('d, 'w) Options \<Rightarrow> ('d, 'w) Server" where
  "New memory etcd dial opts =
     (let (stores, connected) = (case opt_stores opts of
            Some st \<Rightarrow> (st, False)
          | None \<Rightarrow>
              (if opt_etcd_url opts = [] then (memory, False)
               else case newEtcdClient dial (opt_etcd_url opts) of
                 Inl _ \<Rightarrow> (memory, False)
               | Inr c \<Rightarrow> (etcd c, True))) in
      \<lparr>srv_stores = stores,
       srv_publisher = (case opt_publisher opts of None \<Rightarrow> noop_publisher | Some p \<Rightarrow> p),
       srv_lifecycle = (case opt_lifecycle opts of None \<Rightarrow> noop_lifecycle | Some l \<Rightarrow> l),
       srv_etcd = connected\<rparr>)"

text \<open>\<open>Close\<close> closes an open connection once; \<open>shut\<close> is what closing it returns.\<close>

definition Close :: "(rpc_err, unit) result \<Rightarrow> ('d, 'w) Server \<Rightarrow> (rpc_err, unit) result \<times> ('d, 'w) Server" where
  "Close shut sv = (if \<not> srv_etcd sv then (Inr (), sv) else (shut, sv\<lparr>srv_etcd := False\<rparr>))"

end
