(* ===== verification/Server_Dispatch.thy ===== *)
theory Server_Dispatch
  imports Server_Routers
begin

text \<open>
  The service as one step function: a request, with the random bytes and the time the handler draws,
  and the reply. \<open>serve\<close> calls the handler of the RPC. The lemmas say what every handler has in common:
  a refused request has no effect, and only the two router handlers touch the world outside.
\<close>

datatype request =
    RqListSchedulingRules string
  | RqCreateSchedulingRule "8 word list" i64 CreateSchedulingRuleRequest
  | RqDeleteSchedulingRule string
  | RqListDNSZones string
  | RqCreateDNSZone "8 word list" i64 CreateDNSZoneRequest
  | RqDeleteDNSZone string
  | RqListDNSRecords string
  | RqCreateDNSRecord "8 word list" CreateDNSRecordRequest
  | RqDeleteDNSRecord string
  | RqListRouters string
  | RqCreateRouter "8 word list" i64 CreateRouterRequest
  | RqDeleteRouter string
  | RqListLoadBalancers string
  | RqCreateLoadBalancer "8 word list" i64 CreateLoadBalancerRequest
  | RqDeleteLoadBalancer string
  | RqSetLoadBalancerBackends string "string list"

datatype response =
    Empty
  | OneRule RuleInfo | Rules "RuleInfo list"
  | OneZone ZoneInfo | Zones "ZoneInfo list"
  | OneRecord RecordInfo | Records "RecordInfo list"
  | OneRouter RouterInfo | Routers "RouterInfo list"
  | OneLoadBalancer LoadBalancerInfo | LoadBalancers "LoadBalancerInfo list"

text \<open>A handler on the stores alone, as a step of the whole state.\<close>

definition store_only :: "('r \<Rightarrow> response) \<Rightarrow> (grpc_status, 'r) result \<times> 'd \<Rightarrow> 'w \<Rightarrow> (grpc_status, response) result \<times> 'd \<times> 'w" where
  "store_only f res w = (map_sum id f (fst res), snd res, w)"

fun serve :: "('d, 'w) Server \<Rightarrow> request \<Rightarrow> 'd \<times> 'w \<Rightarrow> (grpc_status, response) result \<times> 'd \<times> 'w" where
  "serve sv (RqListSchedulingRules p) (d, w) = store_only Rules (ListSchedulingRules sv p d) w"
| "serve sv (RqCreateSchedulingRule b t q) (d, w) = store_only OneRule (CreateSchedulingRule sv b t q d) w"
| "serve sv (RqDeleteSchedulingRule u) (d, w) = store_only (\<lambda>_. Empty) (DeleteSchedulingRule sv u d) w"
| "serve sv (RqListDNSZones p) (d, w) = store_only Zones (ListDNSZones sv p d) w"
| "serve sv (RqCreateDNSZone b t q) (d, w) = store_only OneZone (CreateDNSZone sv b t q d) w"
| "serve sv (RqDeleteDNSZone u) (d, w) = store_only (\<lambda>_. Empty) (DeleteDNSZone sv u d) w"
| "serve sv (RqListDNSRecords z) (d, w) = store_only Records (ListDNSRecords sv z d) w"
| "serve sv (RqCreateDNSRecord b q) (d, w) = store_only OneRecord (CreateDNSRecord sv b q d) w"
| "serve sv (RqDeleteDNSRecord u) (d, w) = store_only (\<lambda>_. Empty) (DeleteDNSRecord sv u d) w"
| "serve sv (RqListRouters p) (d, w) = store_only Routers (ListRouters sv p d) w"
| "serve sv (RqCreateRouter b t q) s = apfst (map_sum id OneRouter) (CreateRouter sv b t q s)"
| "serve sv (RqDeleteRouter u) s = apfst (map_sum id (\<lambda>_. Empty)) (DeleteRouter sv u s)"
| "serve sv (RqListLoadBalancers p) (d, w) = store_only LoadBalancers (ListLoadBalancers sv p d) w"
| "serve sv (RqCreateLoadBalancer b t q) (d, w) = store_only OneLoadBalancer (CreateLoadBalancer sv b t q d) w"
| "serve sv (RqDeleteLoadBalancer u) (d, w) = store_only (\<lambda>_. Empty) (DeleteLoadBalancer sv u d) w"
| "serve sv (RqSetLoadBalancerBackends u bs) (d, w) = store_only OneLoadBalancer (SetLoadBalancerBackends sv u bs d) w"

section \<open>Refused requests\<close>

lemma create_status_code: "st_code (create_status what name project e) \<noteq> InvalidArgument"
  by (simp add: create_status_def)

lemma delete_refused:
  "delete_handler what del u d = (Inl st, d') \<Longrightarrow> st_code st = InvalidArgument \<Longrightarrow> d' = d"
  by (auto simp: delete_handler_def Let_def split: if_splits sum.splits prod.splits)

lemma list_not_refused: "list_handler what f res = (Inl st, d') \<Longrightarrow> st_code st \<noteq> InvalidArgument"
  by (auto simp: list_handler_def split: sum.splits prod.splits)

lemmas refuse_splits = if_splits sum.splits prod.splits

lemma create_rule_refused:
  "CreateSchedulingRule sv b t q d = (Inl st, d') \<Longrightarrow> st_code st = InvalidArgument \<Longrightarrow> d' = d"
  by (auto simp: CreateSchedulingRule_def Let_def create_status_code split: refuse_splits)

lemma create_zone_refused:
  "CreateDNSZone sv b t q d = (Inl st, d') \<Longrightarrow> st_code st = InvalidArgument \<Longrightarrow> d' = d"
  unfolding CreateDNSZone_def Let_def by (auto simp: create_status_code split: refuse_splits)

lemma create_record_refused:
  "CreateDNSRecord sv b q d = (Inl st, d') \<Longrightarrow> st_code st = InvalidArgument \<Longrightarrow> d' = d"
  unfolding CreateDNSRecord_def Let_def by (auto split: refuse_splits)

lemma create_lb_refused:
  "CreateLoadBalancer sv b t q d = (Inl st, d') \<Longrightarrow> st_code st = InvalidArgument \<Longrightarrow> d' = d"
  unfolding CreateLoadBalancer_def Let_def by (auto simp: create_status_code split: refuse_splits)

lemma set_backends_refused:
  "SetLoadBalancerBackends sv u bs d = (Inl st, d') \<Longrightarrow> st_code st = InvalidArgument \<Longrightarrow> d' = d"
  unfolding SetLoadBalancerBackends_def Let_def by (auto split: refuse_splits)

lemma create_router_refused:
  "CreateRouter sv b t q (d, w) = (Inl st, d', w') \<Longrightarrow> w' = w \<and> (st_code st = InvalidArgument \<longrightarrow> d' = d)"
  by (auto simp: CreateRouter_def create_status_code split: refuse_splits)

lemma delete_router_refused:
  "DeleteRouter sv u (d, w) = (Inl st, d', w') \<Longrightarrow> w' = w \<and> (st_code st = InvalidArgument \<longrightarrow> d' = d)"
  unfolding DeleteRouter_def Let_def by (auto split: refuse_splits dest: delete_refused)

lemma store_only_inl:
  "store_only f res w = (Inl st, d', w') \<longleftrightarrow> res = (Inl st, d') \<and> w' = w"
  by (cases res; cases "fst res") (auto simp: store_only_def)

lemma serve_refused:
  assumes "serve sv q (d, w) = (Inl st, d', w')"
  shows "w' = w \<and> (st_code st = InvalidArgument \<longrightarrow> d' = d)"
proof -
  have flip: "apfst (map_sum id f) res = (Inl st, d', w') \<Longrightarrow> res = (Inl st, d', w')" for f and res :: "(grpc_status, 'r) result \<times> 'a \<times> 'b"
    by (cases res; cases "fst res") auto
  show ?thesis
    using assms
    by (cases q) (auto simp: store_only_inl ListSchedulingRules_def ListDNSZones_def ListDNSRecords_def ListRouters_def
        ListLoadBalancers_def DeleteSchedulingRule_def DeleteDNSZone_def DeleteDNSRecord_def DeleteLoadBalancer_def
        dest!: flip dest: create_rule_refused create_zone_refused create_record_refused create_lb_refused
        set_backends_refused create_router_refused delete_router_refused delete_refused list_not_refused)
qed

section \<open>What a router request stores\<close>

lemma router_of_request_ok:
  assumes "router_of_request b now q = Inr r"
  shows "router_uuid r = newUUID b" and "router_name r = trim_space (cro_name q)" and "router_name r \<noteq> []"
    and "router_kind r \<in> {''peer'', ''egress''}"
    and "router_backend r \<in> {''wireguard'', ''gobgp'', ''vyos'', ''frr''}"
    and "router_kind r = ''peer'' \<Longrightarrow> router_networks r \<noteq> []"
    and "router_kind r = ''egress'' \<Longrightarrow> router_external r \<noteq> []"
    and "router_external r = trim_space (cro_external q)"
    and "1 \<le> sint (router_replicas r) \<and> sint (router_replicas r) \<le> 10"
    and "router_status r = ''configuring''" and "router_peer_state r = []" and "router_project r = cro_project q"
proof -
  define rep :: i64 where "rep = (if sint (cro_replicas q) \<le> 0 then 1 else scast (cro_replicas q))"
  have "sint (scast (cro_replicas q) :: i64) = sint (cro_replicas q)" by (simp add: sint_up_scast is_up)
  then have rep: "1 \<le> sint rep" by (simp add: rep_def)
  define kind where "kind = trim_space (cro_kind q)"
  define bk where "bk = router_backend_default kind (trim_space (cro_backend q))"
  have r: "trim_space (cro_name q) \<noteq> [] \<and> kind \<in> set validRouterKinds \<and> bk \<in> set validRouterBackends \<and>
      \<not> (kind = ''peer'' \<and> length (cro_networks q) < 1) \<and> \<not> (kind = ''egress'' \<and> trim_space (cro_external q) = []) \<and>
      \<not> 10 < sint rep \<and>
      r = \<lparr>router_uuid = newUUID b, router_name = trim_space (cro_name q), router_kind = kind, router_backend = bk,
        router_networks = cro_networks q, router_external = trim_space (cro_external q),
        router_prefixes = cro_prefixes q, router_replicas = rep, router_peer_state = [],
        router_project = cro_project q, router_status = ''configuring'', router_created = now\<rparr>"
    using assms unfolding router_of_request_def Let_def rep_def [symmetric] kind_def [symmetric] bk_def [symmetric]
    by (simp split: if_splits)
  show "router_uuid r = newUUID b" "router_name r = trim_space (cro_name q)" "router_name r \<noteq> []"
    "router_kind r \<in> {''peer'', ''egress''}" "router_backend r \<in> {''wireguard'', ''gobgp'', ''vyos'', ''frr''}"
    "router_kind r = ''peer'' \<Longrightarrow> router_networks r \<noteq> []" "router_kind r = ''egress'' \<Longrightarrow> router_external r \<noteq> []"
    "router_external r = trim_space (cro_external q)" "1 \<le> sint (router_replicas r) \<and> sint (router_replicas r) \<le> 10"
    "router_status r = ''configuring''" "router_peer_state r = []" "router_project r = cro_project q"
    using r rep by (auto simp: validRouterKinds_def validRouterBackends_def)
qed

text \<open>A new uuid has no space and no dash in it, so it comes back from a request as it went out.\<close>

lemma of_char_hex_digit: "n < 16 \<Longrightarrow> 48 \<le> (of_char (hex_digit n) :: nat) \<and> (of_char (hex_digit n) :: nat) \<le> 102"
  by (simp add: hex_digit_def)

lemma newUUID_chars:
  assumes "c \<in> set (newUUID b)"
  shows "48 \<le> (of_char c :: nat)" and "(of_char c :: nat) \<le> 102"
proof -
  from assms obtain x where "c = hex_digit (unat (x :: 8 word) div 16) \<or> c = hex_digit (unat x mod 16)"
    by (auto simp: newUUID_def hex_encode_def)
  then show "48 \<le> (of_char c :: nat)" and "(of_char c :: nat) \<le> 102"
    using of_char_hex_digit [OF unat8_div16 [of x]] of_char_hex_digit [of "unat x mod 16"] by auto
qed

lemma trim_newUUID [simp]: "trim_space (newUUID b) = newUUID b"
  using newUUID_chars [of _ b] by (intro trim_space_plain) fastforce

lemma newUUID_no_dash: "CHR ''-'' \<notin> set (newUUID b)"
  using newUUID_chars(1) [of "CHR ''-''" b] by auto

lemma newUUID_Nil [simp]: "newUUID b = [] \<longleftrightarrow> b = []"
  using length_hex_encode [of b] by (metis length_0_conv mult_is_0 newUUID_def zero_neq_numeral)

end
