(* ===== verification/Network_Spec.thy ===== *)
theory Network_Spec
  imports Server_Dispatch Store_Properties
begin

text \<open>
  The abstract network: one value that holds the rows of the four domains, and the operations of the
  stores on it as specified by \<open>Store_Contract\<close> and \<open>DNS_Store\<close>, uniqueness being that of the pair
  (project, name). With these stores the handlers of the server run on the abstract network: that is
  the specification of the service. The locale \<open>network\<close> says what a set of stores promises, and
  proves that the server over it refines the server over the abstract network, request by request.
\<close>

section \<open>The abstract stores\<close>

record net =
  n_rules :: "string \<rightharpoonup> Rule"
  n_dns :: dns_rows
  n_routers :: "string \<rightharpoonup> Router"
  n_lbs :: "string \<rightharpoonup> LoadBalancer"

definition net_empty :: net where
  "net_empty = \<lparr>n_rules = Map.empty, n_dns = (Map.empty, Map.empty), n_routers = Map.empty, n_lbs = Map.empty\<rparr>"

text \<open>Every table is finite and its rows carry their uuids.\<close>

definition table_ok :: "('v \<Rightarrow> string) \<Rightarrow> (string \<rightharpoonup> 'v) \<Rightarrow> bool" where
  "table_ok uid m \<longleftrightarrow> finite (dom m) \<and> rows_keyed uid m"

definition net_ok :: "net \<Rightarrow> bool" where
  "net_ok n \<longleftrightarrow> table_ok rule_uuid (n_rules n) \<and> table_ok zone_uuid (fst (n_dns n)) \<and>
     table_ok rec_uuid (snd (n_dns n)) \<and> table_ok router_uuid (n_routers n) \<and> table_ok lb_uuid (n_lbs n)"

text \<open>A listing goes through the rows in an order given as a function of the table.\<close>

record net_orders =
  no_rules :: "(string \<rightharpoonup> Rule) \<Rightarrow> string list"
  no_zones :: "(string \<rightharpoonup> Zone) \<Rightarrow> string list"
  no_records :: "(string \<rightharpoonup> Record) \<Rightarrow> string list"
  no_routers :: "(string \<rightharpoonup> Router) \<Rightarrow> string list"
  no_lbs :: "(string \<rightharpoonup> LoadBalancer) \<Rightarrow> string list"

definition enumerator :: "((string \<rightharpoonup> 'v) \<Rightarrow> string list) \<Rightarrow> bool" where
  "enumerator f \<longleftrightarrow> (\<forall>m. finite (dom m) \<longrightarrow> enumerates (f m) m)"

definition orders_ok :: "net_orders \<Rightarrow> bool" where
  "orders_ok o' \<longleftrightarrow> enumerator (no_rules o') \<and> enumerator (no_zones o') \<and> enumerator (no_records o') \<and>
     enumerator (no_routers o') \<and> enumerator (no_lbs o')"

text \<open>The order of the uuids is one.\<close>

definition uuid_order :: "(string \<rightharpoonup> 'v) \<Rightarrow> string list" where
  "uuid_order m = sorted_list_of_set (dom m)"

definition by_uuid :: net_orders where
  "by_uuid = \<lparr>no_rules = uuid_order, no_zones = uuid_order, no_records = uuid_order,
     no_routers = uuid_order, no_lbs = uuid_order\<rparr>"

lemma enumerates_uuid_order: "finite (dom m) \<Longrightarrow> enumerates (uuid_order m) m"
  by (simp add: enumerates_def uuid_order_def)

lemma by_uuid_ok: "orders_ok by_uuid"
  by (simp add: orders_ok_def by_uuid_def enumerator_def enumerates_uuid_order)

definition visible :: "('v \<Rightarrow> string) \<Rightarrow> string \<Rightarrow> (string \<rightharpoonup> 'v) \<Rightarrow> 'v set" where
  "visible f p m = {v \<in> ran m. p = [] \<or> f v = p}"

definition spec_list :: "((string \<rightharpoonup> 'v) \<Rightarrow> string list) \<Rightarrow> ('v \<Rightarrow> string) \<Rightarrow> string \<Rightarrow> (string \<rightharpoonup> 'v) \<Rightarrow> (store_err, 'v list) result" where
  "spec_list order f p m = Inr (filter (\<lambda>v. p = [] \<or> f v = p) (range_vals (order m) m))"

definition dns_spec :: "dns_rows dns_backend" where
  "dns_spec =
     \<lparr>op_create_zone = dns_spec_create_zone zone_pair, op_delete_zone = dns_spec_delete_zone,
      op_get_zone = (\<lambda>u m. (spec_get u (fst m), m)), op_create_record = dns_spec_create_record,
      op_delete_record = dns_spec_delete_record, op_get_record = (\<lambda>u m. (spec_get u (snd m), m))\<rparr>"

definition row_spec ::
  "('w \<Rightarrow> string \<rightharpoonup> 'v) \<Rightarrow> ((string \<rightharpoonup> 'v) \<Rightarrow> 'w \<Rightarrow> 'w) \<Rightarrow> ((string \<rightharpoonup> 'v) \<Rightarrow> string list) \<Rightarrow>
   ('v \<Rightarrow> string) \<Rightarrow> ('v \<Rightarrow> string) \<Rightarrow> ('v \<Rightarrow> string) \<Rightarrow> ('v, 'w) row_backend" where
  "row_spec get put order uid prj nam =
     \<lparr>rb_list = (\<lambda>p. on_part get put (\<lambda>m. (spec_list order prj p m, m))),
      rb_create = (\<lambda>v. on_part get put (spec_create uid (\<lambda>x. (prj x, nam x)) v)),
      rb_delete = (\<lambda>u. on_part get put (spec_delete u)),
      rb_get = (\<lambda>u. on_part get put (\<lambda>m. (spec_get u m, m)))\<rparr>"

abbreviation put_rules :: "(string \<rightharpoonup> Rule) \<Rightarrow> net \<Rightarrow> net" where "put_rules m \<equiv> n_rules_update (\<lambda>_. m)"
abbreviation put_dns :: "dns_rows \<Rightarrow> net \<Rightarrow> net" where "put_dns m \<equiv> n_dns_update (\<lambda>_. m)"
abbreviation put_routers :: "(string \<rightharpoonup> Router) \<Rightarrow> net \<Rightarrow> net" where "put_routers m \<equiv> n_routers_update (\<lambda>_. m)"
abbreviation put_lbs :: "(string \<rightharpoonup> LoadBalancer) \<Rightarrow> net \<Rightarrow> net" where "put_lbs m \<equiv> n_lbs_update (\<lambda>_. m)"

text \<open>A status update answers with no row.\<close>

definition spec_status :: "string \<times> string \<Rightarrow> string \<Rightarrow> (string \<rightharpoonup> Router) \<Rightarrow> (store_err, unit) result \<times> (string \<rightharpoonup> Router)" where
  "spec_status st u m = apfst (map_sum id (\<lambda>_. ())) (spec_update (set_status st) u m)"

definition net_stores :: "net_orders \<Rightarrow> net stores" where
  "net_stores o' =
     \<lparr>st_rules = row_spec n_rules put_rules (no_rules o') rule_uuid rule_project rule_name,
      st_dns = lift_dns n_dns_update n_dns dns_spec,
      st_list_zones = (\<lambda>p. on_part n_dns put_dns (\<lambda>m. (spec_list (no_zones o') zone_project p (fst m), m))),
      st_list_records = (\<lambda>z. on_part n_dns put_dns (\<lambda>m. (spec_list (no_records o') rec_zone z (snd m), m))),
      st_routers = row_spec n_routers put_routers (no_routers o') router_uuid router_project router_name,
      st_update_status = (\<lambda>st u. on_part n_routers put_routers (spec_status st u)),
      st_lbs = row_spec n_lbs put_lbs (no_lbs o') lb_uuid lb_project lb_name,
      st_set_backends = (\<lambda>bs u. on_part n_lbs put_lbs (spec_update (set_backends bs) u))\<rparr>"

text \<open>The server of \<open>sv\<close>, with its publisher and its lifecycle, over the abstract network.\<close>

definition net_server :: "net_orders \<Rightarrow> ('d, 'w) Server \<Rightarrow> (net, 'w) Server" where
  "net_server o' sv = \<lparr>srv_stores = net_stores o', srv_publisher = srv_publisher sv,
     srv_lifecycle = srv_lifecycle sv, srv_etcd = False\<rparr>"

lemma net_server_sels [simp]:
  "srv_stores (net_server o' sv) = net_stores o'" "srv_publisher (net_server o' sv) = srv_publisher sv"
  "srv_lifecycle (net_server o' sv) = srv_lifecycle sv"
  by (simp_all add: net_server_def)

lemma dns_spec_dispatch: "dns_dispatch dns_spec c m = dns_spec_call zone_pair c m"
  by (cases c) (simp_all add: dns_dispatch_def dns_spec_call_def dns_spec_def)

section \<open>When a request is within the terms\<close>

text \<open>
  The random bytes make a new uuid, the project of a new row has no bar in it, a zone that is deleted
  fits one etcd transaction, and the zone of a deleted record has fewer than \<open>2 ^ 32\<close> of them.
\<close>

fun admits :: "request \<Rightarrow> net \<Rightarrow> bool" where
  "admits (RqCreateSchedulingRule b t q) n \<longleftrightarrow> n_rules n (newUUID b) = None \<and> plain (csr_project q)"
| "admits (RqCreateDNSZone b t q) n \<longleftrightarrow> fst (n_dns n) (newUUID b) = None \<and> plain (czr_project q)"
| "admits (RqDeleteDNSZone u) n \<longleftrightarrow> card (recs_in (snd (n_dns n)) (trim_space u)) < max_txn_ops"
| "admits (RqCreateDNSRecord b q) n \<longleftrightarrow> snd (n_dns n) (newUUID b) = None"
| "admits (RqDeleteDNSRecord u) n \<longleftrightarrow>
     (\<forall>r. snd (n_dns n) (trim_space u) = Some r \<longrightarrow> card (recs_in (snd (n_dns n)) (rec_zone r)) < 2 ^ 32)"
| "admits (RqCreateRouter b t q) n \<longleftrightarrow> n_routers n (newUUID b) = None \<and> plain (cro_project q)"
| "admits (RqCreateLoadBalancer b t q) n \<longleftrightarrow> n_lbs n (newUUID b) = None \<and> plain (clr_project q)"
| "admits _ n \<longleftrightarrow> True"

section \<open>The same answer\<close>

text \<open>Two answers are the same up to the order of a listing.\<close>

definition same_response :: "response \<Rightarrow> response \<Rightarrow> bool" where
  "same_response a b \<longleftrightarrow> a = b \<or>
     (\<exists>xs ys. (a, b) = (Rules xs, Rules ys) \<and> mset xs = mset ys) \<or>
     (\<exists>xs ys. (a, b) = (Zones xs, Zones ys) \<and> mset xs = mset ys) \<or>
     (\<exists>xs ys. (a, b) = (Records xs, Records ys) \<and> mset xs = mset ys) \<or>
     (\<exists>xs ys. (a, b) = (Routers xs, Routers ys) \<and> mset xs = mset ys) \<or>
     (\<exists>xs ys. (a, b) = (LoadBalancers xs, LoadBalancers ys) \<and> mset xs = mset ys)"

abbreviation same_reply :: "(grpc_status, response) result \<Rightarrow> (grpc_status, response) result \<Rightarrow> bool" where
  "same_reply \<equiv> rel_sum (=) same_response"

lemma same_response_refl [simp]: "same_response a a"
  by (simp add: same_response_def)

lemma same_response_sym: "same_response a b \<Longrightarrow> same_response b a"
  by (auto simp: same_response_def)

lemma same_response_trans: "same_response a b \<Longrightarrow> same_response b c \<Longrightarrow> same_response a c"
  by (auto simp: same_response_def)

lemma same_listing:
  "mset rs = mset rs' \<Longrightarrow> same_response (Rules rs) (Rules rs')"
  "mset zs = mset zs' \<Longrightarrow> same_response (Zones zs) (Zones zs')"
  "mset qs = mset qs' \<Longrightarrow> same_response (Records qs) (Records qs')"
  "mset os = mset os' \<Longrightarrow> same_response (Routers os) (Routers os')"
  "mset ls = mset ls' \<Longrightarrow> same_response (LoadBalancers ls) (LoadBalancers ls')"
  by (simp_all add: same_response_def)

lemma same_reply_refl [simp]: "same_reply r r"
  by (cases r) simp_all

lemma same_reply_eq_trans: "same_reply r x \<Longrightarrow> same_reply s x \<Longrightarrow> same_reply r s"
  by (auto elim!: rel_sum.cases) (metis same_response_sym same_response_trans)

section \<open>What a set of stores promises\<close>

text \<open>
  \<open>sim\<close>: an operation answers as the abstract one does and leads to the state it leads to.
  \<open>lists\<close>: a listing has every visible row once and changes nothing.
\<close>

definition sim :: "('d \<Rightarrow> net) \<Rightarrow> ('d \<Rightarrow> bool) \<Rightarrow> ('d \<Rightarrow> 'r \<times> 'd) \<Rightarrow> (net \<Rightarrow> 'r \<times> net) \<Rightarrow> 'd \<Rightarrow> bool" where
  "sim absn good f g d \<longleftrightarrow> g (absn d) = apsnd absn (f d) \<and> good (snd (f d))"

definition lists :: "('d \<Rightarrow> net) \<Rightarrow> ('d \<Rightarrow> bool) \<Rightarrow> 'v set \<Rightarrow> ((store_err, 'v list) result \<times> 'd) \<Rightarrow> 'd \<Rightarrow> bool" where
  "lists absn good V res d \<longleftrightarrow>
     (\<exists>vs. fst res = Inr vs \<and> distinct vs \<and> set vs = V) \<and> absn (snd res) = absn d \<and> good (snd res)"

lemma apfst_same [simp]: "apfst (map_sum id (\<lambda>l. l)) p = p"
  by (cases p; cases "fst p") auto

lemma sim_done [intro]: "good d \<Longrightarrow> sim absn good (\<lambda>d. (r, d)) (\<lambda>n. (r, n)) d"
  by (simp add: sim_def)

lemma sim_apfst: "sim absn good f g d \<Longrightarrow> sim absn good (\<lambda>d. apfst h (f d)) (\<lambda>n. apfst h (g n)) d"
  by (cases "f d") (simp add: sim_def)

lemma sim_then:
  assumes "sim absn good f g d" and "\<And>r d'. f d = (r, d') \<Longrightarrow> good d' \<Longrightarrow> sim absn good (h r) (k r) d'"
  shows "sim absn good (\<lambda>d. case f d of (r, d') \<Rightarrow> h r d') (\<lambda>n. case g n of (r, n') \<Rightarrow> k r n') d"
  using assms by (cases "f d") (auto simp: sim_def)

locale network =
  fixes st :: "'d stores" and absn :: "'d \<Rightarrow> net" and good :: "'d \<Rightarrow> bool"
  assumes abs_ok: "good d \<Longrightarrow> net_ok (absn d)"
    and create_rule: "good d \<Longrightarrow> n_rules (absn d) (rule_uuid v) = None \<Longrightarrow> plain (rule_project v) \<Longrightarrow>
      sim absn good (rb_create (st_rules st) v) (on_part n_rules put_rules (spec_create rule_uuid rule_pair v)) d"
    and delete_rule: "good d \<Longrightarrow> sim absn good (rb_delete (st_rules st) u) (on_part n_rules put_rules (spec_delete u)) d"
    and list_rules: "good d \<Longrightarrow> lists absn good (visible rule_project p (n_rules (absn d))) (rb_list (st_rules st) p d) d"
    and dns: "good d \<Longrightarrow> dns_admits (\<lambda>n. n < max_txn_ops) c (n_dns (absn d)) \<Longrightarrow>
      list_all (\<lambda>z. plain (zone_project z)) (case c of CreateZone z \<Rightarrow> [z] | _ \<Rightarrow> []) \<Longrightarrow>
      sim absn good (dns_dispatch (st_dns st) c) (on_part n_dns put_dns (dns_spec_call zone_pair c)) d"
    and list_zones: "good d \<Longrightarrow> lists absn good (visible zone_project p (fst (n_dns (absn d)))) (st_list_zones st p d) d"
    and list_records: "good d \<Longrightarrow> lists absn good (visible rec_zone z (snd (n_dns (absn d)))) (st_list_records st z d) d"
    and create_router: "good d \<Longrightarrow> n_routers (absn d) (router_uuid r) = None \<Longrightarrow> plain (router_project r) \<Longrightarrow>
      sim absn good (rb_create (st_routers st) r) (on_part n_routers put_routers (spec_create router_uuid router_pair r)) d"
    and delete_router: "good d \<Longrightarrow>
      sim absn good (rb_delete (st_routers st) u) (on_part n_routers put_routers (spec_delete u)) d"
    and list_routers: "good d \<Longrightarrow>
      lists absn good (visible router_project p (n_routers (absn d))) (rb_list (st_routers st) p d) d"
    and create_lb: "good d \<Longrightarrow> n_lbs (absn d) (lb_uuid l) = None \<Longrightarrow> plain (lb_project l) \<Longrightarrow>
      sim absn good (rb_create (st_lbs st) l) (on_part n_lbs put_lbs (spec_create lb_uuid lb_pair l)) d"
    and delete_lb: "good d \<Longrightarrow> sim absn good (rb_delete (st_lbs st) u) (on_part n_lbs put_lbs (spec_delete u)) d"
    and list_lbs: "good d \<Longrightarrow> lists absn good (visible lb_project p (n_lbs (absn d))) (rb_list (st_lbs st) p d) d"
    and set_lb_backends: "good d \<Longrightarrow>
      sim absn good (st_set_backends st bs u) (on_part n_lbs put_lbs (spec_update (set_backends bs) u)) d"
    and update_status: "good d \<Longrightarrow> sim absn good (st_update_status st x u) (on_part n_routers put_routers (spec_status x u)) d"

text \<open>The operations of the abstract stores.\<close>

lemma net_ops [simp]:
  "rb_create (st_rules (net_stores o')) = (\<lambda>v. on_part n_rules put_rules (spec_create rule_uuid rule_pair v))"
  "rb_delete (st_rules (net_stores o')) = (\<lambda>u. on_part n_rules put_rules (spec_delete u))"
  "rb_create (st_routers (net_stores o')) = (\<lambda>v. on_part n_routers put_routers (spec_create router_uuid router_pair v))"
  "rb_delete (st_routers (net_stores o')) = (\<lambda>u. on_part n_routers put_routers (spec_delete u))"
  "rb_create (st_lbs (net_stores o')) = (\<lambda>v. on_part n_lbs put_lbs (spec_create lb_uuid lb_pair v))"
  "rb_delete (st_lbs (net_stores o')) = (\<lambda>u. on_part n_lbs put_lbs (spec_delete u))"
  "st_set_backends (net_stores o') = (\<lambda>bs u. on_part n_lbs put_lbs (spec_update (set_backends bs) u))"
  "st_update_status (net_stores o') = (\<lambda>x u. on_part n_routers put_routers (spec_status x u))"
  "st_dns (net_stores o') = lift_dns n_dns_update n_dns dns_spec"
  by (simp_all add: net_stores_def row_spec_def)

lemma lift_dns_dispatch:
  "on_part n_dns put_dns (dns_spec_call zone_pair c) = dns_dispatch (lift_dns n_dns_update n_dns dns_spec) c"
proof -
  have "dns_spec_call zone_pair c = dns_dispatch dns_spec c" by (rule ext) (simp add: dns_spec_dispatch)
  then show ?thesis
    by (intro ext) (cases c; simp add: dns_dispatch_def lift_dns_def on_part_def Let_def split_beta)
qed

lemma table_inj: "table_ok uid m \<Longrightarrow> inj_on m (dom m)"
  by (auto simp: table_ok_def rows_keyed_def inj_on_def) (metis option.inject)

lemma table_card:
  assumes "table_ok uid m"
  shows "card (ran m) = card (dom m)"
proof -
  have row: "m (uid v) = Some v" if "v \<in> ran m" for v
    using assms that by (auto simp: table_ok_def rows_keyed_def ran_def)
  then have "inj_on uid (ran m)" by (metis inj_onI option.inject)
  moreover have "uid ` ran m = dom m"
    using row assms by (auto simp: table_ok_def rows_keyed_def ran_def image_iff)
  ultimately show ?thesis using card_image by fastforce
qed

lemma visible_list:
  assumes "enumerator order" and "table_ok uid m"
  shows "\<exists>vs. spec_list order f p m = Inr vs \<and> distinct vs \<and> set vs = visible f p m"
proof -
  from assms have enum: "enumerates (order m) m" by (simp add: enumerator_def table_ok_def)
  have "distinct (range_vals (order m) m)"
    using enum table_inj [OF assms(2)] by (simp add: enumerates_def distinct_range_vals)
  with set_range_vals [OF enum] show ?thesis by (auto simp: spec_list_def visible_def)
qed

lemma net_lists:
  assumes "orders_ok o'" and "net_ok n"
  shows "lists id (\<lambda>_. True) (visible rule_project p (n_rules n)) (rb_list (st_rules (net_stores o')) p n) n"
    and "lists id (\<lambda>_. True) (visible zone_project p (fst (n_dns n))) (st_list_zones (net_stores o') p n) n"
    and "lists id (\<lambda>_. True) (visible rec_zone p (snd (n_dns n))) (st_list_records (net_stores o') p n) n"
    and "lists id (\<lambda>_. True) (visible router_project p (n_routers n)) (rb_list (st_routers (net_stores o')) p n) n"
    and "lists id (\<lambda>_. True) (visible lb_project p (n_lbs n)) (rb_list (st_lbs (net_stores o')) p n) n"
  using assms
  by (simp_all add: lists_def net_stores_def row_spec_def on_part_def orders_ok_def net_ok_def
      visible_list [of "no_rules o'" rule_uuid] visible_list [of "no_zones o'" zone_uuid]
      visible_list [of "no_records o'" rec_uuid] visible_list [of "no_routers o'" router_uuid]
      visible_list [of "no_lbs o'" lb_uuid])

section \<open>The handlers over a network\<close>

text \<open>One request, served over the stores and over the abstract network.\<close>

definition step_sim ::
  "('d \<Rightarrow> net) \<Rightarrow> ('d \<Rightarrow> bool) \<Rightarrow> ('d, 'w) Server \<Rightarrow> net_orders \<Rightarrow> request \<Rightarrow> 'd \<Rightarrow> 'w \<Rightarrow> bool" where
  "step_sim absn good sv o' q d w \<longleftrightarrow>
     (\<forall>r d' w'. serve sv q (d, w) = (r, d', w') \<longrightarrow>
        (\<exists>r'. serve (net_server o' sv) q (absn d, w) = (r', absn d', w') \<and> same_reply r r' \<and> good d'))"

context network
begin

text \<open>The five operations of the zones and records, one by one.\<close>

lemma dns_ops:
  assumes "good d"
  shows "fst (n_dns (absn d)) (zone_uuid z) = None \<Longrightarrow> zone_records z = 0 \<Longrightarrow> plain (zone_project z) \<Longrightarrow>
      sim absn good (op_create_zone (st_dns st) z) (op_create_zone (lift_dns n_dns_update n_dns dns_spec) z) d"
    and "card (recs_in (snd (n_dns (absn d))) u) < max_txn_ops \<Longrightarrow>
      sim absn good (op_delete_zone (st_dns st) u) (op_delete_zone (lift_dns n_dns_update n_dns dns_spec) u) d"
    and "sim absn good (op_get_zone (st_dns st) u) (op_get_zone (lift_dns n_dns_update n_dns dns_spec) u) d"
    and "snd (n_dns (absn d)) (rec_uuid r) = None \<Longrightarrow>
      sim absn good (op_create_record (st_dns st) r) (op_create_record (lift_dns n_dns_update n_dns dns_spec) r) d"
    and "(\<And>q. snd (n_dns (absn d)) u = Some q \<Longrightarrow> card (recs_in (snd (n_dns (absn d))) (rec_zone q)) < 2 ^ 32) \<Longrightarrow>
      sim absn good (op_delete_record (st_dns st) u) (op_delete_record (lift_dns n_dns_update n_dns dns_spec) u) d"
  using dns [OF assms, of "CreateZone z"] dns [OF assms, of "DeleteZone u"] dns [OF assms, of "GetZone u"]
    dns [OF assms, of "CreateRecord r"] dns [OF assms, of "DeleteRecord u"]
  unfolding lift_dns_dispatch
  by (simp_all add: dns_admits_def dns_dispatch_def sim_def prod_eq_iff split_beta)

text \<open>The handlers that only touch the stores.\<close>

lemma list_handler_same:
  assumes "lists absn good V res d" and "lists id (\<lambda>_. True) V res' (absn d)" and "good d"
    and "store_only C (list_handler what f res) w = (r, d', w')"
    and "\<And>xs ys. mset xs = mset ys \<Longrightarrow> same_response (C xs) (C ys)"
  shows "\<exists>r'. store_only C (list_handler what f res') w = (r', absn d', w') \<and> same_reply r r' \<and> good d'"
proof -
  obtain vs ws where vs: "res = (Inr vs, snd res)" "distinct vs" "set vs = V" and ws: "res' = (Inr ws, absn d)" "distinct ws" "set ws = V"
    using assms(1,2) by (cases res; cases res') (auto simp: lists_def)
  then have "mset (map f vs) = mset (map f ws)" using set_eq_iff_mset_eq_distinct [of vs ws] by simp
  with assms(1,4,5) vs(1) ws(1) show ?thesis
    by (auto simp: store_only_def list_handler_def lists_def split: prod.splits)
qed

lemma store_only_same:
  assumes "sim absn good f g d" and "store_only C (f d) w = (r, d', w')"
  shows "\<exists>r'. store_only C (g (absn d)) w = (r', absn d', w') \<and> same_reply r r' \<and> good d'"
  using assms by (cases "f d") (auto simp: store_only_def sim_def)

lemma delete_handler_sim:
  assumes "good d" and "sim absn good (f (trim_space v)) (g (trim_space v)) d"
  shows "sim absn good (delete_handler what f v) (delete_handler what g v) d"
  using assms
  by (cases "f (trim_space v) d"; cases "fst (f (trim_space v) d)") (auto simp: sim_def delete_handler_def Let_def)

lemma create_rule_handler:
  assumes "good d" and "srv_stores sv = st" and "n_rules (absn d) (newUUID b) = None" and "plain (csr_project q)"
  shows "sim absn good (CreateSchedulingRule sv b t q) (CreateSchedulingRule (net_server o' sv) b t q) d"
proof -
  have "sim absn good (rb_create (st_rules st) v) (on_part n_rules put_rules (spec_create rule_uuid rule_pair v)) d"
    if "rule_uuid v = newUUID b" "rule_project v = csr_project q" for v
    using create_rule [OF assms(1)] assms(3,4) that by simp
  then show ?thesis unfolding sim_def CreateSchedulingRule_def Let_def assms(2) net_server_sels net_ops
    using assms(1) by (simp add: split_beta split: sum.split)
qed

lemma create_zone_handler:
  assumes "good d" and "srv_stores sv = st" and "fst (n_dns (absn d)) (newUUID b) = None" and "plain (czr_project q)"
  shows "sim absn good (CreateDNSZone sv b t q) (CreateDNSZone (net_server o' sv) b t q) d"
proof -
  have "sim absn good (op_create_zone (st_dns st) z) (op_create_zone (lift_dns n_dns_update n_dns dns_spec) z) d"
    if "zone_uuid z = newUUID b" "zone_records z = 0" "zone_project z = czr_project q" for z
    using dns_ops(1) [OF assms(1)] assms(3,4) that by simp
  then show ?thesis unfolding sim_def CreateDNSZone_def Let_def assms(2) net_server_sels net_ops
    using assms(1) by (simp add: split_beta split: sum.split)
qed

lemma create_lb_handler:
  assumes "good d" and "srv_stores sv = st" and "n_lbs (absn d) (newUUID b) = None" and "plain (clr_project q)"
  shows "sim absn good (CreateLoadBalancer sv b t q) (CreateLoadBalancer (net_server o' sv) b t q) d"
proof -
  have "sim absn good (rb_create (st_lbs st) l) (on_part n_lbs put_lbs (spec_create lb_uuid lb_pair l)) d"
    if "lb_uuid l = newUUID b" "lb_project l = clr_project q" for l
    using create_lb [OF assms(1)] assms(3,4) that by simp
  then show ?thesis unfolding sim_def CreateLoadBalancer_def Let_def assms(2) net_server_sels net_ops
    using assms(1) by (simp add: split_beta split: sum.split)
qed

lemma set_backends_handler:
  assumes "good d" and "srv_stores sv = st"
  shows "sim absn good (SetLoadBalancerBackends sv u bs) (SetLoadBalancerBackends (net_server o' sv) u bs) d"
  using set_lb_backends [OF assms(1)] assms(1)
  unfolding sim_def SetLoadBalancerBackends_def Let_def assms(2) net_server_sels net_ops
  by (simp add: split_beta split: sum.split)

text \<open>A record takes the default TTL of its zone; the lookup changes nothing.\<close>

lemma get_zone_idle:
  assumes "good d"
  shows "absn (snd (op_get_zone (st_dns st) u d)) = absn d"
proof -
  have "snd (op_get_zone (lift_dns n_dns_update n_dns dns_spec) u (absn d)) = absn d"
    by (simp add: lift_dns_def dns_spec_def on_part_def)
  with dns_ops(3) [OF assms, of u] show ?thesis by (simp add: sim_def)
qed

lemma record_ttl_sim:
  assumes "good d" and "srv_stores sv = st"
  shows "sim absn good (record_ttl sv zn ttl) (record_ttl (net_server o' sv) zn ttl) d \<and>
    absn (snd (record_ttl sv zn ttl d)) = absn d"
  using dns_ops(3) [OF assms(1), of zn] get_zone_idle [OF assms(1), of zn] assms(1)
  unfolding sim_def record_ttl_def assms(2) net_server_sels net_ops
  by (simp add: Let_def split_beta)

lemma create_record_handler:
  assumes "good d" and "srv_stores sv = st" and "snd (n_dns (absn d)) (newUUID b) = None"
  shows "sim absn good (CreateDNSRecord sv b q) (CreateDNSRecord (net_server o' sv) b q) d"
proof -
  define u where "u = trim_space (crr_zone q)"
  obtain n d1 where ttl: "record_ttl sv u (crr_ttl q) d = (n, d1)" by fastforce
  from record_ttl_sim [OF assms(1,2), of u "crr_ttl q" o'] ttl
  have net: "record_ttl (net_server o' sv) u (crr_ttl q) (absn d) = (n, absn d)" and d1: "absn d1 = absn d" "good d1"
    by (simp_all add: sim_def)
  have "sim absn good (op_create_record (st_dns st) r) (op_create_record (lift_dns n_dns_update n_dns dns_spec) r) d1"
    if "rec_uuid r = newUUID b" for r
    using dns_ops(4) [OF d1(2)] assms(3) d1(1) that by simp
  then show ?thesis
    unfolding sim_def CreateDNSRecord_def Let_def assms(2) net_server_sels net_ops u_def [symmetric] ttl net
    using assms(1) d1(1) by (simp add: split_beta split: sum.split)
qed

text \<open>The router handlers, which also push to the publisher and the lifecycle.\<close>

lemma push_net [simp]: "push_router (net_server o' sv) = push_router sv"
  by (simp add: push_router_def fun_eq_iff)

lemma create_router_handler:
  assumes "good d" and "srv_stores sv = st" and "n_routers (absn d) (newUUID b) = None" and "plain (cro_project q)"
    and "CreateRouter sv b t q (d, w) = (r, d', w')"
  shows "CreateRouter (net_server o' sv) b t q (absn d, w) = (r, absn d', w') \<and> good d'"
proof (cases "router_of_request b t q")
  case (Inl e)
  with assms(1,5) show ?thesis by (auto simp: CreateRouter_def)
next
  case (Inr x)
  have "sim absn good (rb_create (st_routers st) x) (on_part n_routers put_routers (spec_create router_uuid router_pair x)) d"
    using create_router [OF assms(1)] assms(3,4) router_of_request_ok(1,12) [OF Inr] by simp
  with Inr assms(2,5) show ?thesis
    by (cases "rb_create (st_routers st) x d") (auto simp: CreateRouter_def sim_def split: sum.splits)
qed

lemma delete_router_handler:
  assumes "good d" and "srv_stores sv = st" and "DeleteRouter sv u (d, w) = (r, d', w')"
  shows "DeleteRouter (net_server o' sv) u (absn d, w) = (r, absn d', w') \<and> good d'"
proof -
  have "sim absn good (delete_handler ''router'' (rb_delete (st_routers st)) u)
      (delete_handler ''router'' (\<lambda>u. on_part n_routers put_routers (spec_delete u)) u) d"
    using delete_router [OF assms(1)] by (rule delete_handler_sim [OF assms(1)])
  with assms(2,3) show ?thesis
    by (cases "delete_handler ''router'' (rb_delete (st_routers st)) u d")
       (auto simp: DeleteRouter_def sim_def Let_def split_beta split: sum.splits)
qed

text \<open>The server over the stores refines the server over the abstract network, kind of request by kind of request.\<close>

lemma list_requests:
  assumes "good d" and "srv_stores sv = st" and "orders_ok o'"
  shows "step_sim absn good sv o' (RqListSchedulingRules p) d w" "step_sim absn good sv o' (RqListDNSZones p) d w"
    "step_sim absn good sv o' (RqListDNSRecords p) d w" "step_sim absn good sv o' (RqListRouters p) d w"
    "step_sim absn good sv o' (RqListLoadBalancers p) d w"
proof -
  note net = net_lists [OF assms(3) abs_ok [OF assms(1)]]
  note defs = step_sim_def serve.simps ListSchedulingRules_def ListDNSZones_def ListDNSRecords_def ListRouters_def
    ListLoadBalancers_def assms(2) net_server_sels
  show "step_sim absn good sv o' (RqListSchedulingRules p) d w" unfolding defs
    by (intro allI impI, rule list_handler_same [OF list_rules [OF assms(1)] net(1) assms(1)]) (assumption, rule same_listing(1))
  show "step_sim absn good sv o' (RqListDNSZones p) d w" unfolding defs
    by (intro allI impI, rule list_handler_same [OF list_zones [OF assms(1)] net(2) assms(1)]) (assumption, rule same_listing(2))
  show "step_sim absn good sv o' (RqListDNSRecords p) d w" unfolding defs
    by (intro allI impI, rule list_handler_same [OF list_records [OF assms(1)] net(3) assms(1)]) (assumption, rule same_listing(3))
  show "step_sim absn good sv o' (RqListRouters p) d w" unfolding defs
    by (intro allI impI, rule list_handler_same [OF list_routers [OF assms(1)] net(4) assms(1)]) (assumption, rule same_listing(4))
  show "step_sim absn good sv o' (RqListLoadBalancers p) d w" unfolding defs
    by (intro allI impI, rule list_handler_same [OF list_lbs [OF assms(1)] net(5) assms(1)]) (assumption, rule same_listing(5))
qed

lemma store_request:
  assumes "\<And>d w. serve sv q (d, w) = store_only C (f d) w" and "\<And>n w. serve (net_server o' sv) q (n, w) = store_only C (g n) w"
    and "sim absn good f g d"
  shows "step_sim absn good sv o' q d w"
  unfolding step_sim_def assms(1,2) by (intro allI impI) (rule store_only_same [OF assms(3)])

lemma create_requests:
  assumes "good d" and "srv_stores sv = st"
  shows "admits (RqCreateSchedulingRule b t c1) (absn d) \<Longrightarrow> step_sim absn good sv o' (RqCreateSchedulingRule b t c1) d w"
    and "admits (RqCreateDNSZone b t c2) (absn d) \<Longrightarrow> step_sim absn good sv o' (RqCreateDNSZone b t c2) d w"
    and "admits (RqCreateDNSRecord b c3) (absn d) \<Longrightarrow> step_sim absn good sv o' (RqCreateDNSRecord b c3) d w"
    and "admits (RqCreateLoadBalancer b t c4) (absn d) \<Longrightarrow> step_sim absn good sv o' (RqCreateLoadBalancer b t c4) d w"
    and "step_sim absn good sv o' (RqSetLoadBalancerBackends u bs) d w"
  using create_rule_handler [OF assms] create_zone_handler [OF assms] create_record_handler [OF assms]
    create_lb_handler [OF assms] set_backends_handler [OF assms]
  by (auto intro!: store_request [OF serve.simps(2) serve.simps(2)] store_request [OF serve.simps(5) serve.simps(5)]
      store_request [OF serve.simps(8) serve.simps(8)] store_request [OF serve.simps(14) serve.simps(14)]
      store_request [OF serve.simps(16) serve.simps(16)])

lemma delete_requests:
  assumes "good d" and "srv_stores sv = st"
  shows "step_sim absn good sv o' (RqDeleteSchedulingRule u) d w"
    and "admits (RqDeleteDNSZone u) (absn d) \<Longrightarrow> step_sim absn good sv o' (RqDeleteDNSZone u) d w"
    and "admits (RqDeleteDNSRecord u) (absn d) \<Longrightarrow> step_sim absn good sv o' (RqDeleteDNSRecord u) d w"
    and "step_sim absn good sv o' (RqDeleteLoadBalancer u) d w"
proof -
  note defs = DeleteSchedulingRule_def DeleteDNSZone_def DeleteDNSRecord_def DeleteLoadBalancer_def assms(2) net_server_sels net_ops
  note del = delete_handler_sim [OF assms(1)]
  show "step_sim absn good sv o' (RqDeleteSchedulingRule u) d w"
    by (rule store_request [OF serve.simps(3) serve.simps(3)], unfold defs, rule del, rule delete_rule [OF assms(1)])
  show "step_sim absn good sv o' (RqDeleteLoadBalancer u) d w"
    by (rule store_request [OF serve.simps(15) serve.simps(15)], unfold defs, rule del, rule delete_lb [OF assms(1)])
  show "step_sim absn good sv o' (RqDeleteDNSZone u) d w" if "admits (RqDeleteDNSZone u) (absn d)"
    by (rule store_request [OF serve.simps(6) serve.simps(6)], unfold defs, rule del, rule dns_ops(2) [OF assms(1)]) (use that in simp)
  show "step_sim absn good sv o' (RqDeleteDNSRecord u) d w" if "admits (RqDeleteDNSRecord u) (absn d)"
    by (rule store_request [OF serve.simps(9) serve.simps(9)], unfold defs, rule del, rule dns_ops(5) [OF assms(1)]) (use that in simp)
qed

lemma router_requests:
  assumes "good d" and "srv_stores sv = st"
  shows "admits (RqCreateRouter b t c) (absn d) \<Longrightarrow> step_sim absn good sv o' (RqCreateRouter b t c) d w"
    and "step_sim absn good sv o' (RqDeleteRouter u) d w"
proof -
  show "step_sim absn good sv o' (RqCreateRouter b t c) d w" if "admits (RqCreateRouter b t c) (absn d)"
  proof -
    obtain x d1 w1 where "CreateRouter sv b t c (d, w) = (x, d1, w1)" by (rule prod_cases3)
    with create_router_handler [OF assms _ _ this, of o'] that show ?thesis by (simp add: step_sim_def)
  qed
  obtain y d2 w2 where "DeleteRouter sv u (d, w) = (y, d2, w2)" by (rule prod_cases3)
  with delete_router_handler [OF assms this, of o'] show "step_sim absn good sv o' (RqDeleteRouter u) d w"
    by (simp add: step_sim_def)
qed

lemma serve_sim:
  assumes "good d" and "srv_stores sv = st" and "orders_ok o'" and "admits q (absn d)"
    and step: "serve sv q (d, w) = (r, d', w')"
  shows "\<exists>r'. serve (net_server o' sv) q (absn d, w) = (r', absn d', w') \<and> same_reply r r' \<and> good d'"
proof -
  have "step_sim absn good sv o' q d w"
    using assms(4)
    by (cases q) (simp_all only: list_requests [OF assms(1-3)] create_requests [OF assms(1,2)] delete_requests [OF assms(1,2)]
        router_requests [OF assms(1,2)])
  with step show ?thesis unfolding step_sim_def by blast
qed

end

end
