(* ===== verification/Status_Receiver.thy ===== *)
theory Status_Receiver
  imports Router_Store
begin

text \<open>
  The status receiver: \<^verbatim>\<open>internal/statusreceiver\<close>. A status message of a router VM is decoded,
  rolled up into a status and a peer summary, and written to the row of the router whose uuid is
  in the subject. The store is an interface (\<open>status_store\<close>, an \<open>updating_store\<close> of routers), which
  both backends interpret.
\<close>

section \<open>Messages\<close>

record PeerStatus =
  ps_address :: string
  ps_state :: string
  ps_uptime :: i64
  ps_received :: i64

record RouterStatus =
  rs_overall :: string
  rs_peers :: "PeerStatus list"
  rs_routes :: i64
  rs_published :: i64

definition peer_zero :: PeerStatus where
  "peer_zero = \<lparr>ps_address = [], ps_state = [], ps_uptime = 0, ps_received = 0\<rparr>"

definition status_zero :: RouterStatus where
  "status_zero = \<lparr>rs_overall = [], rs_peers = [], rs_routes = 0, rs_published = 0\<rparr>"

definition peer_fields :: "PeerStatus field list" where
  "peer_fields =
     [(''Address'', set_str (\<lambda>s. ps_address_update (\<lambda>_. s))),
      (''State'', set_str (\<lambda>s. ps_state_update (\<lambda>_. s))),
      (''UptimeSec'', set_signed 64 (\<lambda>n. ps_uptime_update (\<lambda>_. word_of_int n))),
      (''ReceivedPrefixes'', set_signed 64 (\<lambda>n. ps_received_update (\<lambda>_. word_of_int n)))]"

text \<open>
  An array decodes element by element, into the elements the slice already has (from an earlier
  occurrence of the key) and then into zero values; \<open>null\<close> leaves an element as it is.
\<close>

fun decode_peers :: "PeerStatus list \<Rightarrow> json list \<Rightarrow> PeerStatus list option" where
  "decode_peers olds [] = Some []"
| "decode_peers olds (j # js) =
     (let old = (case olds of [] \<Rightarrow> peer_zero | p # _ \<Rightarrow> p) in
      case (case j of JObj kvs \<Rightarrow> decode_fields peer_fields old kvs | JNull \<Rightarrow> Some old | _ \<Rightarrow> None) of
        None \<Rightarrow> None
      | Some p \<Rightarrow> map_option (\<lambda>ps. p # ps) (decode_peers (tl olds) js))"

definition set_peers :: "RouterStatus \<Rightarrow> json \<Rightarrow> RouterStatus option" where
  "set_peers st j = (case j of
     JArr js \<Rightarrow> map_option (\<lambda>ps. st\<lparr>rs_peers := ps\<rparr>) (decode_peers (rs_peers st) js)
   | JNull \<Rightarrow> Some (st\<lparr>rs_peers := []\<rparr>)
   | _ \<Rightarrow> None)"

definition status_fields :: "RouterStatus field list" where
  "status_fields =
     [(''Overall'', set_str (\<lambda>s. rs_overall_update (\<lambda>_. s))),
      (''Peers'', set_peers),
      (''RoutesInstalled'', set_signed 64 (\<lambda>n. rs_routes_update (\<lambda>_. word_of_int n))),
      (''PublishedAtUnix'', set_signed 64 (\<lambda>n. rs_published_update (\<lambda>_. word_of_int n)))]"

section \<open>Derived state\<close>

text \<open>The loop over the peers with its two flags.\<close>

fun peer_flags :: "PeerStatus list \<Rightarrow> bool \<times> bool \<Rightarrow> bool \<times> bool" where
  "peer_flags [] fl = fl"
| "peer_flags (p # ps) (anyEstablished, anyNegotiating) =
     peer_flags ps
       (if ps_state p = ''Established'' then (True, anyNegotiating)
        else if ps_state p \<in> {''OpenSent'', ''OpenConfirm'', ''Active''} then (anyEstablished, True)
        else (anyEstablished, anyNegotiating))"

definition rollupStatus :: "PeerStatus list \<Rightarrow> string" where
  "rollupStatus peers =
     (if peers = [] then ''configuring''
      else let (anyEstablished, anyNegotiating) = peer_flags peers (False, False) in
        if anyEstablished then ''active'' else if anyNegotiating then ''configuring'' else ''down'')"

definition formatPeerState :: "RouterStatus \<Rightarrow> string" where
  "formatPeerState st =
     (if rs_peers st = [] then []
      else join_with '','' (map (\<lambda>p. ps_address p @ '':'' @ ps_state p) (rs_peers st)) @
           '' ; routes='' @ show_int (sint (rs_routes st)))"

definition derivedStateOf :: "RouterStatus \<Rightarrow> string \<times> string" where
  "derivedStateOf st = (rollupStatus (rs_peers st), formatPeerState st)"

definition uuidFromSubject :: "string \<Rightarrow> string option" where
  "uuidFromSubject subject =
     (if \<not> has_prefix subject ''weft.router.'' \<or> \<not> has_suffix subject ''.status'' then None
      else
        let uuid = trim_suffix (trim_prefix subject ''weft.router.'') ''.status'' in
        if uuid = [] \<or> CHR ''.'' \<in> set uuid then None else Some uuid)"

section \<open>The handler\<close>

datatype status_outcome = BadSubject | BadPayload | RouterGone | StoreFailed store_err | Updated

definition status_handle ::
  "(string \<times> string \<Rightarrow> string \<Rightarrow> 's \<Rightarrow> (store_err, unit) result \<times> 's) \<Rightarrow> string \<Rightarrow> etcd_value \<Rightarrow> 's \<Rightarrow>
   status_outcome \<times> 's" where
  "status_handle update subject data s =
     (case uuidFromSubject subject of
        None \<Rightarrow> (BadSubject, s)
      | Some uuid \<Rightarrow>
          (case unmarshal status_fields status_zero data of
             None \<Rightarrow> (BadPayload, s)
           | Some st \<Rightarrow>
               (case update (derivedStateOf st) uuid s of
                  (Inl err, s') \<Rightarrow> (if err = ErrNotFound then RouterGone else StoreFailed err, s')
                | (Inr _, s') \<Rightarrow> (Updated, s'))))"

text \<open>
  The receiver object: its connection and its subscription, which \<open>Start\<close> sets and \<open>Stop\<close> clears.
  \<open>connect\<close> and \<open>subscribe\<close> are the calls of the NATS client.
\<close>

definition StatusSubject :: string where
  "StatusSubject = ''weft.router.*.status''"

record Receiver =
  rcv_url :: string
  rcv_conn :: bool
  rcv_sub :: bool

definition receiver_New :: "string \<Rightarrow> bool \<Rightarrow> (store_err, Receiver) result" where
  "receiver_New url has_store =
     (if url = [] then Inl (ErrMsg ''statusreceiver: empty url'')
      else if \<not> has_store then Inl (ErrMsg ''statusreceiver: nil store'')
      else Inr \<lparr>rcv_url = url, rcv_conn = False, rcv_sub = False\<rparr>)"

definition receiver_Start ::
  "(string \<Rightarrow> (rpc_err, unit) result) \<Rightarrow> (string \<Rightarrow> (rpc_err, unit) result) \<Rightarrow> Receiver \<Rightarrow> (store_err, unit) result \<times> Receiver" where
  "receiver_Start connect subscribe r =
     (case connect (rcv_url r) of
        Inl e \<Rightarrow> (Inl (ErrWrap (''nats connect '' @ rcv_url r) e), r)
      | Inr _ \<Rightarrow>
          (case subscribe StatusSubject of
             Inl e \<Rightarrow> (Inl (ErrWrap (''subscribe '' @ StatusSubject) e), r\<lparr>rcv_conn := False\<rparr>)
           | Inr _ \<Rightarrow> (Inr (), r\<lparr>rcv_conn := True, rcv_sub := True\<rparr>)))"

definition receiver_Stop :: "Receiver \<Rightarrow> Receiver" where
  "receiver_Stop r = r\<lparr>rcv_conn := False, rcv_sub := False\<rparr>"

text \<open>No subscription without its connection, whether \<open>Start\<close> succeeded or not, and \<open>Stop\<close> twice is \<open>Stop\<close>.\<close>

lemma receiver_life:
  "receiver_Start connect subscribe \<lparr>rcv_url = u, rcv_conn = False, rcv_sub = False\<rparr> = (res, r) \<Longrightarrow>
     (rcv_conn r \<longleftrightarrow> res = Inr ()) \<and> (rcv_sub r \<longleftrightarrow> rcv_conn r)"
  "receiver_Stop (receiver_Stop r) = receiver_Stop r"
  by (auto simp: receiver_Start_def receiver_Stop_def split: sum.splits)

section \<open>Lemmas\<close>

lemma peer_flags_spec:
  "peer_flags ps (a, b) =
     (a \<or> (\<exists>p \<in> set ps. ps_state p = ''Established''),
      b \<or> (\<exists>p \<in> set ps. ps_state p \<in> {''OpenSent'', ''OpenConfirm'', ''Active''}))"
  by (induction ps arbitrary: a b) auto

lemma uuidFromSubject_status:
  "uuidFromSubject (''weft.router.'' @ u @ ''.status'') = (if u = [] \<or> CHR ''.'' \<in> set u then None else Some u)"
proof -
  have "has_suffix (''weft.router.'' @ u @ ''.status'') ''.status''"
    using has_suffix_append [of "''weft.router.'' @ u" "''.status''"] by simp
  moreover have "has_prefix (''weft.router.'' @ u @ ''.status'') ''weft.router.''" by (rule has_prefix_append)
  ultimately show ?thesis
    unfolding uuidFromSubject_def Let_def trim_prefix_append trim_suffix_append by simp
qed

section \<open>Over the store interface\<close>

locale status_store = updating_store rows good create delete fetch router_uuid pkey update set_status "\<lambda>_. ()"
  for rows :: "'s \<Rightarrow> string \<rightharpoonup> Router" and good create delete fetch and pkey :: "Router \<Rightarrow> 'k"
    and update :: "string \<times> string \<Rightarrow> string \<Rightarrow> 's \<Rightarrow> (store_err, unit) result \<times> 's"
begin

text \<open>
  A message changes at most the two live-state fields of the router it names, and the outcome
  says whether it did.
\<close>

lemma handle_rows:
  assumes "good s" and "status_handle update subject data s = (out, s')"
  shows "good s'"
    and "rows s' = (case (uuidFromSubject subject, unmarshal status_fields status_zero data) of
        (Some u, Some st) \<Rightarrow> (case rows s u of None \<Rightarrow> rows s | Some r \<Rightarrow> (rows s)(u \<mapsto> set_status (derivedStateOf st) r))
      | _ \<Rightarrow> rows s)"
    and "out = (case (uuidFromSubject subject, unmarshal status_fields status_zero data) of
        (None, _) \<Rightarrow> BadSubject | (Some u, None) \<Rightarrow> BadPayload
      | (Some u, Some st) \<Rightarrow> if rows s u = None then RouterGone else Updated)"
proof -
  have "good s' \<and> rows s' = (case (uuidFromSubject subject, unmarshal status_fields status_zero data) of
        (Some u, Some st) \<Rightarrow> (case rows s u of None \<Rightarrow> rows s | Some r \<Rightarrow> (rows s)(u \<mapsto> set_status (derivedStateOf st) r))
      | _ \<Rightarrow> rows s) \<and> out = (case (uuidFromSubject subject, unmarshal status_fields status_zero data) of
        (None, _) \<Rightarrow> BadSubject | (Some u, None) \<Rightarrow> BadPayload
      | (Some u, Some st) \<Rightarrow> if rows s u = None then RouterGone else Updated)"
  proof (cases "uuidFromSubject subject")
    case None
    with assms show ?thesis by (simp add: status_handle_def)
  next
    case u: (Some u)
    show ?thesis
    proof (cases "unmarshal status_fields status_zero data")
      case None
      with u assms show ?thesis by (simp add: status_handle_def)
    next
      case st: (Some st)
      obtain r t where step: "update (derivedStateOf st) u s = (r, t)" by fastforce
      with u st assms update_sim [OF assms(1) step] show ?thesis
        by (cases r; cases "rows s u") (auto simp: status_handle_def spec_update_def split: if_splits)
    qed
  qed
  then show "good s'"
    and "rows s' = (case (uuidFromSubject subject, unmarshal status_fields status_zero data) of
        (Some u, Some st) \<Rightarrow> (case rows s u of None \<Rightarrow> rows s | Some r \<Rightarrow> (rows s)(u \<mapsto> set_status (derivedStateOf st) r))
      | _ \<Rightarrow> rows s)"
    and "out = (case (uuidFromSubject subject, unmarshal status_fields status_zero data) of
        (None, _) \<Rightarrow> BadSubject | (Some u, None) \<Rightarrow> BadPayload
      | (Some u, Some st) \<Rightarrow> if rows s u = None then RouterGone else Updated)"
    by blast+
qed

end

interpretation mem_status: status_store rm_by_uuid router_mem_inv router_mem_create router_mem_delete
  router_mem_get router_bar_key router_mem_update_status
  by unfold_locales

interpretation etcd_status: status_store router_rows router_db_inv
  "\<lambda>r. exec kv_client (router_etcd_create r)" "\<lambda>u. exec kv_client (router_etcd_delete u)"
  "\<lambda>u. exec kv_client (router_etcd_get u)" router_pair "\<lambda>st u. exec kv_client (router_etcd_update_status st u)"
  by unfold_locales

section \<open>Properties\<close>

text \<open>
  The uuid is recovered from the subject a router VM publishes its status on, and only a
  single non-empty token is accepted in its place.
\<close>

theorem status_subject_roundtrip:
  "uuidFromSubject (''weft.router.'' @ u @ ''.status'') = (if u = [] \<or> CHR ''.'' \<in> set u then None else Some u)"
  by (rule uuidFromSubject_status)

text \<open>
  The status of a router: \<open>active\<close> exactly when a peer is established, \<open>down\<close> exactly when there
  are peers and none is established or negotiating (which includes the BGP state \<open>Active\<close>), and
  \<open>configuring\<close> otherwise; the order of the peers does not matter.
\<close>

theorem rollup_spec:
  "rollupStatus ps =
     (if ''Established'' \<in> ps_state ` set ps then ''active''
      else if ps \<noteq> [] \<and> ps_state ` set ps \<inter> {''OpenSent'', ''OpenConfirm'', ''Active''} = {} then ''down''
      else ''configuring'')"
proof -
  have est: "(\<exists>p \<in> set ps. ps_state p = x) \<longleftrightarrow> x \<in> ps_state ` set ps" for x by (auto simp: image_iff)
  have neg: "(\<exists>p \<in> set ps. ps_state p \<in> S) \<longleftrightarrow> ps_state ` set ps \<inter> S \<noteq> {}" for S by blast
  show ?thesis unfolding rollupStatus_def peer_flags_spec est neg by simp
qed

text \<open>
  C35. A status message, on memory: a subject or a payload that cannot be read changes nothing, a
  router that does not exist is not created, and otherwise exactly the status and the peer
  state of the router in the subject become what is derived from the peers of the message.
\<close>

theorem status_message_effect:
  assumes "router_mem_inv s" and "status_handle router_mem_update_status subject data s = (out, s')"
  shows "router_mem_inv s' \<and>
    rm_by_uuid s' = (case (uuidFromSubject subject, unmarshal status_fields status_zero data) of
        (Some u, Some st) \<Rightarrow> (case rm_by_uuid s u of None \<Rightarrow> rm_by_uuid s
          | Some r \<Rightarrow> (rm_by_uuid s)(u \<mapsto> r\<lparr>router_status := rollupStatus (rs_peers st), router_peer_state := formatPeerState st\<rparr>))
      | _ \<Rightarrow> rm_by_uuid s)"
  using mem_status.handle_rows [OF assms] by (simp add: set_status_def derivedStateOf_def split: option.splits)

theorem status_message_effect_witness:
  "rm_by_uuid (snd (status_handle router_mem_update_status ''weft.router.u1.status''
     (Doc (JObj [(''Peers'', JArr [JObj [(''State'', JStr ''Established'')]])]))
     (snd (router_mem_create (router_zero\<lparr>router_uuid := ''u1''\<rparr>) router_mem_new)))) ''u1'' =
   Some (router_zero\<lparr>router_uuid := ''u1'', router_status := ''active'', router_peer_state := '':Established ; routes=0''\<rparr>)"
proof -
  let ?s = "snd (router_mem_create (router_zero\<lparr>router_uuid := ''u1''\<rparr>) router_mem_new)"
  have inv: "router_mem_inv ?s"
    using router_mem.create_sim [OF router_mem_new_inv _ prod.collapse [symmetric], of "router_zero\<lparr>router_uuid := ''u1''\<rparr>"]
    by (simp add: router_mem_new_def)
  have row: "rm_by_uuid ?s ''u1'' = Some (router_zero\<lparr>router_uuid := ''u1''\<rparr>)"
    by (simp add: router_mem_create_def router_mem_new_def Let_def)
  have subj: "uuidFromSubject ''weft.router.u1.status'' = Some ''u1''"
    using uuidFromSubject_status [of "''u1''"] by simp
  have dec: "unmarshal status_fields status_zero (Doc (JObj [(''Peers'', JArr [JObj [(''State'', JStr ''Established'')]])])) =
      Some (status_zero\<lparr>rs_peers := [peer_zero\<lparr>ps_state := ''Established''\<rparr>]\<rparr>)"
    by (simp add: status_fields_def status_zero_def peer_fields_def peer_zero_def find_field_def set_peers_def set_str_def)
  from status_message_effect [OF inv prod.collapse [symmetric], of "''weft.router.u1.status''"] row subj dec
  show ?thesis
    by (simp add: rollupStatus_def formatPeerState_def status_zero_def peer_zero_def show_int_def dec_digits.simps
        digit_char_def char_of_def bit_0)
qed

text \<open>
  A three-token subject is accepted: the prefix and the suffix may overlap, so
  \<open>weft.router.status\<close> is read as a message of the router \<open>status\<close>.
\<close>

theorem status_subject_overlap:
  "uuidFromSubject ''weft.router.status'' = Some ''status''"
  by (simp add: uuidFromSubject_def has_prefix_def has_suffix_def trim_prefix_def trim_suffix_def)

end
