(* ===== verification/Service.thy ===== *)
theory Service
  imports Network_Spec Status_Receiver
begin

text \<open>
  The service as it runs: RPCs of its clients and status messages of the router VMs, in any order, on
  one set of stores. The status receiver writes through the very store the server reads
  (\<^verbatim>\<open>Server.RouterStore\<close>). A network refines the abstract network under both kinds of events.
\<close>

section \<open>Events\<close>

datatype event = Call request | StatusMsg string etcd_value

datatype outcome = Replied "(grpc_status, response) result" | Handled status_outcome

text \<open>The handler of the subscription, wired to the store of the server.\<close>

definition on_status :: "('d, 'w) Server \<Rightarrow> string \<Rightarrow> etcd_value \<Rightarrow> 'd \<Rightarrow> status_outcome \<times> 'd" where
  "on_status sv = status_handle (snd (RouterStore sv))"

fun service_step :: "('d, 'w) Server \<Rightarrow> event \<Rightarrow> 'd \<times> 'w \<Rightarrow> outcome \<times> 'd \<times> 'w" where
  "service_step sv (Call q) s = apfst Replied (serve sv q s)"
| "service_step sv (StatusMsg subject data) (d, w) = (let (res, d') = on_status sv subject data d in (Handled res, d', w))"

fun admits_events :: "(net, 'w) Server \<Rightarrow> event list \<Rightarrow> net \<times> 'w \<Rightarrow> bool" where
  "admits_events sv [] s \<longleftrightarrow> True"
| "admits_events sv (e # es) s \<longleftrightarrow>
     (case e of Call q \<Rightarrow> admits q (fst s) | StatusMsg _ _ \<Rightarrow> True) \<and> admits_events sv es (snd (service_step sv e s))"

definition same_outcome :: "outcome \<Rightarrow> outcome \<Rightarrow> bool" where
  "same_outcome a b \<longleftrightarrow> a = b \<or> (\<exists>r s. a = Replied r \<and> b = Replied s \<and> same_reply r s)"

lemma same_outcome_trans: "same_outcome x z \<Longrightarrow> same_outcome y z \<Longrightarrow> same_outcome x y"
proof -
  have iff: "same_outcome a b \<longleftrightarrow> (case (a, b) of (Replied r, Replied s) \<Rightarrow> same_reply r s | _ \<Rightarrow> a = b)" for a b
    by (cases a; cases b) (auto simp: same_outcome_def)
  assume "same_outcome x z" and "same_outcome y z"
  then show ?thesis
    unfolding iff by (cases x; cases y; cases z) (simp_all, erule (1) same_reply_eq_trans)
qed

section \<open>Refinement\<close>

lemma status_handle_sim:
  assumes "good d" and "\<And>x u. sim absn good (update x u) (update' x u) d"
  shows "sim absn good (status_handle update subject data) (status_handle update' subject data) d"
proof (cases "uuidFromSubject subject"; cases "unmarshal status_fields status_zero data")
  fix u m
  assume dec: "uuidFromSubject subject = Some u" "unmarshal status_fields status_zero data = Some m"
  have "sim absn good (update (derivedStateOf m) u) (update' (derivedStateOf m) u) d" by (rule assms(2))
  with dec show ?thesis
    by (cases "update (derivedStateOf m) u d"; cases "fst (update (derivedStateOf m) u d)") (auto simp: status_handle_def sim_def)
qed (use assms(1) in \<open>simp_all add: status_handle_def sim_def\<close>)

context network
begin

lemma event_sim:
  assumes "good d" and "srv_stores sv = st" and "orders_ok o'"
    and "case e of Call q \<Rightarrow> admits q (absn d) | StatusMsg _ _ \<Rightarrow> True"
    and step: "service_step sv e (d, w) = (r, d', w')"
  shows "\<exists>r'. service_step (net_server o' sv) e (absn d, w) = (r', absn d', w') \<and> same_outcome r r' \<and> good d'"
proof (cases e)
  case (Call q)
  with step obtain x where x: "serve sv q (d, w) = (x, d', w')" "r = Replied x"
    by (cases "serve sv q (d, w)") auto
  from Call assms(4) have "admits q (absn d)" by simp
  from serve_sim [OF assms(1-3) this x(1)] obtain x' where
    "serve (net_server o' sv) q (absn d, w) = (x', absn d', w')" "same_reply x x'" "good d'"
    by (elim exE conjE)
  with Call x(2) show ?thesis by (auto simp: same_outcome_def)
next
  case (StatusMsg subject data)
  have "sim absn good (on_status sv subject data) (on_status (net_server o' sv) subject data) d"
    unfolding on_status_def RouterStore_def snd_conv assms(2) net_server_sels net_ops
    by (rule status_handle_sim, rule assms(1), rule update_status, rule assms(1))
  with StatusMsg step show ?thesis
    by (cases "on_status sv subject data d") (auto simp: sim_def same_outcome_def)
qed

lemma events_sim:
  "good d \<Longrightarrow> srv_stores sv = st \<Longrightarrow> orders_ok o' \<Longrightarrow> admits_events (net_server o' sv) es (absn d, w) \<Longrightarrow>
   run_calls (service_step sv) es (d, w) = (rs, d', w') \<Longrightarrow>
   \<exists>rs'. run_calls (service_step (net_server o' sv)) es (absn d, w) = (rs', absn d', w') \<and>
     list_all2 same_outcome rs rs' \<and> good d'"
proof (induction es arbitrary: d w rs)
  case Nil
  then show ?case by simp
next
  case (Cons e es)
  obtain r d1 w1 where step: "service_step sv e (d, w) = (r, d1, w1)" by (rule prod_cases3)
  from Cons.prems(4) have adm: "case e of Call q \<Rightarrow> admits q (absn d) | StatusMsg _ _ \<Rightarrow> True"
    by (cases e) simp_all
  obtain r' where r': "service_step (net_server o' sv) e (absn d, w) = (r', absn d1, w1)" "same_outcome r r'" and good: "good d1"
    using event_sim [OF Cons.prems(1-3) adm step] by blast
  obtain rest where rest: "run_calls (service_step sv) es (d1, w1) = (rest, d', w')" "rs = r # rest"
    using Cons.prems(5) step by (cases "run_calls (service_step sv) es (d1, w1)") auto
  from Cons.prems(4) r'(1) have "admits_events (net_server o' sv) es (absn d1, w1)" by simp
  from Cons.IH [OF good Cons.prems(2,3) this rest(1)] r' rest(2) show ?case by auto
qed

end

end
