(* ===== verification/Server_Properties.thy ===== *)
theory Server_Properties
  imports Server_Dispatch Lifecycle_Properties
begin

text \<open>
  The properties of the gRPC server. They hold for every set of stores that meets the contract of
  \<open>Store_Contract\<close> or \<open>DNS_Store\<close>, hence for memory and for etcd, and for every publisher and lifecycle.
\<close>

section \<open>Lemmas\<close>

text \<open>The handlers over a row store.\<close>

abbreviation router_contract :: "('d \<Rightarrow> string \<rightharpoonup> Router) \<Rightarrow> ('d \<Rightarrow> bool) \<Rightarrow> ('d, 'w) Server \<Rightarrow> (Router \<Rightarrow> 'k) \<Rightarrow> bool" where
  "router_contract rows good sv pkey \<equiv> row_store rows good (rb_create (st_routers (srv_stores sv)))
     (rb_delete (st_routers (srv_stores sv))) (rb_get (st_routers (srv_stores sv))) router_uuid pkey"

lemma create_router_run:
  assumes "router_contract rows good sv pkey" and "good d" and "rows d (newUUID b) = None"
    and "router_of_request b now q = Inr r" and "CreateRouter sv b now q (d, w) = (res, d', w')"
  shows "good d' \<and> (if \<exists>x \<in> ran (rows d). pkey x = pkey r
    then res = Inl (create_status ''router'' (trim_space (cro_name q)) (cro_project q) ErrAlreadyExists) \<and> rows d' = rows d \<and> w' = w
    else res = Inr (router_to_proto r) \<and> rows d' = (rows d)(newUUID b \<mapsto> r) \<and> w' = push_router sv r w)"
proof -
  obtain out e where step: "rb_create (st_routers (srv_stores sv)) r d = (out, e)" by fastforce
  note uuid = router_of_request_ok(1) [OF assms(4)]
  have "spec_create router_uuid pkey r (rows d) = (out, rows e) \<and> good e"
    using row_store.create_sim [OF assms(1,2) _ step] assms(3) uuid by simp
  then show ?thesis
    using assms(4,5) step uuid by (auto simp: CreateRouter_def spec_create_def split: if_splits sum.splits)
qed

lemma delete_router_run:
  assumes "router_contract rows good sv pkey" and "good d" and "trim_space u = u" and "u \<noteq> []"
    and "DeleteRouter sv u (d, w) = (res, d', w')"
  shows "good d' \<and> (case rows d u of
      None \<Rightarrow> res = Inl (Status NotFound ''router %q not found'' [AStr u]) \<and> rows d' = rows d \<and> w' = w
    | Some _ \<Rightarrow> res = Inr () \<and> rows d' = (rows d)(u := None) \<and>
        w' = snd (lc_destroy (srv_lifecycle sv) u (snd (pub_withdraw (srv_publisher sv) u w))))"
proof -
  obtain out e where step: "rb_delete (st_routers (srv_stores sv)) u d = (out, e)" by fastforce
  have sim: "spec_delete u (rows d) = (out, rows e) \<and> good e" by (rule row_store.delete_sim [OF assms(1,2) step])
  show ?thesis
  proof (cases "rows d u")
    case None
    with sim have "out = Inl ErrNotFound" "rows e = rows d" by (simp_all add: spec_delete_def)
    moreover from this step assms(3,4) have "delete_handler ''router'' (rb_delete (st_routers (srv_stores sv))) u d =
        (Inl (Status NotFound ''router %q not found'' [AStr u]), e)" by (simp add: delete_handler_def)
    ultimately show ?thesis using None sim assms(5) by (simp add: DeleteRouter_def)
  next
    case (Some r)
    with sim have "out = Inr ()" "rows e = (rows d)(u := None)" by (simp_all add: spec_delete_def)
    moreover from this step assms(3,4) have "delete_handler ''router'' (rb_delete (st_routers (srv_stores sv))) u d =
        (Inr (), e)" by (simp add: delete_handler_def)
    ultimately show ?thesis using Some sim assms(3,5) by (simp add: DeleteRouter_def Let_def split_beta)
  qed
qed

text \<open>The stores of the model meet the contract.\<close>

lemma on_part_step:
  "on_part get put f w = (r, w') \<longleftrightarrow> (\<exists>a. f (get w) = (r, a) \<and> w' = put a w)"
  by (auto simp: on_part_def Let_def split: prod.splits)

lemma lift_row_store_part:
  assumes "row_store rows good c de g uid pkey" and "\<And>a w. get (put a w) = a"
  shows "row_store (\<lambda>w. rows (get w)) (\<lambda>w. good (get w)) (\<lambda>v. on_part get put (c v)) (\<lambda>u. on_part get put (de u))
    (\<lambda>u. on_part get put (g u)) uid pkey"
proof (rule row_store.intro, goal_cases)
  case (1 w)
  then show ?case by (rule row_store.inv_keyed [OF assms(1)])
next
  case (2 w)
  then show ?case by (rule row_store.inv_unique [OF assms(1)])
next
  case (3 w v r w')
  then show ?case using row_store.create_sim [OF assms(1)] assms(2) by (auto simp: on_part_step)
next
  case (4 w u r w')
  then show ?case using row_store.delete_sim [OF assms(1)] assms(2) by (auto simp: on_part_step)
next
  case (5 w u r w')
  then show ?case using row_store.fetch_sim [OF assms(1)] assms(2) by (fastforce simp: on_part_step)
qed

lemma mem_router_contract:
  "srv_stores sv = mem_stores ord \<Longrightarrow>
   router_contract (\<lambda>w. rm_by_uuid (mw_routers w)) (\<lambda>w. router_mem_inv (mw_routers w)) sv router_bar_key"
  using lift_row_store_part [OF router_mem.row_store_axioms, of mw_routers "\<lambda>a. mw_routers_update (\<lambda>_. a)"]
  by (simp add: mem_stores_def)

lemma etcd_router_contract:
  "srv_stores sv = etcd_stores kv_client \<Longrightarrow> router_contract router_rows router_db_inv sv router_pair"
  using router_etcd.row_store_axioms by (simp add: etcd_stores_def)

text \<open>Every handler but those of \<open>CreateRouter\<close> and \<open>DeleteRouter\<close> looks at the stores only.\<close>

lemma same_stores:
  assumes "srv_stores sv' = srv_stores sv"
  shows "ListSchedulingRules sv' = ListSchedulingRules sv" "CreateSchedulingRule sv' = CreateSchedulingRule sv"
    "DeleteSchedulingRule sv' = DeleteSchedulingRule sv" "ListDNSZones sv' = ListDNSZones sv"
    "CreateDNSZone sv' = CreateDNSZone sv" "DeleteDNSZone sv' = DeleteDNSZone sv"
    "ListDNSRecords sv' = ListDNSRecords sv" "CreateDNSRecord sv' = CreateDNSRecord sv"
    "DeleteDNSRecord sv' = DeleteDNSRecord sv" "ListRouters sv' = ListRouters sv"
    "ListLoadBalancers sv' = ListLoadBalancers sv" "CreateLoadBalancer sv' = CreateLoadBalancer sv"
    "DeleteLoadBalancer sv' = DeleteLoadBalancer sv" "SetLoadBalancerBackends sv' = SetLoadBalancerBackends sv"
  unfolding fun_eq_iff ListSchedulingRules_def CreateSchedulingRule_def DeleteSchedulingRule_def
    ListDNSZones_def CreateDNSZone_def DeleteDNSZone_def ListDNSRecords_def CreateDNSRecord_def record_ttl_def
    DeleteDNSRecord_def ListRouters_def ListLoadBalancers_def CreateLoadBalancer_def DeleteLoadBalancer_def
    SetLoadBalancerBackends_def assms
  by (intro allI refl)+

text \<open>A small count survives the 32-bit field.\<close>

lemma small_count_narrow:
  assumes "1 \<le> sint (w :: i64)" and "sint w \<le> 10"
  shows "sint (ucast w :: i32) = sint w"
proof -
  have "sint w = 1 \<or> sint w = 2 \<or> sint w = 3 \<or> sint w = 4 \<or> sint w = 5 \<or> sint w = 6 \<or> sint w = 7 \<or>
      sint w = 8 \<or> sint w = 9 \<or> sint w = 10" using assms by presburger
  moreover have "w = of_int (sint w)" by simp
  ultimately have "w \<in> {1, 2, 3, 4, 5, 6, 7, 8, 9, 10}" by (elim disjE) simp_all
  then show ?thesis by auto
qed

lemma lift_dns_store:
  assumes "dns_store rows good be fits pkey" and "\<And>a w. get (upd (\<lambda>_. a) w) = a"
  shows "dns_store (\<lambda>w. rows (get w)) (\<lambda>w. good (get w)) (lift_dns upd get be) fits pkey"
proof (rule dns_store.intro, goal_cases)
  case (1 w)
  then show ?case by (rule dns_store.good_ok [OF assms(1)])
next
  case (2 w c r w')
  have "dns_dispatch (lift_dns upd get be) c w = on_part get (\<lambda>a. upd (\<lambda>_. a)) (dns_dispatch be c) w"
    by (cases c) (auto simp: dns_dispatch_def lift_dns_def on_part_def Let_def split_beta)
  with 2 obtain a where "dns_dispatch be c (get w) = (r, a)" "w' = upd (\<lambda>_. a) w" by (auto simp: on_part_step)
  with dns_store.dispatch_sim [OF assms(1) 2(1,2), of r a] assms(2) show ?case by simp
qed

lemma mem_dns_contract:
  "srv_stores sv = mem_stores ord \<Longrightarrow>
   dns_store (\<lambda>w. dns_mem_rows (mw_dns w)) (\<lambda>w. dns_mem_inv (mw_dns w)) (st_dns (srv_stores sv)) (\<lambda>_. True) zone_bar_key"
  using lift_dns_store [OF dns_mem.dns_store_axioms, of mw_dns mw_dns_update] by (simp add: mem_stores_def)

section \<open>Examples\<close>

text \<open>A server on memory with the set-based agent, and one whose agent cannot delete.\<close>

definition stuck_agent :: "(string \<times> string) set agentClient" where
  "stuck_agent = set_agent\<lparr>DeleteVM := (\<lambda>q s. (Inl (Unavailable, ''connection refused''), s))\<rparr>"

definition no_orders :: mem_orders where
  "no_orders = \<lparr>ord_rules = (\<lambda>_. []), ord_zones = (\<lambda>_. []), ord_records = (\<lambda>_. []), ord_routers = (\<lambda>_. []), ord_lbs = (\<lambda>_. [])\<rparr>"

definition demo_server :: "(string \<times> string) set agentClient \<Rightarrow> (mem_world, (string \<times> string) set) Server" where
  "demo_server ag = New (mem_stores no_orders) id (\<lambda>_. Inl ''none'')
     \<lparr>opt_etcd_url = [], opt_stores = None, opt_publisher = None,
      opt_lifecycle = Some (weft_lifecycle (newWeftClientWithStub ''img'' [] ag))\<rparr>"

lemma demo_server_sels [simp]:
  "srv_stores (demo_server ag) = mem_stores no_orders" "srv_publisher (demo_server ag) = noop_publisher"
  "srv_lifecycle (demo_server ag) = weft_lifecycle (newWeftClientWithStub ''img'' [] ag)"
  by (simp_all add: demo_server_def New_def)

definition demo_request :: CreateRouterRequest where
  "demo_request = \<lparr>cro_name = ''edge'', cro_kind = ''egress'', cro_backend = [], cro_networks = [''n1''],
     cro_external = ''198.51.100.1'', cro_prefixes = [], cro_replicas = 2, cro_project = ''acme''\<rparr>"

definition demo_row :: "8 word list \<Rightarrow> i64 \<Rightarrow> Router" where
  "demo_row b now = \<lparr>router_uuid = newUUID b, router_name = ''edge'', router_kind = ''egress'', router_backend = ''gobgp'',
     router_networks = [''n1''], router_external = ''198.51.100.1'', router_prefixes = [], router_replicas = 2,
     router_peer_state = [], router_project = ''acme'', router_status = ''configuring'', router_created = now\<rparr>"

lemma trim_words [simp]:
  "trim_space ''edge'' = ''edge''" "trim_space ''egress'' = ''egress''" "trim_space ''198.51.100.1'' = ''198.51.100.1''"
  "trim_space ''ab'' = ''ab''" "trim_space ''peer'' = ''peer''" "trim_space ''gobgp'' = ''gobgp''" "trim_space ''web'' = ''web''"
  by (rule trim_space_plain, simp)+

lemma demo_request_ok: "router_of_request b now demo_request = Inr (demo_row b now)"
  by (simp add: router_of_request_def demo_request_def demo_row_def Let_def validRouterKinds_def validRouterBackends_def
      router_backend_default_def)

section \<open>Properties\<close>

text \<open>
  C14. A request that fails has no effect outside: whichever of the sixteen RPCs it is, nothing is
  published, withdrawn, started or destroyed; and a request refused as an invalid argument changes
  no store either.
\<close>

theorem failed_requests_have_no_effect:
  assumes "serve sv q (d, w) = (Inl st, d', w')"
  shows "w' = w \<and> (st_code st = InvalidArgument \<longrightarrow> d' = d)"
  by (rule serve_refused [OF assms])

theorem failed_requests_have_no_effect_witness:
  "snd (serve (demo_server set_agent) (RqCreateRouter [] 0 (demo_request\<lparr>cro_kind := ''web''\<rparr>)) (mem_new, {})) = (mem_new, {})"
proof -
  have "serve (demo_server set_agent) (RqCreateRouter [] 0 (demo_request\<lparr>cro_kind := ''web''\<rparr>)) (mem_new, {}) =
      (Inl (invalid ''kind %q must be peer or egress'' [AStr ''web'']), mem_new, {})"
    by (simp add: CreateRouter_def router_of_request_def demo_request_def validRouterKinds_def)
  with failed_requests_have_no_effect [OF this] show ?thesis by simp
qed


text \<open>
  C21. \<open>CreateRouter\<close>, over every store that meets the contract: an invalid request changes nothing; a
  (project, name) that is taken is refused and nothing is pushed; otherwise exactly the validated
  row is added under the new uuid, the answer is its wire form, and that row is published and
  its micro-VMs ensured.
\<close>

theorem create_router_spec:
  assumes "router_contract rows good sv pkey" and "good d" and "rows d (newUUID b) = None"
    and "CreateRouter sv b now q (d, w) = (res, d', w')"
  shows "case router_of_request b now q of
      Inl st \<Rightarrow> res = Inl st \<and> d' = d \<and> w' = w
    | Inr r \<Rightarrow> good d' \<and>
        (if \<exists>x \<in> ran (rows d). pkey x = pkey r
         then res = Inl (create_status ''router'' (trim_space (cro_name q)) (cro_project q) ErrAlreadyExists) \<and>
           rows d' = rows d \<and> w' = w
         else res = Inr (router_to_proto r) \<and> rows d' = (rows d)(newUUID b \<mapsto> r) \<and> w' = push_router sv r w)"
proof (cases "router_of_request b now q")
  case (Inl st)
  with assms(4) show ?thesis by (simp add: CreateRouter_def)
next
  case (Inr r)
  from create_router_run [OF assms(1-3) Inr assms(4)] Inr show ?thesis by simp
qed

theorem create_router_spec_witness:
  "rm_by_uuid (mw_routers (fst (snd (CreateRouter (demo_server set_agent) [1] 7 demo_request (mem_new, {}))))) =
   [newUUID [1] \<mapsto> demo_row [1] 7]"
proof -
  have "router_mem_inv (mw_routers mem_new)" "rm_by_uuid (mw_routers mem_new) = Map.empty"
    by (simp_all add: mem_new_def) (simp add: router_mem_new_def)
  with create_router_spec [OF mem_router_contract [OF demo_server_sels(1)] _ _ triple_eq, of mem_new "[1]" set_agent 7 demo_request "{}"]
  show ?thesis by (simp add: demo_request_ok)
qed




lemma newUUID_1: "newUUID [1] = ''01''"
  by (simp add: newUUID_def hex_encode_def hex_digit_def char_of_def bit_0)

lemma demo_world: "router_mem_inv (mw_routers mem_new)" "rm_by_uuid (mw_routers mem_new) = Map.empty"
  by (simp_all add: mem_new_def) (simp add: router_mem_new_def)


definition leak_world :: mem_world where
  "leak_world = mem_new\<lparr>mw_routers := snd (router_mem_create (router_zero\<lparr>router_uuid := ''ab''\<rparr>) router_mem_new)\<rparr>"


text \<open>
  A DNS record is only accepted into a zone that exists, and then, over every store that meets the
  contract, the stored record has the new uuid, the name of its zone, one of the seven types, the
  source \<open>static\<close>, and a positive TTL: the one of the request, else the zone's default, else 300.
\<close>

theorem accepted_record_wellformed:
  assumes "dns_store rows good (st_dns (srv_stores sv)) fits pkey" and "good d"
    and "snd (rows d) (newUUID b) = None" and "CreateDNSRecord sv b q d = (Inr info, d')"
  shows "\<exists>z. fst (rows d) (trim_space (crr_zone q)) = Some z \<and> rci_zone info = zone_name z \<and>
    rci_uuid info = newUUID b \<and> rci_type info \<in> set validRecordTypes \<and> rci_source info = ''static'' \<and>
    rci_ttl info = (if 0 < sint (crr_ttl q) then crr_ttl q else if 0 < sint (zone_ttl z) then zone_ttl z else 300) \<and>
    0 < sint (rci_ttl info)"
proof -
  let ?be = "st_dns (srv_stores sv)" and ?zu = "trim_space (crr_zone q)"
  note sim = dns_store.dispatch_sim [OF assms(1)]
  obtain ttl d1 where t: "record_ttl sv ?zu (crr_ttl q) d = (ttl, d1)" by fastforce
  obtain got dz where g: "op_get_zone ?be ?zu d = (got, dz)" by fastforce
  have "dns_admits fits (GetZone ?zu) (rows d)" by (cases "rows d") (simp add: dns_admits_def)
  from sim [OF assms(2) this, of "ZoneReply got" dz] g
  have gz: "got = spec_get ?zu (fst (rows d))" "rows dz = rows d" "good dz"
    by (auto simp: dns_dispatch_def dns_spec_call_def)
  have d1: "rows d1 = rows d" "good d1" using t g gz assms(2) by (auto simp: record_ttl_def Let_def split: if_splits)
  define r where "r = \<lparr>rec_uuid = newUUID b, rec_zone = ?zu, rec_zone_name = [], rec_name = trim_space (crr_name q),
    rec_type = to_upper (trim_space (crr_type q)), rec_value = crr_value q, rec_ttl = ttl, rec_source = ''static''\<rparr>"
  obtain out e where c: "op_create_record ?be r d1 = (out, e)" by fastforce
  have ty: "to_upper (trim_space (crr_type q)) \<in> set validRecordTypes" and out: "\<exists>saved. out = Inr saved \<and> info = rec_to_proto saved"
    using assms(4) t c unfolding CreateDNSRecord_def Let_def r_def by (auto split: if_splits sum.splits prod.splits)
  have "dns_admits fits (CreateRecord r) (rows d1)" using assms(3) d1(1) by (cases "rows d") (simp add: dns_admits_def r_def)
  from sim [OF d1(2) this, of "RecordReply out" e] c d1(1)
  have "dns_spec_create_record r (rows d) = (out, rows e)" by (simp add: dns_dispatch_def dns_spec_call_def prod_eq_iff)
  with out obtain z where z: "fst (rows d) ?zu = Some z" and info: "info = rec_to_proto (r\<lparr>rec_zone_name := zone_name z\<rparr>)"
    by (cases "rows d") (auto simp: dns_spec_create_record_def Let_def r_def split: option.splits)
  have "ttl = (if 0 < sint (crr_ttl q) then crr_ttl q else if 0 < sint (zone_ttl z) then zone_ttl z else 300)"
    using t g gz(1) z by (auto simp: record_ttl_def spec_get_def Let_def split: if_splits)
  with z ty info show ?thesis by (simp add: rec_to_proto_def r_def)
qed

definition zone_world :: mem_world where
  "zone_world = mem_new\<lparr>mw_dns := snd (dns_mem_create_zone (zone_zero\<lparr>zone_uuid := ''ab'', zone_name := ''web''\<rparr>) dns_mem_new)\<rparr>"

definition record_request :: CreateDNSRecordRequest where
  "record_request = \<lparr>crr_zone = ''ab'', crr_type = ''A'', crr_name = ''web'', crr_value = ''web'', crr_ttl = 0\<rparr>"

theorem accepted_record_wellformed_witness:
  "\<exists>info d'. CreateDNSRecord (demo_server set_agent) [1] record_request zone_world = (Inr info, d') \<and> rci_ttl info = 300 \<and>
     rci_zone info = ''web''"
proof -
  let ?z = "zone_zero\<lparr>zone_uuid := ''ab'', zone_name := ''web''\<rparr>"
  obtain info d' where run: "CreateDNSRecord (demo_server set_agent) [1] record_request zone_world = (Inr info, d')"
  proof -
    have "trim_space ''A'' = ''A''" by (rule trim_space_plain) simp
    moreover have "to_upper ''A'' = ''A''" by (simp add: upper_char_def)
    ultimately show ?thesis using that
      by (simp add: CreateDNSRecord_def record_request_def validRecordTypes_def record_ttl_def zone_world_def mem_stores_def
          lift_dns_def on_part_def dns_memory_def dns_mem_get_zone_def dns_mem_create_zone_def dns_mem_create_record_def
          dns_mem_new_def mem_new_def Let_def zone_zero_def)
  qed
  have "dns_mem_inv (snd (dns_mem_create_zone ?z dns_mem_new))"
  proof -
    obtain r s where c: "dns_mem_create_zone ?z dns_mem_new = (r, s)" by fastforce
    have "dns_mem_inv dns_mem_new" by simp
    moreover have "dns_admits (\<lambda>_. True) (CreateZone ?z) (dns_mem_rows dns_mem_new)"
      by (simp add: dns_admits_def dns_mem_rows_def dns_mem_new_def zone_zero_def)
    ultimately show ?thesis
      using dns_mem.dispatch_sim [of dns_mem_new "CreateZone ?z" "ZoneReply r" s] c
      by (simp add: dns_dispatch_def dns_memory_def)
  qed
  then have inv: "dns_mem_inv (mw_dns zone_world)" by (simp add: zone_world_def)
  have rows: "snd (dns_mem_rows (mw_dns zone_world)) u = None" "fst (dns_mem_rows (mw_dns zone_world)) = [''ab'' \<mapsto> ?z]" for u
    by (simp_all add: zone_world_def dns_mem_rows_def dns_mem_create_zone_def dns_mem_new_def Let_def zone_zero_def mem_new_def)
  from accepted_record_wellformed [OF mem_dns_contract [OF demo_server_sels(1)] inv rows(1) run] rows(2)
  have "rci_ttl info = 300 \<and> rci_zone info = ''web''"
    by (auto simp: record_request_def zone_zero_def)
  with run show ?thesis by blast
qed

text \<open>
  A peer router is accepted with a backend that is not WireGuard, and is then a router no micro-VM
  and no message is ever made for.
\<close>

theorem peer_router_accepts_gobgp:
  "map_sum (\<lambda>_. ()) router_backend (router_of_request [1] 7 (demo_request\<lparr>cro_kind := ''peer'', cro_backend := ''gobgp''\<rparr>)) = Inr ''gobgp''"
  by (simp add: router_of_request_def demo_request_def Let_def validRouterKinds_def validRouterBackends_def
      router_backend_default_def)

end
