(* ===== verification/Network_Memory.thy ===== *)
theory Network_Memory
  imports Service Server_Properties
begin

text \<open>
  The in-memory stores of the server are a network: four objects that do not touch each other. The
  joined keys of their indices tell the pairs (project, name) apart as long as no project has a bar.
\<close>

section \<open>The abstract operations keep the tables\<close>

text \<open>A table in good shape whose projects are plain.\<close>

definition rows_good :: "('v \<Rightarrow> string) \<Rightarrow> ('v \<Rightarrow> string) \<Rightarrow> (string \<rightharpoonup> 'v) \<Rightarrow> bool" where
  "rows_good uid prj m \<longleftrightarrow> table_ok uid m \<and> (\<forall>v \<in> ran m. plain (prj v))"

lemma table_ok_upd: "table_ok uid m \<Longrightarrow> uid v = u \<Longrightarrow> table_ok uid (m(u \<mapsto> v))"
  by (auto simp: table_ok_def)

lemma table_ok_del: "table_ok uid m \<Longrightarrow> table_ok uid (m(u := None))"
  by (auto simp: table_ok_def)

lemma table_ok_restrict: "table_ok uid m \<Longrightarrow> table_ok uid (m |` A)"
  by (simp add: table_ok_def) (auto simp: rows_keyed_def restrict_map_def split: if_splits)

lemma rows_good_empty [simp]: "rows_good uid prj Map.empty"
  by (simp add: rows_good_def table_ok_def rows_keyed_def)

lemma rows_good_upd: "rows_good uid prj m \<Longrightarrow> uid v = u \<Longrightarrow> plain (prj v) \<Longrightarrow> rows_good uid prj (m(u \<mapsto> v))"
  by (auto simp: rows_good_def table_ok_upd ran_def)

lemma rows_good_del: "rows_good uid prj m \<Longrightarrow> rows_good uid prj (m(u := None))"
  using ran_del_sub [of m u] by (auto simp: rows_good_def table_ok_del)

lemma rows_goodD: "rows_good uid prj m \<Longrightarrow> m u = Some v \<Longrightarrow> uid v = u \<and> plain (prj v)"
  by (auto simp: rows_good_def table_ok_def rows_keyed_def ran_def)

lemma spec_create_good:
  "rows_good uid prj m \<Longrightarrow> plain (prj v) \<Longrightarrow> spec_create uid pk v m = (r, m') \<Longrightarrow> rows_good uid prj m'"
  by (auto simp: spec_create_def intro: rows_good_upd split: if_splits)

lemma spec_delete_good: "rows_good uid prj m \<Longrightarrow> spec_delete u m = (r, m') \<Longrightarrow> rows_good uid prj m'"
  by (auto simp: spec_delete_def intro: rows_good_del split: option.splits)

lemma spec_update_good:
  "rows_good uid prj m \<Longrightarrow> (\<And>v. uid (f v) = uid v \<and> prj (f v) = prj v) \<Longrightarrow> spec_update f u m = (r, m') \<Longrightarrow> rows_good uid prj m'"
  by (auto simp: spec_update_def dest: rows_goodD intro!: rows_good_upd split: option.splits)

definition dns_good :: "dns_rows \<Rightarrow> bool" where
  "dns_good m \<longleftrightarrow> rows_good zone_uuid zone_project (fst m) \<and> table_ok rec_uuid (snd m)"

lemma dns_spec_good:
  assumes "dns_good m" and "dns_spec_call pk c m = (r, m')"
    and "list_all (\<lambda>z. plain (zone_project z)) (case c of CreateZone z \<Rightarrow> [z] | _ \<Rightarrow> [])"
  shows "dns_good m'"
proof -
  obtain Z R where m: "m = (Z, R)" by fastforce
  have Z: "rows_good zone_uuid zone_project Z" and R: "table_ok rec_uuid R" using assms(1) by (simp_all add: m dns_good_def)
  have count: "rows_good zone_uuid zone_project (Z(w \<mapsto> z\<lparr>zone_records := n\<rparr>))" if "Z w = Some z" for w z n
    using Z rows_goodD [OF Z that] by (intro rows_good_upd) simp_all
  show ?thesis
  proof (cases c)
    case (CreateZone z)
    then show ?thesis using assms(2,3) Z R
      by (auto simp: m dns_spec_call_def dns_spec_create_zone_def dns_good_def intro: rows_good_upd split: if_splits)
  next
    case (DeleteZone u)
    then show ?thesis using assms(2) Z R
      by (auto simp: m dns_spec_call_def dns_spec_delete_zone_def dns_good_def intro: rows_good_del table_ok_restrict
          split: option.splits)
  next
    case (CreateRecord q)
    then show ?thesis using assms(2) Z R count table_ok_upd [OF R, of "q\<lparr>rec_zone_name := n\<rparr>" for n]
      by (auto simp: m dns_spec_call_def dns_spec_create_record_def dns_good_def Let_def split: option.splits)
  next
    case (DeleteRecord u)
    then show ?thesis using assms(2) Z R count table_ok_del [OF R]
      by (auto simp: m dns_spec_call_def dns_spec_delete_record_def dns_good_def Let_def split: option.splits)
  qed (use assms(2) Z R in \<open>auto simp: m dns_spec_call_def dns_good_def\<close>)
qed

text \<open>On plain projects the joined key and the pair are the same specification.\<close>

lemma spec_create_bar:
  "rows_good uid prj m \<Longrightarrow> plain (prj v) \<Longrightarrow>
   spec_create uid (\<lambda>x. project_key (prj x) (nam x)) v m = spec_create uid (\<lambda>x. (prj x, nam x)) v m"
  by (simp add: spec_create_def rows_good_def project_key_plain)

lemma dns_spec_bar:
  assumes "dns_good m" and "list_all (\<lambda>z. plain (zone_project z)) (case c of CreateZone z \<Rightarrow> [z] | _ \<Rightarrow> [])"
  shows "dns_spec_call zone_bar_key c m = dns_spec_call zone_pair c m"
proof (cases c)
  case (CreateZone z)
  then show ?thesis
    using assms by (cases m) (simp add: dns_spec_call_def dns_spec_create_zone_def dns_good_def rows_good_def zoneKey_eq project_key_plain)
qed (simp_all add: dns_spec_call_def)

section \<open>The four objects\<close>

definition mem_net :: "mem_world \<Rightarrow> net" where
  "mem_net w = \<lparr>n_rules = sm_by_uuid (mw_rules w), n_dns = dns_mem_rows (mw_dns w),
     n_routers = rm_by_uuid (mw_routers w), n_lbs = lm_by_uuid (mw_lbs w)\<rparr>"

definition mem_orders_ok :: "mem_orders \<Rightarrow> bool" where
  "mem_orders_ok ord \<longleftrightarrow>
     (\<forall>s. finite (dom (sm_by_uuid s)) \<longrightarrow> enumerates (ord_rules ord s) (sm_by_uuid s)) \<and>
     (\<forall>s. finite (dom (dm_zones s)) \<longrightarrow> enumerates (ord_zones ord s) (dm_zones s)) \<and>
     (\<forall>s. finite (dom (dm_records s)) \<longrightarrow> enumerates (ord_records ord s) (dm_records s)) \<and>
     (\<forall>s. finite (dom (rm_by_uuid s)) \<longrightarrow> enumerates (ord_routers ord s) (rm_by_uuid s)) \<and>
     (\<forall>s. finite (dom (lm_by_uuid s)) \<longrightarrow> enumerates (ord_lbs ord s) (lm_by_uuid s))"

definition mem_good :: "mem_orders \<Rightarrow> mem_world \<Rightarrow> bool" where
  "mem_good ord w \<longleftrightarrow> mem_orders_ok ord \<and> sched_mem_inv (mw_rules w) \<and> dns_mem_inv (mw_dns w) \<and>
     router_mem_inv (mw_routers w) \<and> lb_mem_inv (mw_lbs w) \<and>
     rows_good rule_uuid rule_project (sm_by_uuid (mw_rules w)) \<and> dns_good (dns_mem_rows (mw_dns w)) \<and>
     rows_good router_uuid router_project (rm_by_uuid (mw_routers w)) \<and>
     rows_good lb_uuid lb_project (lm_by_uuid (mw_lbs w))"

lemma mem_net_sels [simp]:
  "n_rules (mem_net w) = sm_by_uuid (mw_rules w)" "n_dns (mem_net w) = dns_mem_rows (mw_dns w)"
  "n_routers (mem_net w) = rm_by_uuid (mw_routers w)" "n_lbs (mem_net w) = lm_by_uuid (mw_lbs w)"
  by (simp_all add: mem_net_def)

lemma mem_net_upd [simp]:
  "mem_net (mw_rules_update (\<lambda>_. a) w) = put_rules (sm_by_uuid a) (mem_net w)"
  "mem_net (mw_dns_update (\<lambda>_. b) w) = put_dns (dns_mem_rows b) (mem_net w)"
  "mem_net (mw_routers_update (\<lambda>_. c) w) = put_routers (rm_by_uuid c) (mem_net w)"
  "mem_net (mw_lbs_update (\<lambda>_. d) w) = put_lbs (lm_by_uuid d) (mem_net w)"
  by (simp_all add: mem_net_def)

text \<open>An operation on one object, against the abstract operation on one table.\<close>

lemma part_sim:
  assumes "f (get w) = (r, a)" and "g (sub (absn w)) = (r, m)" and "absn (put a w) = putn m (absn w)" and "good (put a w)"
  shows "sim absn good (on_part get put f) (on_part sub putn g) w"
  using assms by (simp add: sim_def on_part_def)

lemma mem_list:
  assumes "enumerates ks m" and "table_ok uid m"
  shows "distinct (sort_key f (filter (\<lambda>r. \<not> (p \<noteq> [] \<and> prj r \<noteq> p)) (range_vals ks m))) \<and>
    set (sort_key f (filter (\<lambda>r. \<not> (p \<noteq> [] \<and> prj r \<noteq> p)) (range_vals ks m))) = visible prj p m"
  using assms(1) distinct_range_vals [OF _ table_inj [OF assms(2)], of ks]
  by (auto simp: set_range_vals visible_def enumerates_def)

lemma mem_row_create:
  assumes "row_store rows ginv c de g uid (\<lambda>x. project_key (prj x) (nam x))" and "ginv s" and good: "rows_good uid prj (rows s)"
    and "rows s (uid v) = None" and plain: "plain (prj v)" and "c v s = (r, a)"
  shows "spec_create uid (\<lambda>x. (prj x, nam x)) v (rows s) = (r, rows a) \<and> ginv a \<and> rows_good uid prj (rows a)"
proof -
  have "spec_create uid (\<lambda>x. (prj x, nam x)) v (rows s) = (r, rows a) \<and> ginv a"
    using row_store.create_sim [OF assms(1,2,4,6)] spec_create_bar [OF good plain] by simp
  with spec_create_good [OF good plain] show ?thesis by blast
qed

lemma mem_row_delete:
  assumes "row_store rows ginv c de g uid pk" and "ginv s" and "rows_good uid prj (rows s)" and "de u s = (r, a)"
  shows "spec_delete u (rows s) = (r, rows a) \<and> ginv a \<and> rows_good uid prj (rows a)"
  using row_store.delete_sim [OF assms(1,2,4)] spec_delete_good [OF assms(3)] by blast

lemmas mem_rows = sched_mem.row_store_axioms [unfolded projectNameKey_eq]
  router_mem.row_store_axioms [unfolded router_name_key_eq] lb_mem.row_store_axioms [unfolded lb_name_key_eq]

lemma mem_dns_step:
  assumes "dns_mem_inv s" and "dns_good (dns_mem_rows s)" and "dns_admits (\<lambda>n. n < max_txn_ops) c (dns_mem_rows s)"
    and "list_all (\<lambda>z. plain (zone_project z)) (case c of CreateZone z \<Rightarrow> [z] | _ \<Rightarrow> [])"
    and "dns_dispatch dns_memory c s = (r, a)"
  shows "dns_spec_call zone_pair c (dns_mem_rows s) = (r, dns_mem_rows a) \<and> dns_mem_inv a \<and> dns_good (dns_mem_rows a)"
proof -
  have "dns_admits (\<lambda>_. True) c (dns_mem_rows s)"
    using assms(3) by (cases "dns_mem_rows s"; cases c) (auto simp: dns_admits_def)
  from dns_mem.dispatch_sim [OF assms(1) this assms(5)] dns_spec_bar [OF assms(2,4)]
  have "dns_spec_call zone_pair c (dns_mem_rows s) = (r, dns_mem_rows a) \<and> dns_mem_inv a" by simp
  with dns_spec_good [OF assms(2) _ assms(4)] show ?thesis by blast
qed

lemma mem_dns_dispatch:
  "dns_dispatch (st_dns (mem_stores ord)) c = on_dns (dns_dispatch dns_memory c)"
  by (rule ext) (cases c; simp add: mem_stores_def dns_dispatch_def lift_dns_def on_part_def Let_def split_beta)

lemma mem_ops [simp]:
  "rb_create (st_rules (mem_stores ord)) = (\<lambda>v. on_rules (sched_mem_create v))"
  "rb_delete (st_rules (mem_stores ord)) = (\<lambda>u. on_rules (sched_mem_delete u))"
  "rb_create (st_routers (mem_stores ord)) = (\<lambda>v. on_routers (router_mem_create v))"
  "rb_delete (st_routers (mem_stores ord)) = (\<lambda>u. on_routers (router_mem_delete u))"
  "rb_create (st_lbs (mem_stores ord)) = (\<lambda>v. on_lbs (lb_mem_create v))"
  "rb_delete (st_lbs (mem_stores ord)) = (\<lambda>u. on_lbs (lb_mem_delete u))"
  "st_set_backends (mem_stores ord) = (\<lambda>bs u. on_lbs (lb_mem_set_backends bs u))"
  "st_update_status (mem_stores ord) = (\<lambda>st u. on_routers (router_mem_update_status st u))"
  by (simp_all add: mem_stores_def)

interpretation memory: network "mem_stores ord" mem_net "mem_good ord" for ord
proof (unfold_locales, goal_cases)
  case (1 w)
  then show ?case by (simp add: net_ok_def mem_good_def rows_good_def dns_good_def)
next
  case (2 w v)
  obtain r a where step: "sched_mem_create v (mw_rules w) = (r, a)" by fastforce
  with 2 mem_row_create [OF mem_rows(1) _ _ _ _ step] show ?case
    by (auto simp: mem_good_def intro!: part_sim)
next
  case (3 w u)
  obtain r a where step: "sched_mem_delete u (mw_rules w) = (r, a)" by fastforce
  with 3 mem_row_delete [OF mem_rows(1) _ _ step] show ?case by (auto simp: mem_good_def intro!: part_sim)
next
  case (4 w p)
  then show ?case using mem_list [of _ "sm_by_uuid (mw_rules w)" rule_uuid]
    by (simp add: lists_def mem_stores_def on_part_def sched_mem_list_def mem_good_def rows_good_def mem_orders_ok_def table_ok_def)
next
  case (5 w c)
  obtain r a where step: "dns_dispatch dns_memory c (mw_dns w) = (r, a)" by fastforce
  with 5 mem_dns_step [OF _ _ _ _ step] show ?case
    unfolding mem_dns_dispatch by (auto simp: mem_good_def intro!: part_sim)
next
  case (6 w p)
  then show ?case using mem_list [of _ "dm_zones (mw_dns w)" zone_uuid]
    by (simp add: lists_def mem_stores_def on_part_def dns_mem_list_zones_def mem_good_def dns_good_def rows_good_def mem_orders_ok_def table_ok_def dns_mem_rows_def)
next
  case (7 w z)
  then show ?case using mem_list [of _ "dm_records (mw_dns w)" rec_uuid]
    by (simp add: lists_def mem_stores_def on_part_def dns_mem_list_records_def mem_good_def dns_good_def rows_good_def mem_orders_ok_def table_ok_def dns_mem_rows_def)
next
  case (8 w v)
  obtain r a where step: "router_mem_create v (mw_routers w) = (r, a)" by fastforce
  with 8 mem_row_create [OF mem_rows(2) _ _ _ _ step] show ?case by (auto simp: mem_good_def intro!: part_sim)
next
  case (9 w u)
  obtain r a where step: "router_mem_delete u (mw_routers w) = (r, a)" by fastforce
  with 9 mem_row_delete [OF mem_rows(2) _ _ step] show ?case by (auto simp: mem_good_def intro!: part_sim)
next
  case (10 w p)
  then show ?case using mem_list [of _ "rm_by_uuid (mw_routers w)" router_uuid]
    by (simp add: lists_def mem_stores_def on_part_def router_mem_list_def mem_good_def rows_good_def mem_orders_ok_def table_ok_def)
next
  case (11 w v)
  obtain r a where step: "lb_mem_create v (mw_lbs w) = (r, a)" by fastforce
  with 11 mem_row_create [OF mem_rows(3) _ _ _ _ step] show ?case by (auto simp: mem_good_def intro!: part_sim)
next
  case (12 w u)
  obtain r a where step: "lb_mem_delete u (mw_lbs w) = (r, a)" by fastforce
  with 12 mem_row_delete [OF mem_rows(3) _ _ step] show ?case by (auto simp: mem_good_def intro!: part_sim)
next
  case (13 w p)
  then show ?case using mem_list [of _ "lm_by_uuid (mw_lbs w)" lb_uuid]
    by (simp add: lists_def mem_stores_def on_part_def lb_mem_list_def mem_good_def rows_good_def mem_orders_ok_def table_ok_def)
next
  case (14 w bs u)
  obtain r a where step: "lb_mem_set_backends bs u (mw_lbs w) = (r, a)" by fastforce
  with 14 lb_mem_upd.update_sim [OF _ step] spec_update_good [of lb_uuid lb_project "lm_by_uuid (mw_lbs w)" "set_backends bs" u r]
  show ?case by (auto simp: mem_good_def intro!: part_sim)
next
  case (15 w st u)
  obtain r a where step: "router_mem_update_status st u (mw_routers w) = (r, a)" by fastforce
  with 15 router_mem_upd.update_sim [OF _ step]
    spec_update_good [of router_uuid router_project "rm_by_uuid (mw_routers w)" "set_status st" u]
  show ?case by (cases "spec_update (set_status st) u (rm_by_uuid (mw_routers w))")
    (auto simp: mem_good_def spec_status_def intro!: part_sim)
qed

end
