(* ===== verification/Etcd_Frames.thy ===== *)
theory Etcd_Frames
  imports Scheduling_Store Router_Store LB_Store DNS_Etcd
begin

text \<open>
  The stores share one etcd keyspace, each under prefixes of its own. \<open>writes_only\<close> says which keys
  a program may write, whatever it reads; a run of it on the table leaves every other key alone, and so
  the rows and the invariants of the other stores.
\<close>

section \<open>The keys a program writes\<close>

fun op_key :: "op \<Rightarrow> string" where
  "op_key (OpPut k v) = k"
| "op_key (OpDelete k) = k"

text \<open>What a read can return: pairs whose keys the read selects.\<close>

definition readable :: "string \<Rightarrow> get_opt \<Rightarrow> (rpc_err, kv list) result \<Rightarrow> bool" where
  "readable k o' resp \<longleftrightarrow> (\<forall>kvs. resp = Inr kvs \<longrightarrow>
     (\<forall>x \<in> set kvs. if o' = Exact then kv_key x = k else has_prefix (kv_key x) k))"

primrec writes_only :: "(string \<Rightarrow> bool) \<Rightarrow> 'a etcd_prog \<Rightarrow> bool" where
  "writes_only K (Done a) \<longleftrightarrow> True"
| "writes_only K (Get k o' c) \<longleftrightarrow> (\<forall>resp. readable k o' resp \<longrightarrow> writes_only K (c resp))"
| "writes_only K (Put k v c) \<longleftrightarrow> K k \<and> (\<forall>resp. writes_only K (c resp))"
| "writes_only K (Del k c) \<longleftrightarrow> K k \<and> (\<forall>resp. writes_only K (c resp))"
| "writes_only K (Txn g ops c) \<longleftrightarrow> list_all (\<lambda>w. K (op_key w)) ops \<and> (\<forall>resp. writes_only K (c resp))"

lemma writes_only_bind:
  "writes_only K p \<Longrightarrow> (\<And>a. writes_only K (f a)) \<Longrightarrow> writes_only K (bind_prog p f)"
  by (induction p) auto

definition same_off :: "(string \<Rightarrow> bool) \<Rightarrow> kvdb \<Rightarrow> kvdb \<Rightarrow> bool" where
  "same_off K db db' \<longleftrightarrow> (\<forall>k. \<not> K k \<longrightarrow> db_lookup db' k = db_lookup db k)"

lemma same_off_refl [simp]: "same_off K db db"
  by (simp add: same_off_def)

lemma same_off_trans: "same_off K db m \<Longrightarrow> same_off K m db' \<Longrightarrow> same_off K db db'"
  by (simp add: same_off_def)

lemma same_off_apply:
  assumes "list_all (\<lambda>w. K (op_key w)) ops"
  shows "same_off K db (db_apply ops db)"
proof -
  have one: "\<not> K k \<Longrightarrow> K (op_key w) \<Longrightarrow> kvs_lookup (op_apply r w xs) k = kvs_lookup xs k" for k w r xs
    by (cases w) (auto simp: kvs_lookup_put kvs_lookup_del)
  have "\<not> K k \<Longrightarrow> kvs_lookup (fold (op_apply r) ops xs) k = kvs_lookup xs k" for k r xs
    using assms by (induction ops arbitrary: xs) (simp_all add: one)
  then show ?thesis by (simp add: same_off_def db_lookup_kvs db_apply_kvs)
qed

lemma readable_db: "readable k o' (Inr (db_get k o' db))"
  by (cases o') (auto simp: readable_def dest!: db_lookup_in [OF sym] split: option.splits)

lemma exec_same_off:
  "writes_only K p \<Longrightarrow> exec kv_client p db = (a, db') \<Longrightarrow> same_off K db db'"
proof (induction p arbitrary: db)
  case (Get k o' c)
  then show ?case using readable_db [of k o' db] by (auto simp del: db_get.simps)
next
  case (Put k v c)
  have "same_off K db (db_apply [OpPut k v] db)" using Put.prems(1) by (intro same_off_apply) simp
  moreover have "same_off K (db_apply [OpPut k v] db) db'"
    using Put.prems by (intro Put.IH [OF rangeI]) (auto simp: db_put_def)
  ultimately show ?case by (rule same_off_trans)
next
  case (Del k c)
  have "same_off K db (db_apply [OpDelete k] db)" using Del.prems(1) by (intro same_off_apply) simp
  moreover have "same_off K (db_apply [OpDelete k] db) db'"
    using Del.prems by (intro Del.IH [OF rangeI]) (auto simp: db_del_def)
  ultimately show ?case by (rule same_off_trans)
next
  case (Txn g ops c)
  obtain r m where t: "db_txn g ops db = (r, m)" by fastforce
  then have "m = db \<or> m = db_apply ops db" by (auto simp: db_txn_def split: if_splits)
  then have "same_off K db m" using Txn.prems(1) same_off_apply by auto
  moreover have "same_off K m db'" using Txn.prems t by (intro Txn.IH [OF rangeI]) auto
  ultimately show ?case by (rule same_off_trans)
qed simp

section \<open>Rows elsewhere\<close>

lemma same_off_rows:
  "same_off K db db' \<Longrightarrow> (\<And>u. \<not> K (pfx @ u)) \<Longrightarrow> rows_of pfx dec db' = rows_of pfx dec db"
  by (rule ext) (simp add: rows_of_def db_value_def same_off_def)

lemma rows_ok_lookup:
  "wf_db db \<Longrightarrow> rows_ok pfx dec uid db \<longleftrightarrow>
   (\<forall>u x. db_lookup db (pfx @ u) = Some x \<longrightarrow> (\<exists>v. dec (kv_val x) = Some v \<and> uid v = u))"
  by (auto simp: rows_ok_def dest: db_lookup_in) (metis in_db_lookup)

lemma same_off_ok:
  "same_off K db db' \<Longrightarrow> (\<And>u. \<not> K (pfx @ u)) \<Longrightarrow> wf_db db \<Longrightarrow> wf_db db' \<Longrightarrow>
   rows_ok pfx dec uid db' \<longleftrightarrow> rows_ok pfx dec uid db"
  by (simp add: rows_ok_lookup same_off_def)

section \<open>The prefixes of the stores\<close>

definition rule_area :: "string \<Rightarrow> bool" where "rule_area k \<longleftrightarrow> has_prefix k sched_prefix"
definition router_area :: "string \<Rightarrow> bool" where "router_area k \<longleftrightarrow> has_prefix k router_prefix"
definition lb_area :: "string \<Rightarrow> bool" where "lb_area k \<longleftrightarrow> has_prefix k lb_prefix"
definition dns_area :: "string \<Rightarrow> bool" where
  "dns_area k \<longleftrightarrow> has_prefix k etcdZonePrefix \<or> has_prefix k etcdRecordPrefix"

lemmas area_defs = rule_area_def router_area_def lb_area_def dns_area_def
lemmas prefix_defs = sched_prefix_def router_prefix_def lb_prefix_def etcdZonePrefix_def etcdRecordPrefix_def

lemma areas [simp]:
  "rule_area (sched_prefix @ u)" "router_area (router_prefix @ u)" "lb_area (lb_prefix @ u)"
  "dns_area (etcdZonePrefix @ u)" "dns_area (etcdRecordPrefix @ u)"
  by (simp_all add: area_defs has_prefix_append)

lemma areas_apart [simp]:
  "\<not> rule_area (router_prefix @ u)" "\<not> rule_area (lb_prefix @ u)" "\<not> rule_area (etcdZonePrefix @ u)"
  "\<not> rule_area (etcdRecordPrefix @ u)" "\<not> router_area (sched_prefix @ u)" "\<not> router_area (lb_prefix @ u)"
  "\<not> router_area (etcdZonePrefix @ u)" "\<not> router_area (etcdRecordPrefix @ u)" "\<not> lb_area (sched_prefix @ u)"
  "\<not> lb_area (router_prefix @ u)" "\<not> lb_area (etcdZonePrefix @ u)" "\<not> lb_area (etcdRecordPrefix @ u)"
  "\<not> dns_area (sched_prefix @ u)" "\<not> dns_area (router_prefix @ u)" "\<not> dns_area (lb_prefix @ u)"
  by (simp_all add: area_defs has_prefix_iff prefix_defs)

lemma sched_frames:
  "writes_only rule_area (sched_etcd_create r)" "writes_only rule_area (sched_etcd_delete u)"
  "writes_only rule_area (sched_etcd_list p)"
  by (auto simp: sched_etcd_create_def sched_etcd_delete_def sched_etcd_list_def rule_key_def split: sum.splits)

lemma router_frames:
  "writes_only router_area (router_etcd_create r)" "writes_only router_area (router_etcd_delete u)"
  "writes_only router_area (router_etcd_list p)" "writes_only router_area (router_etcd_get u)"
  "writes_only router_area (router_etcd_update_status st u)"
proof -
  show get: "writes_only router_area (router_etcd_get u)" for u
    by (auto simp: router_etcd_get_def split: sum.splits list.splits option.splits)
  show "writes_only router_area (router_etcd_update_status st u)"
    unfolding router_etcd_update_status_def
    by (intro writes_only_bind get) (auto simp: router_key_def split: sum.splits)
qed (auto simp: router_etcd_create_def router_etcd_delete_def router_etcd_list_def router_key_def split: sum.splits)

lemma lb_frames:
  "writes_only lb_area (lb_etcd_create r)" "writes_only lb_area (lb_etcd_delete u)"
  "writes_only lb_area (lb_etcd_list p)" "writes_only lb_area (lb_etcd_set_backends bs u)"
proof -
  have "writes_only lb_area (lb_set_backends_loop n bs u)" for n
    by (induction n) (auto simp: lb_key_def Let_def split: sum.splits list.splits option.splits)
  then show "writes_only lb_area (lb_etcd_set_backends bs u)" by (simp add: lb_etcd_set_backends_def)
qed (auto simp: lb_etcd_create_def lb_etcd_delete_def lb_etcd_list_def lb_key_def split: sum.splits)

lemma dns_frames:
  "writes_only dns_area (dns_etcd_create_zone z)" "writes_only dns_area (dns_etcd_delete_zone u)"
  "writes_only dns_area (dns_etcd_get_zone u)" "writes_only dns_area (dns_etcd_create_record q)"
  "writes_only dns_area (dns_etcd_delete_record u)" "writes_only dns_area (dns_etcd_get_record u)"
  "writes_only dns_area (dns_etcd_list_zones p)" "writes_only dns_area (dns_etcd_list_records p)"
proof -
  show get: "writes_only dns_area (dns_etcd_get_zone u)" "writes_only dns_area (dns_etcd_get_record u)" for u
    by (auto simp: dns_etcd_get_zone_def dns_etcd_get_record_def split: sum.splits list.splits option.splits)
  have dec: "writes_only dns_area (decrement_loop n (etcdZonePrefix @ w))" for n w
    by (induction n) (auto split: sum.splits list.splits option.splits)
  have cascade: "list_all (\<lambda>w. dns_area (op_key w)) (cascade_ops u kvs)"
    if "readable etcdRecordPrefix Prefix (Inr kvs)" for kvs
    using that by (auto simp: cascade_ops_map cascade_keys_def list_all_iff readable_def dns_area_def)
  show "writes_only dns_area (dns_etcd_create_zone z)" "writes_only dns_area (dns_etcd_list_zones p)"
    "writes_only dns_area (dns_etcd_list_records p)"
    by (auto simp: dns_etcd_create_zone_def dns_etcd_list_zones_def dns_etcd_list_records_def etcdZoneKey_def
        split: sum.splits)
  show "writes_only dns_area (dns_etcd_delete_zone u)"
    using cascade by (auto simp: dns_etcd_delete_zone_def etcdZoneKey_def split: sum.splits)
  show "writes_only dns_area (dns_etcd_create_record q)"
    unfolding dns_etcd_create_record_def
    by (intro writes_only_bind get) (auto simp: etcdZoneKey_def etcdRecordKey_def Let_def split: sum.splits)
  show "writes_only dns_area (dns_etcd_delete_record u)"
    unfolding dns_etcd_delete_record_def
    by (intro writes_only_bind get) (auto simp: etcdRecordKey_def etcdZoneKey_def dec simp del: decrement_loop.simps split: sum.splits)
qed

end
