(* ===== verification/Network_Etcd.thy ===== *)
theory Network_Etcd
  imports Service Etcd_Frames
begin

text \<open>
  The etcd stores of the server are a network too, although they share one keyspace: each writes only
  under its own prefixes (\<open>Etcd_Frames\<close>). First on the table, then on every service with no other
  client and no failure.
\<close>

definition etcd_net :: "kvdb \<Rightarrow> net" where
  "etcd_net db = \<lparr>n_rules = rule_rows db, n_dns = dns_rows_of db, n_routers = router_rows db, n_lbs = lb_rows db\<rparr>"

definition etcd_good :: "kvdb \<Rightarrow> bool" where
  "etcd_good db \<longleftrightarrow> sched_db_inv db \<and> dns_db_inv db \<and> router_db_inv db \<and> lb_db_inv db"

lemma etcd_net_sels [simp]:
  "n_rules (etcd_net db) = rule_rows db" "n_dns (etcd_net db) = dns_rows_of db"
  "n_routers (etcd_net db) = router_rows db" "n_lbs (etcd_net db) = lb_rows db"
  by (simp_all add: etcd_net_def)

lemma etcd_empty [simp]: "etcd_good db_empty" "etcd_net db_empty = net_empty"
  by (simp_all add: etcd_good_def etcd_net_def net_empty_def dns_rows_of_def)

section \<open>What a write of one store leaves alone\<close>

lemma off_rules: "same_off K db db' \<Longrightarrow> (\<And>u. \<not> K (sched_prefix @ u)) \<Longrightarrow> wf_db db' \<Longrightarrow> sched_db_inv db \<Longrightarrow>
  rule_rows db' = rule_rows db \<and> sched_db_inv db'"
  using same_off_rows [of K db db' sched_prefix unmarshal_rule] same_off_ok [of K db db' sched_prefix unmarshal_rule rule_uuid]
  by (auto simp: sched_db_inv_def)

lemma off_routers: "same_off K db db' \<Longrightarrow> (\<And>u. \<not> K (router_prefix @ u)) \<Longrightarrow> wf_db db' \<Longrightarrow> router_db_inv db \<Longrightarrow>
  router_rows db' = router_rows db \<and> router_db_inv db'"
  using same_off_rows [of K db db' router_prefix unmarshal_router] same_off_ok [of K db db' router_prefix unmarshal_router router_uuid]
  by (auto simp: router_db_inv_def)

lemma off_lbs: "same_off K db db' \<Longrightarrow> (\<And>u. \<not> K (lb_prefix @ u)) \<Longrightarrow> wf_db db' \<Longrightarrow> lb_db_inv db \<Longrightarrow>
  lb_rows db' = lb_rows db \<and> lb_db_inv db'"
  using same_off_rows [of K db db' lb_prefix unmarshal_lb] same_off_ok [of K db db' lb_prefix unmarshal_lb lb_uuid]
  by (auto simp: lb_db_inv_def)

lemma off_dns:
  "same_off K db db' \<Longrightarrow> (\<And>u. \<not> K (etcdZonePrefix @ u)) \<Longrightarrow> (\<And>u. \<not> K (etcdRecordPrefix @ u)) \<Longrightarrow> wf_db db' \<Longrightarrow>
   dns_db_inv db \<Longrightarrow> dns_rows_of db' = dns_rows_of db \<and> dns_db_inv db'"
  using same_off_rows [of K db db' etcdZonePrefix unmarshal_zone] same_off_rows [of K db db' etcdRecordPrefix unmarshal_rec]
    same_off_ok [of K db db' etcdZonePrefix unmarshal_zone zone_uuid]
    same_off_ok [of K db db' etcdRecordPrefix unmarshal_rec rec_uuid]
  by (auto simp: dns_db_inv_def dns_tables_ok_def dns_rows_of_def)

lemma inv_wf: "sched_db_inv db \<Longrightarrow> wf_db db" "router_db_inv db \<Longrightarrow> wf_db db" "lb_db_inv db \<Longrightarrow> wf_db db"
  "dns_db_inv db \<Longrightarrow> wf_db db"
  by (simp_all add: sched_db_inv_def router_db_inv_def lb_db_inv_def dns_db_inv_def dns_tables_ok_def)

text \<open>A program of one store, against the abstract operation on one table.\<close>

lemma rule_prog_sim:
  assumes "etcd_good db" and "writes_only rule_area p" and "exec kv_client p db = (r, db')"
    and "g (rule_rows db) = (r, rule_rows db')" and "sched_db_inv db'"
  shows "sim etcd_net etcd_good (exec kv_client p) (on_part n_rules put_rules g) db"
proof -
  note off = exec_same_off [OF assms(2,3)] and wf = inv_wf(1) [OF assms(5)]
  from off_routers [OF off _ wf] off_lbs [OF off _ wf] off_dns [OF off _ _ wf] assms show ?thesis
    by (simp add: sim_def on_part_def etcd_good_def etcd_net_def)
qed

lemma router_prog_sim:
  assumes "etcd_good db" and "writes_only router_area p" and "exec kv_client p db = (r, db')"
    and "g (router_rows db) = (r, router_rows db')" and "router_db_inv db'"
  shows "sim etcd_net etcd_good (exec kv_client p) (on_part n_routers put_routers g) db"
proof -
  note off = exec_same_off [OF assms(2,3)] and wf = inv_wf(2) [OF assms(5)]
  from off_rules [OF off _ wf] off_lbs [OF off _ wf] off_dns [OF off _ _ wf] assms show ?thesis
    by (simp add: sim_def on_part_def etcd_good_def etcd_net_def)
qed

lemma lb_prog_sim:
  assumes "etcd_good db" and "writes_only lb_area p" and "exec kv_client p db = (r, db')"
    and "g (lb_rows db) = (r, lb_rows db')" and "lb_db_inv db'"
  shows "sim etcd_net etcd_good (exec kv_client p) (on_part n_lbs put_lbs g) db"
proof -
  note off = exec_same_off [OF assms(2,3)] and wf = inv_wf(3) [OF assms(5)]
  from off_rules [OF off _ wf] off_routers [OF off _ wf] off_dns [OF off _ _ wf] assms show ?thesis
    by (simp add: sim_def on_part_def etcd_good_def etcd_net_def)
qed

lemma exec_apfst_off: "apfst f (exec kv_client p db) = (r, db') \<Longrightarrow> writes_only K p \<Longrightarrow> same_off K db db'"
  using exec_same_off [of K p db] by (cases "exec kv_client p db") auto

lemma dns_dispatch_sim:
  assumes "etcd_good db" and "dns_admits (\<lambda>n. n < max_txn_ops) c (dns_rows_of db)"
  shows "sim etcd_net etcd_good (dns_dispatch (dns_etcd kv_client) c) (on_part n_dns put_dns (dns_spec_call zone_pair c)) db"
proof -
  obtain r db' where step: "dns_dispatch (dns_etcd kv_client) c db = (r, db')" by fastforce
  have inv: "dns_db_inv db" using assms(1) by (simp add: etcd_good_def)
  from dns_etcd_kv.dispatch_sim [OF inv assms(2) step]
  have spec: "dns_spec_call zone_pair c (dns_rows_of db) = (r, dns_rows_of db')" and wf: "wf_db db'" and "dns_db_inv db'"
    by (auto dest: inv_wf)
  have off: "same_off dns_area db db'"
    using step by (cases c) (auto simp: dns_dispatch_def dns_etcd_def dns_frames dest: exec_apfst_off [where K = dns_area])
  from off_rules [OF off _ wf] off_routers [OF off _ wf] off_lbs [OF off _ wf] assms(1) step spec \<open>dns_db_inv db'\<close>
  show ?thesis by (simp add: sim_def on_part_def etcd_good_def etcd_net_def)
qed

section \<open>Listings\<close>

context row_codec
begin

lemma distinct_scan_list:
  assumes "wf_db db" and "rows_ok pfx dec uid db"
  shows "distinct (scan_list dec skip (db_get pfx PrefixByCreate db))"
proof -
  let ?xs = "db_get pfx PrefixByCreate db"
  have keys: "distinct (map kv_key ?xs)"
    using assms(1) by (auto simp: wf_db_def distinct_map intro: inj_on_subset)
  have row: "\<forall>x \<in> set ?xs. \<forall>v. dec (kv_val x) = Some v \<longrightarrow> kv_key x = pfx @ uid v"
    using assms(2) by (fastforce simp: set_db_get_prefix rows_ok_def simp del: db_get.simps)
  have "distinct (scan_list dec skip xs) \<and> (\<lambda>v. pfx @ uid v) ` set (scan_list dec skip xs) \<subseteq> kv_key ` set xs"
    if "distinct (map kv_key xs)" "\<forall>x \<in> set xs. \<forall>v. dec (kv_val x) = Some v \<longrightarrow> kv_key x = pfx @ uid v" for xs
    using that
  proof (induction xs)
    case (Cons x xs)
    then have IH: "distinct (scan_list dec skip xs)" "(\<lambda>v. pfx @ uid v) ` set (scan_list dec skip xs) \<subseteq> kv_key ` set xs"
      by simp_all
    show ?case
    proof (cases "dec (kv_val x)")
      case None
      then show ?thesis using IH by auto
    next
      case (Some v)
      with Cons.prems(2) have "kv_key x = pfx @ uid v" by simp
      moreover from this have "v \<notin> set (scan_list dec skip xs)" using IH(2) Cons.prems(1) by auto
      ultimately show ?thesis using IH Some by auto
    qed
  qed simp
  with keys row show ?thesis by blast
qed

lemma lists_rows:
  assumes "wf_db db" and "rows_ok pfx dec uid db" and "etcd_good db"
  shows "lists etcd_net etcd_good (visible prj p (rows_of pfx dec db))
    (Inr (scan_list dec (\<lambda>v. p \<noteq> [] \<and> prj v \<noteq> p) (db_get pfx PrefixByCreate db)), db) db"
  using distinct_scan_list [OF assms(1,2)] scan_list_rows [OF assms(1)] assms(3)
  by (auto simp: lists_def visible_def simp del: db_get.simps)

lemma table_ok_rows: "rows_ok pfx dec uid db \<Longrightarrow> table_ok uid (rows_of pfx dec db)"
proof -
  assume ok: "rows_ok pfx dec uid db"
  have "(\<lambda>u. pfx @ u) ` dom (rows_of pfx dec db) \<subseteq> kv_key ` set (db_kvs db)"
    by (auto simp: rows_Some dest!: db_lookup_in) (metis imageI)
  then have "finite ((\<lambda>u. pfx @ u) ` dom (rows_of pfx dec db))" by (rule finite_subset) simp
  then have "finite (dom (rows_of pfx dec db))" by (rule finite_imageD) (simp add: inj_on_def)
  with rows_uid [OF ok] show ?thesis by (auto simp: table_ok_def rows_keyed_def)
qed

end

section \<open>The contract\<close>

lemma etcd_ops [simp]:
  "rb_create (st_rules (etcd_stores cl)) = (\<lambda>v. exec cl (sched_etcd_create v))"
  "rb_delete (st_rules (etcd_stores cl)) = (\<lambda>u. exec cl (sched_etcd_delete u))"
  "rb_list (st_rules (etcd_stores cl)) = (\<lambda>p. exec cl (sched_etcd_list p))"
  "rb_create (st_routers (etcd_stores cl)) = (\<lambda>v. exec cl (router_etcd_create v))"
  "rb_delete (st_routers (etcd_stores cl)) = (\<lambda>u. exec cl (router_etcd_delete u))"
  "rb_list (st_routers (etcd_stores cl)) = (\<lambda>p. exec cl (router_etcd_list p))"
  "rb_create (st_lbs (etcd_stores cl)) = (\<lambda>v. exec cl (lb_etcd_create v))"
  "rb_delete (st_lbs (etcd_stores cl)) = (\<lambda>u. exec cl (lb_etcd_delete u))"
  "rb_list (st_lbs (etcd_stores cl)) = (\<lambda>p. exec cl (lb_etcd_list p))"
  "st_set_backends (etcd_stores cl) = (\<lambda>bs u. exec cl (lb_etcd_set_backends bs u))"
  "st_update_status (etcd_stores cl) = (\<lambda>st u. exec cl (router_etcd_update_status st u))"
  "st_dns (etcd_stores cl) = dns_etcd cl"
  "st_list_zones (etcd_stores cl) = (\<lambda>p. exec cl (dns_etcd_list_zones p))"
  "st_list_records (etcd_stores cl) = (\<lambda>z. exec cl (dns_etcd_list_records z))"
  by (simp_all add: etcd_stores_def)

lemmas list_defs = sched_etcd_list_def router_etcd_list_def lb_etcd_list_def dns_etcd_list_zones_def dns_etcd_list_records_def

interpretation etcd_table: network "etcd_stores kv_client" etcd_net etcd_good
proof (unfold_locales, goal_cases)
  case (1 db)
  with dns_db_invD(2,3) [of db] show ?case
    by (auto simp: net_ok_def etcd_good_def dns_rows_of_def sched_db_inv_def router_db_inv_def lb_db_inv_def
        intro: rule_codec.table_ok_rows router_codec.table_ok_rows lb_codec.table_ok_rows
        zone_codec.table_ok_rows rec_codec.table_ok_rows)
next
  case (2 db v)
  obtain r db' where step: "exec kv_client (sched_etcd_create v) db = (r, db')" by fastforce
  with 2 sched_etcd.create_sim [OF _ _ step] show ?case
    by (auto simp: etcd_good_def sched_frames intro!: rule_prog_sim)
next
  case (3 db u)
  obtain r db' where step: "exec kv_client (sched_etcd_delete u) db = (r, db')" by fastforce
  with 3 sched_etcd.delete_sim [OF _ step] show ?case
    by (auto simp: etcd_good_def sched_frames intro!: rule_prog_sim)
next
  case (4 db p)
  then show ?case using rule_codec.lists_rows [of db rule_project p]
    by (simp add: list_defs etcd_good_def sched_db_inv_def del: db_get.simps)
next
  case (5 db c)
  then show ?case using dns_dispatch_sim by simp
next
  case (6 db p)
  then show ?case using zone_codec.lists_rows [of db zone_project p]
    by (simp add: list_defs etcd_good_def dns_db_inv_def dns_tables_ok_def dns_rows_of_def del: db_get.simps)
next
  case (7 db z)
  then show ?case using rec_codec.lists_rows [of db rec_zone z]
    by (simp add: list_defs etcd_good_def dns_db_inv_def dns_tables_ok_def dns_rows_of_def del: db_get.simps)
next
  case (8 db v)
  obtain r db' where step: "exec kv_client (router_etcd_create v) db = (r, db')" by fastforce
  with 8 router_etcd.create_sim [OF _ _ step] show ?case
    by (auto simp: etcd_good_def router_frames intro!: router_prog_sim)
next
  case (9 db u)
  obtain r db' where step: "exec kv_client (router_etcd_delete u) db = (r, db')" by fastforce
  with 9 router_etcd.delete_sim [OF _ step] show ?case
    by (auto simp: etcd_good_def router_frames intro!: router_prog_sim)
next
  case (10 db p)
  then show ?case using router_codec.lists_rows [of db router_project p]
    by (simp add: list_defs etcd_good_def router_db_inv_def del: db_get.simps)
next
  case (11 db v)
  obtain r db' where step: "exec kv_client (lb_etcd_create v) db = (r, db')" by fastforce
  with 11 lb_etcd.create_sim [OF _ _ step] show ?case
    by (auto simp: etcd_good_def lb_frames intro!: lb_prog_sim)
next
  case (12 db u)
  obtain r db' where step: "exec kv_client (lb_etcd_delete u) db = (r, db')" by fastforce
  with 12 lb_etcd.delete_sim [OF _ step] show ?case
    by (auto simp: etcd_good_def lb_frames intro!: lb_prog_sim)
next
  case (13 db p)
  then show ?case using lb_codec.lists_rows [of db lb_project p]
    by (simp add: list_defs etcd_good_def lb_db_inv_def del: db_get.simps)
next
  case (14 db bs u)
  obtain r db' where step: "exec kv_client (lb_etcd_set_backends bs u) db = (r, db')" by fastforce
  with 14 lb_etcd_upd.update_sim [OF _ step] show ?case
    by (auto simp: etcd_good_def lb_frames intro!: lb_prog_sim)
next
  case (15 db st u)
  obtain r db' where step: "exec kv_client (router_etcd_update_status st u) db = (r, db')" by fastforce
  with 15 router_etcd_upd.update_sim [OF _ step] show ?case
    by (auto simp: etcd_good_def router_frames spec_status_def intro!: router_prog_sim)
qed

text \<open>The same on every service with no other client and no failure.\<close>

context etcd_exclusive
begin

lemma sim_view:
  assumes "ok s" and "sim absn good (exec kv_client p) g (view s)"
  shows "sim (\<lambda>s. absn (view s)) (\<lambda>s. ok s \<and> good (view s)) (exec cl p) g s"
  using assms exec_sim [OF assms(1), of p] by (cases "exec cl p s") (auto simp: sim_def)

lemma lists_view:
  assumes "ok s" and "lists absn good V (exec kv_client p (view s)) (view s)"
  shows "lists (\<lambda>s. absn (view s)) (\<lambda>s. ok s \<and> good (view s)) V (exec cl p s) s"
  using assms exec_sim [OF assms(1), of p] by (cases "exec cl p s") (auto simp: lists_def)

lemma dns_view:
  assumes "ok s" and "sim absn good (dns_dispatch (dns_etcd kv_client) c) g (view s)"
  shows "sim (\<lambda>s. absn (view s)) (\<lambda>s. ok s \<and> good (view s)) (dns_dispatch (dns_etcd cl) c) g s"
  using assms dns_dispatch_view [OF assms(1), of c] by (cases "dns_dispatch (dns_etcd cl) c s") (auto simp: sim_def)

lemma network_on_service: "network (etcd_stores cl) (\<lambda>s. etcd_net (view s)) (\<lambda>s. ok s \<and> etcd_good (view s))"
  using etcd_table.abs_ok etcd_table.create_rule etcd_table.delete_rule etcd_table.list_rules etcd_table.dns
    etcd_table.list_zones etcd_table.list_records etcd_table.create_router etcd_table.delete_router
    etcd_table.list_routers etcd_table.create_lb etcd_table.delete_lb etcd_table.list_lbs etcd_table.set_lb_backends
    etcd_table.update_status
  by unfold_locales (simp_all add: sim_view lists_view dns_view)

end

sublocale etcd_exclusive \<subseteq> net: network "etcd_stores cl" "\<lambda>s. etcd_net (view s)" "\<lambda>s. ok s \<and> etcd_good (view s)"
  by (rule network_on_service)

end
