(* ===== verification/Network_Properties.thy ===== *)
theory Network_Properties
  imports Network_Memory Network_Etcd
begin

text \<open>
  The properties of the whole service: the server over memory and the server over etcd are the same
  service, and every row either of them stores is one its checks let through.
\<close>

section \<open>One service\<close>

lemma net_server_eq:
  "srv_publisher sv' = srv_publisher sv \<Longrightarrow> srv_lifecycle sv' = srv_lifecycle sv \<Longrightarrow> net_server o' sv' = net_server o' sv"
  by (simp add: net_server_def)

lemma same_outcomes: "list_all2 same_outcome xs zs \<Longrightarrow> list_all2 same_outcome ys zs \<Longrightarrow> list_all2 same_outcome xs ys"
proof (induction xs zs arbitrary: ys rule: list_all2_induct)
  case (Cons x xs z zs)
  from Cons.prems obtain y us where "ys = y # us" "same_outcome y z" "list_all2 same_outcome us zs"
    by (auto simp: list_all2_Cons2)
  with Cons.IH Cons.hyps(1) same_outcome_trans [of x z y] show ?case by (simp only: list.rel_inject)
qed simp

definition uuid_orders :: mem_orders where
  "uuid_orders = \<lparr>ord_rules = (\<lambda>s. uuid_order (sm_by_uuid s)), ord_zones = (\<lambda>s. uuid_order (dm_zones s)),
     ord_records = (\<lambda>s. uuid_order (dm_records s)), ord_routers = (\<lambda>s. uuid_order (rm_by_uuid s)),
     ord_lbs = (\<lambda>s. uuid_order (lm_by_uuid s))\<rparr>"

lemma uuid_orders_ok: "mem_orders_ok uuid_orders"
  by (simp add: mem_orders_ok_def uuid_orders_def enumerates_uuid_order)

lemma new_rows [simp]:
  "sm_by_uuid sched_mem_new = Map.empty" "dns_mem_rows dns_mem_new = (Map.empty, Map.empty)"
  "rm_by_uuid router_mem_new = Map.empty" "lm_by_uuid lb_mem_new = Map.empty"
  by (simp_all add: sched_mem_new_def dns_mem_rows_def dns_mem_new_def router_mem_new_def lb_mem_new_def)

lemma mem_new_good: "mem_orders_ok ord \<Longrightarrow> mem_good ord mem_new" "mem_net mem_new = net_empty"
  by (simp_all add: mem_good_def mem_net_def mem_new_def net_empty_def dns_good_def table_ok_def rows_keyed_def)

text \<open>
  C2. The service does not depend on its backend. Two servers with the same publisher and lifecycle,
  one over memory and one over an etcd with no other client and no failure, that hold the same rows,
  handle every sequence of RPCs and of status messages of router VMs alike (the same outcome each
  time, up to the order of listings), do the same to the world outside, and hold the same rows at the
  end, as long as drawn uuids are new, projects have no bar, a deleted zone has fewer than 128 records
  and no counter has wrapped around.
\<close>

theorem service_backends_agree:
  assumes "etcd_exclusive cl view ok" and "ok s" and "etcd_good (view s)"
    and "mem_good ord m" and "mem_net m = etcd_net (view s)"
    and "srv_stores sv = mem_stores ord" and "srv_stores sv' = etcd_stores cl"
    and "srv_publisher sv' = srv_publisher sv" and "srv_lifecycle sv' = srv_lifecycle sv"
    and "admits_events (net_server by_uuid sv) es (mem_net m, w)"
    and "run_calls (service_step sv) es (m, w) = (rs, m', w1)"
    and "run_calls (service_step sv') es (s, w) = (rs', s', w2)"
  shows "list_all2 same_outcome rs rs' \<and> w1 = w2 \<and> mem_net m' = etcd_net (view s')"
proof -
  obtain xs where xs: "run_calls (service_step (net_server by_uuid sv)) es (mem_net m, w) = (xs, mem_net m', w1)"
      "list_all2 same_outcome rs xs"
    using memory.events_sim [OF assms(4,6) by_uuid_ok assms(10,11)] by (elim exE conjE)
  have "admits_events (net_server by_uuid sv') es (etcd_net (view s), w)"
    using assms(5,10) net_server_eq [OF assms(8,9)] by simp
  from network.events_sim [OF etcd_exclusive.network_on_service [OF assms(1)] conjI [OF assms(2,3)] assms(7) by_uuid_ok this assms(12)]
  obtain ys where ys: "run_calls (service_step (net_server by_uuid sv')) es (etcd_net (view s), w) = (ys, etcd_net (view s'), w2)"
      "list_all2 same_outcome rs' ys"
    by (elim exE conjE)
  have "(ys, etcd_net (view s'), w2) = (xs, mem_net m', w1)"
    using xs(1) ys(1) unfolding assms(5) net_server_eq [OF assms(8,9)] by (rule trans [OF sym, rotated])
  then show ?thesis using same_outcomes [OF xs(2)] ys(2) by simp
qed

definition demo_backend :: "'d stores \<Rightarrow> ('d, (string \<times> string) set) Server" where
  "demo_backend st = \<lparr>srv_stores = st, srv_publisher = noop_publisher,
     srv_lifecycle = weft_lifecycle (newWeftClientWithStub ''img'' [] set_agent), srv_etcd = False\<rparr>"

definition demo_zone :: CreateDNSZoneRequest where
  "demo_zone = \<lparr>czr_name = ''web'', czr_role = [], czr_ttl = 0, czr_push_target = [], czr_project = ''acme''\<rparr>"

definition demo_record :: CreateDNSRecordRequest where
  "demo_record = \<lparr>crr_zone = ''01'', crr_type = ''A'', crr_name = ''web'', crr_value = ''web'', crr_ttl = 0\<rparr>"

definition demo_events :: "event list" where
  "demo_events = [Call (RqCreateRouter [1] 0 demo_request), Call (RqCreateDNSZone [1] 0 demo_zone),
     Call (RqCreateDNSRecord [2] demo_record), Call (RqListRouters []), Call (RqDeleteDNSZone ''01''),
     StatusMsg ''weft.router.01.status'' (Doc (JObj [(''Peers'', JArr [JObj [(''State'', JStr ''Established'')]])])),
     Call (RqDeleteRouter ''01''), StatusMsg ''weft.router.01.status'' (Doc JNull)]"

lemma trim_demo [simp]: "trim_space ''01'' = ''01''" "trim_space ''A'' = ''A''"
  by (rule trim_space_plain, simp)+

definition demo_zone_row :: Zone where
  "demo_zone_row = \<lparr>zone_uuid = ''01'', zone_name = ''web'', zone_role = ''primary'', zone_records = 0, zone_ttl = 300,
     zone_backend = ''coredns'', zone_push_target = [], zone_push_state = [], zone_project = ''acme'',
     zone_status = ''syncing'', zone_created = 0\<rparr>"

definition demo_record_row :: Record where
  "demo_record_row = \<lparr>rec_uuid = ''02'', rec_zone = ''01'', rec_zone_name = ''web'', rec_name = ''web'', rec_type = ''A'',
     rec_value = ''web'', rec_ttl = 300, rec_source = ''static''\<rparr>"

lemma newUUID_2: "newUUID [2] = ''02''"
  by (simp add: newUUID_def hex_encode_def hex_digit_def char_of_def bit_0)

lemma demo_router_step:
  "srv_stores sv = net_stores o' \<Longrightarrow> n_routers n = Map.empty \<Longrightarrow>
   \<exists>r w'. serve sv (RqCreateRouter [1] 0 demo_request) (n, w) = (r, put_routers [''01'' \<mapsto> demo_row [1] 0] n, w')"
  by (simp add: CreateRouter_def demo_request_ok on_part_def spec_create_def demo_row_def newUUID_1)

lemma demo_zone_step:
  "srv_stores sv = net_stores o' \<Longrightarrow> n_dns n = (Map.empty, Map.empty) \<Longrightarrow>
   \<exists>r. serve sv (RqCreateDNSZone [1] 0 demo_zone) (n, w) = (r, put_dns ([''01'' \<mapsto> demo_zone_row], Map.empty) n, w)"
  by (simp add: CreateDNSZone_def demo_zone_def Let_def store_only_def lift_dns_def dns_spec_def on_part_def
      dns_spec_create_zone_def demo_zone_row_def newUUID_1)

lemma upper_A: "upper_char CHR ''A'' = CHR ''A''"
  by (simp add: upper_char_def)

lemma demo_record_step:
  "srv_stores sv = net_stores o' \<Longrightarrow> n_dns n = ([''01'' \<mapsto> demo_zone_row], Map.empty) \<Longrightarrow>
   \<exists>r Z. serve sv (RqCreateDNSRecord [2] demo_record) (n, w) = (r, put_dns (Z, [''02'' \<mapsto> demo_record_row]) n, w)"
  by (simp add: CreateDNSRecord_def demo_record_def Let_def store_only_def lift_dns_def dns_spec_def on_part_def record_ttl_def
      dns_spec_create_record_def demo_zone_row_def demo_record_row_def newUUID_2 validRecordTypes_def spec_get_def upper_A)
    (intro exI, rule refl)

lemma demo_admitted: "admits_events (net_server by_uuid (demo_backend st)) demo_events (net_empty, {})"
proof -
  let ?sv = "net_server by_uuid (demo_backend st)"
  let ?n1 = "put_routers [''01'' \<mapsto> demo_row [1] 0] net_empty"
  obtain r1 w1 where 1: "serve ?sv (RqCreateRouter [1] 0 demo_request) (net_empty, {}) = (r1, ?n1, w1)"
    using demo_router_step [of ?sv by_uuid net_empty "{}"] by (auto simp: net_empty_def)
  let ?n2 = "put_dns ([''01'' \<mapsto> demo_zone_row], Map.empty) ?n1"
  obtain r2 where 2: "serve ?sv (RqCreateDNSZone [1] 0 demo_zone) (?n1, w1) = (r2, ?n2, w1)"
    using demo_zone_step [of ?sv by_uuid ?n1 w1] by (auto simp: net_empty_def)
  obtain r3 Z where 3: "serve ?sv (RqCreateDNSRecord [2] demo_record) (?n2, w1) =
      (r3, put_dns (Z, [''02'' \<mapsto> demo_record_row]) ?n1, w1)"
    using demo_record_step [of ?sv by_uuid ?n2 w1] by auto
  have list: "\<exists>r. serve ?sv (RqListRouters []) (n, w) = (r, n, w)" for n w
    by (simp add: store_only_def ListRouters_def list_handler_def net_stores_def row_spec_def on_part_def spec_list_def)
  obtain r4 where 4: "serve ?sv (RqListRouters []) (put_dns (Z, [''02'' \<mapsto> demo_record_row]) ?n1, w1) =
      (r4, put_dns (Z, [''02'' \<mapsto> demo_record_row]) ?n1, w1)" using list by blast
  have "plain (cro_project demo_request)" "plain (czr_project demo_zone)"
    by (simp_all add: plain_def demo_request_def demo_zone_def)
  moreover have "recs_in [''02'' \<mapsto> demo_record_row] ''01'' = {''02''}" by (auto simp: recs_in_def demo_record_row_def)
  moreover have "n_routers net_empty = Map.empty" "n_dns net_empty = (Map.empty, Map.empty)" by (simp_all add: net_empty_def)
  ultimately show ?thesis by (simp add: demo_events_def 1 2 3 4 max_txn_ops_def del: serve.simps)
qed

theorem service_backends_agree_witness:
  "list_all2 same_outcome
     (fst (run_calls (service_step (demo_backend (mem_stores uuid_orders))) demo_events (mem_new, {})))
     (fst (run_calls (service_step (demo_backend (etcd_stores kv_client))) demo_events (db_empty, {})))"
proof -
  obtain rs m' w1 where run1: "run_calls (service_step (demo_backend (mem_stores uuid_orders))) demo_events (mem_new, {}) = (rs, m', w1)"
    by (rule prod_cases3)
  obtain rs' db' w2 where run2: "run_calls (service_step (demo_backend (etcd_stores kv_client))) demo_events (db_empty, {}) = (rs', db', w2)"
    by (rule prod_cases3)
  have "list_all2 same_outcome rs rs' \<and> w1 = w2 \<and> mem_net m' = etcd_net db'"
    by (rule service_backends_agree [OF table_exclusive _ _ mem_new_good(1) [OF uuid_orders_ok] _ _ _ _ _ _ run1 run2])
       (simp_all add: mem_new_good(2) demo_admitted, simp_all add: demo_backend_def)
  then show ?thesis by (simp add: run1 run2)
qed

section \<open>What is stored\<close>

definition rule_valid :: "Rule \<Rightarrow> bool" where
  "rule_valid r \<longleftrightarrow> rule_name r \<noteq> [] \<and> 0 < sint (rule_count r)"

definition zone_valid :: "Zone \<Rightarrow> bool" where
  "zone_valid z \<longleftrightarrow> zone_name z \<noteq> [] \<and> zone_role z \<in> {''primary'', ''secondary'', ''forward''} \<and> 0 < sint (zone_ttl z)"

definition record_valid :: "Record \<Rightarrow> bool" where
  "record_valid q \<longleftrightarrow> rec_type q \<in> set validRecordTypes \<and> rec_name q \<noteq> [] \<and> trim_space (rec_value q) \<noteq> [] \<and> 0 < sint (rec_ttl q)"

definition router_valid :: "Router \<Rightarrow> bool" where
  "router_valid r \<longleftrightarrow> router_name r \<noteq> [] \<and> router_kind r \<in> {''peer'', ''egress''} \<and>
     router_backend r \<in> {''wireguard'', ''gobgp'', ''vyos'', ''frr''} \<and>
     (if router_kind r = ''peer'' then router_networks r \<noteq> [] else router_external r \<noteq> []) \<and>
     1 \<le> sint (router_replicas r) \<and> sint (router_replicas r) \<le> 10"

definition lb_valid :: "LoadBalancer \<Rightarrow> bool" where
  "lb_valid l \<longleftrightarrow> lb_name l \<noteq> [] \<and> lb_mode l \<in> {''L4'', ''L7''} \<and> lb_port l \<noteq> 0 \<and> lb_port l \<le> 65535"

definition all_rows :: "('v \<Rightarrow> bool) \<Rightarrow> (string \<rightharpoonup> 'v) \<Rightarrow> bool" where
  "all_rows P m \<longleftrightarrow> (\<forall>u v. m u = Some v \<longrightarrow> P v)"

definition net_valid :: "net \<Rightarrow> bool" where
  "net_valid n \<longleftrightarrow> all_rows rule_valid (n_rules n) \<and> all_rows zone_valid (fst (n_dns n)) \<and>
     all_rows record_valid (snd (n_dns n)) \<and> all_rows router_valid (n_routers n) \<and> all_rows lb_valid (n_lbs n)"

lemma all_rows_upd [intro]: "all_rows P m \<Longrightarrow> P v \<Longrightarrow> all_rows P (m(u \<mapsto> v))"
  by (simp add: all_rows_def)

lemma all_rows_del [intro]: "all_rows P m \<Longrightarrow> all_rows P (m(u := None))"
  by (simp add: all_rows_def)

lemma all_rows_restrict [intro]: "all_rows P m \<Longrightarrow> all_rows P (m |` A)"
  by (simp add: all_rows_def restrict_map_def)

lemma all_rowsD: "all_rows P m \<Longrightarrow> m u = Some v \<Longrightarrow> P v"
  by (simp add: all_rows_def)

lemma spec_create_rows: "all_rows P m \<Longrightarrow> P v \<Longrightarrow> all_rows P (snd (spec_create uid pk v m))"
  by (auto simp: spec_create_def)

lemma spec_delete_rows: "all_rows P m \<Longrightarrow> all_rows P (snd (spec_delete u m))"
  by (auto simp: spec_delete_def split: option.split)

text \<open>An operation on one table keeps the others.\<close>

lemma valid_parts [simp]:
  "net_valid n \<Longrightarrow> net_valid (put_rules a n) \<longleftrightarrow> all_rows rule_valid a"
  "net_valid n \<Longrightarrow> net_valid (put_dns b n) \<longleftrightarrow> all_rows zone_valid (fst b) \<and> all_rows record_valid (snd b)"
  "net_valid n \<Longrightarrow> net_valid (put_routers c n) \<longleftrightarrow> all_rows router_valid c"
  "net_valid n \<Longrightarrow> net_valid (put_lbs d n) \<longleftrightarrow> all_rows lb_valid d"
  by (auto simp: net_valid_def)

lemma net_validD:
  assumes "net_valid n"
  shows "all_rows rule_valid (n_rules n)" "all_rows zone_valid (fst (n_dns n))" "all_rows record_valid (snd (n_dns n))"
    "all_rows router_valid (n_routers n)" "all_rows lb_valid (n_lbs n)"
  using assms by (simp_all add: net_valid_def)

lemma snd_on_part: "snd (on_part get put f w) = put (snd (f (get w))) w"
  by (simp add: on_part_def Let_def split_beta)

abbreviation spec_dns :: "net dns_backend" where
  "spec_dns \<equiv> lift_dns n_dns_update n_dns dns_spec"

lemma dns_spec_valid:
  assumes "net_valid n"
  shows "zone_valid z \<Longrightarrow> net_valid (snd (op_create_zone spec_dns z n))"
    and "net_valid (snd (op_delete_zone spec_dns u n))"
    and "record_valid q \<Longrightarrow> net_valid (snd (op_create_record spec_dns q n))"
    and "net_valid (snd (op_delete_record spec_dns u n))"
proof -
  obtain Z R where n: "n_dns n = (Z, R)" by fastforce
  have Z: "all_rows zone_valid Z" and R: "all_rows record_valid R" using net_validD(2,3) [OF assms] n by simp_all
  have count: "zone_valid (x\<lparr>zone_records := c\<rparr>)" if "Z w = Some x" for w x c
    using all_rowsD [OF Z that] by (simp add: zone_valid_def)
  note defs = lift_dns_def dns_spec_def snd_on_part n
  show "zone_valid z \<Longrightarrow> net_valid (snd (op_create_zone spec_dns z n))"
    using assms Z R by (auto simp: defs dns_spec_create_zone_def)
  show "net_valid (snd (op_delete_zone spec_dns u n))"
    using assms Z R by (auto simp: defs dns_spec_delete_zone_def split: option.split)
  show "record_valid q \<Longrightarrow> net_valid (snd (op_create_record spec_dns q n))"
    using assms Z R count by (auto simp: defs dns_spec_create_record_def record_valid_def Let_def split: option.split)
  show "net_valid (snd (op_delete_record spec_dns u n))"
    using assms Z R count by (auto simp: defs dns_spec_delete_record_def Let_def split: option.split)
qed

text \<open>The handlers, over the abstract stores.\<close>

lemma delete_handler_valid:
  "net_valid n \<Longrightarrow> net_valid (snd (f (trim_space u) n)) \<Longrightarrow> net_valid (snd (delete_handler what f u n))"
  by (cases "f (trim_space u) n"; cases "fst (f (trim_space u) n)") (auto simp: delete_handler_def Let_def)

lemma list_handler_valid:
  "snd res = n \<Longrightarrow> snd (list_handler what f res) = n"
  by (cases res; cases "fst res") (auto simp: list_handler_def)

lemma create_rule_valid:
  assumes "net_valid n"
  shows "net_valid (snd (CreateSchedulingRule (net_server o' sv) b t q n))"
  using assms
  unfolding CreateSchedulingRule_def Let_def net_server_sels net_ops
  by (simp add: split_beta snd_on_part spec_create_rows net_validD rule_valid_def split: sum.split)

lemma create_zone_valid:
  assumes "net_valid n"
  shows "net_valid (snd (CreateDNSZone (net_server o' sv) b t q n))"
  using assms
  unfolding CreateDNSZone_def Let_def net_server_sels net_ops
  by (simp add: split_beta dns_spec_valid zone_valid_def split: sum.split)

lemma create_lb_valid:
  assumes "net_valid n"
  shows "net_valid (snd (CreateLoadBalancer (net_server o' sv) b t q n))"
  using assms
  unfolding CreateLoadBalancer_def Let_def net_server_sels net_ops
  by (simp add: split_beta snd_on_part spec_create_rows net_validD lb_valid_def validLBModes_def linorder_not_less split: sum.split)

lemma set_backends_valid:
  assumes "net_valid n"
  shows "net_valid (snd (SetLoadBalancerBackends (net_server o' sv) u bs n))"
proof -
  have "lb_valid (set_backends bs l)" if "n_lbs n w = Some l" for w l
    using all_rowsD [OF net_validD(5) [OF assms] that] by (simp add: lb_valid_def set_backends_def)
  then have "all_rows lb_valid (snd (spec_update (set_backends bs) w (n_lbs n)))" for w
    using net_validD(5) [OF assms] by (auto simp: spec_update_def split: option.split)
  with assms show ?thesis unfolding SetLoadBalancerBackends_def Let_def net_server_sels net_ops
    by (simp add: split_beta snd_on_part split: sum.split)
qed

lemma record_ttl_net:
  "snd (record_ttl (net_server o' sv) zn ttl n) = n \<and> 0 < sint (fst (record_ttl (net_server o' sv) zn ttl n))"
  by (simp add: record_ttl_def lift_dns_def dns_spec_def on_part_def Let_def)

lemma create_record_valid:
  assumes "net_valid n"
  shows "net_valid (snd (CreateDNSRecord (net_server o' sv) b q n))"
  using assms record_ttl_net [of o' sv "trim_space (crr_zone q)" "crr_ttl q" n]
  unfolding CreateDNSRecord_def Let_def net_server_sels net_ops
  by (simp add: split_beta dns_spec_valid record_valid_def split: sum.split)

lemma create_router_valid:
  assumes "net_valid n"
  shows "net_valid (fst (snd (CreateRouter (net_server o' sv) b t q (n, w))))"
proof (cases "router_of_request b t q")
  case (Inl e)
  with assms show ?thesis by (simp add: CreateRouter_def)
next
  case (Inr r)
  have "router_valid r" using router_of_request_ok [OF Inr] by (auto simp: router_valid_def)
  with Inr assms show ?thesis
    by (simp add: CreateRouter_def split_beta snd_on_part spec_create_rows net_validD split: sum.split)
qed

lemma delete_router_valid:
  assumes "net_valid n"
  shows "net_valid (fst (snd (DeleteRouter (net_server o' sv) u (n, w))))"
proof -
  have "net_valid (snd (delete_handler ''router'' (rb_delete (st_routers (net_stores o'))) u n))"
    using assms by (intro delete_handler_valid) (simp_all add: snd_on_part spec_delete_rows net_validD)
  then show ?thesis by (simp add: DeleteRouter_def split_beta Let_def split: sum.split)
qed

lemma serve_valid:
  assumes "net_valid n"
  shows "net_valid (fst (snd (serve (net_server o' sv) q (n, w))))"
proof -
  have store: "fst (snd (store_only f res w)) = snd res" for f and res :: "(grpc_status, 'r) result \<times> net"
    by (simp add: store_only_def)
  have keep: "snd (list_handler what f (rb_list (st_rules (net_stores o')) p n)) = n"
    "snd (list_handler what g (st_list_zones (net_stores o') p n)) = n"
    "snd (list_handler what h (st_list_records (net_stores o') p n)) = n"
    "snd (list_handler what k (rb_list (st_routers (net_stores o')) p n)) = n"
    "snd (list_handler what l (rb_list (st_lbs (net_stores o')) p n)) = n"
    for what p and f :: "Rule \<Rightarrow> RuleInfo" and g :: "Zone \<Rightarrow> ZoneInfo" and h :: "Record \<Rightarrow> RecordInfo"
      and k :: "Router \<Rightarrow> RouterInfo" and l :: "LoadBalancer \<Rightarrow> LoadBalancerInfo"
    by (auto intro!: list_handler_valid simp: net_stores_def row_spec_def on_part_def)
  show ?thesis
    by (cases q) (simp_all add: store keep assms create_rule_valid create_zone_valid create_lb_valid create_record_valid
        set_backends_valid create_router_valid delete_router_valid ListSchedulingRules_def ListDNSZones_def ListDNSRecords_def
        ListRouters_def ListLoadBalancers_def DeleteSchedulingRule_def DeleteDNSZone_def DeleteDNSRecord_def
        DeleteLoadBalancer_def delete_handler_valid snd_on_part spec_delete_rows net_validD dns_spec_valid)
qed

lemma status_valid:
  assumes "net_valid n"
  shows "net_valid (snd (on_status (net_server o' sv) subject data n))"
proof -
  have "router_valid (set_status st r)" if "n_routers n u = Some r" for st u r
    using all_rowsD [OF net_validD(4) [OF assms] that] by (simp add: router_valid_def set_status_def)
  then have "all_rows router_valid (snd (spec_status st u (n_routers n)))" for st u
    using net_validD(4) [OF assms] by (simp add: spec_status_def spec_update_def all_rows_upd split: option.split)
  with assms have "net_valid (snd (st_update_status (net_stores o') st u n))" for st u
    by (simp add: snd_on_part)
  with assms show ?thesis
    by (simp add: on_status_def RouterStore_def status_handle_def split_beta split: option.split sum.split)
qed

lemma step_valid: "net_valid n \<Longrightarrow> net_valid (fst (snd (service_step (net_server o' sv) e (n, w))))"
  by (cases e) (simp_all add: serve_valid status_valid split_beta del: serve.simps)

lemma steps_valid:
  "net_valid n \<Longrightarrow> run_calls (service_step (net_server o' sv)) es (n, w) = (rs, n', w') \<Longrightarrow> net_valid n'"
proof (induction es arbitrary: n w rs)
  case (Cons e es)
  obtain r n1 w1 where step: "service_step (net_server o' sv) e (n, w) = (r, n1, w1)" by (rule prod_cases3)
  with step_valid [OF Cons.prems(1), of o' sv e w] have "net_valid n1" by simp
  moreover obtain rest where "run_calls (service_step (net_server o' sv)) es (n1, w1) = (rest, n', w')"
    using Cons.prems(2) step by (auto simp: Let_def split: prod.splits)
  ultimately show ?case by (rule Cons.IH)
qed simp

lemma network_valid:
  assumes "network st absn good" and "good d" and "srv_stores sv = st" and "net_valid (absn d)"
    and "admits_events (net_server by_uuid sv) es (absn d, w)" and "run_calls (service_step sv) es (d, w) = (rs, d', w')"
  shows "net_valid (absn d')"
proof -
  obtain xs where "run_calls (service_step (net_server by_uuid sv)) es (absn d, w) = (xs, absn d', w')"
    using network.events_sim [OF assms(1-3) by_uuid_ok assms(5,6)] by (elim exE conjE)
  with assms(4) show ?thesis by (rule steps_valid)
qed

lemma net_empty_valid: "net_valid net_empty"
  by (simp add: net_valid_def net_empty_def all_rows_def)



end
