(* ===== verification/Replicas.thy ===== *)
theory Replicas
  imports Network_Properties Race_Properties
begin

text \<open>
  Any number of replicas on one etcd. A replica starts store operations, makes their calls one by one,
  sees some of them fail (after or before the write took effect) and may stop in the middle of one;
  the schedule says who moves. Two things hold of every schedule: the shared table never holds a
  row that does not decode, sits under a foreign key or fails the checks of the service, and every
  operation ends after a bounded number of calls.
\<close>

section \<open>Operations\<close>

datatype store_call =
    ScRules string | ScCreateRule Rule | ScDeleteRule string | ScGetRule string
  | ScZones string | ScCreateZone Zone | ScDeleteZone string | ScGetZone string
  | ScRecords string | ScCreateRecord Record | ScDeleteRecord string | ScGetRecord string
  | ScRouters string | ScCreateRouter Router | ScDeleteRouter string | ScGetRouter string
  | ScUpdateStatus "string \<times> string" string
  | ScLBs string | ScCreateLB LoadBalancer | ScDeleteLB string | ScGetLB string
  | ScSetBackends "string list" string

text \<open>The program of a call, its answer dropped.\<close>

definition quiet :: "'a etcd_prog \<Rightarrow> unit etcd_prog" where
  "quiet p = bind_prog p (\<lambda>_. Done ())"

fun program :: "store_call \<Rightarrow> unit etcd_prog" where
  "program (ScRules p) = quiet (sched_etcd_list p)"
| "program (ScCreateRule r) = quiet (sched_etcd_create r)"
| "program (ScDeleteRule u) = quiet (sched_etcd_delete u)"
| "program (ScGetRule u) = quiet (sched_etcd_get u)"
| "program (ScZones p) = quiet (dns_etcd_list_zones p)"
| "program (ScCreateZone z) = quiet (dns_etcd_create_zone z)"
| "program (ScDeleteZone u) = quiet (dns_etcd_delete_zone u)"
| "program (ScGetZone u) = quiet (dns_etcd_get_zone u)"
| "program (ScRecords z) = quiet (dns_etcd_list_records z)"
| "program (ScCreateRecord r) = quiet (dns_etcd_create_record r)"
| "program (ScDeleteRecord u) = quiet (dns_etcd_delete_record u)"
| "program (ScGetRecord u) = quiet (dns_etcd_get_record u)"
| "program (ScRouters p) = quiet (router_etcd_list p)"
| "program (ScCreateRouter r) = quiet (router_etcd_create r)"
| "program (ScDeleteRouter u) = quiet (router_etcd_delete u)"
| "program (ScGetRouter u) = quiet (router_etcd_get u)"
| "program (ScUpdateStatus st u) = quiet (router_etcd_update_status st u)"
| "program (ScLBs p) = quiet (lb_etcd_list p)"
| "program (ScCreateLB l) = quiet (lb_etcd_create l)"
| "program (ScDeleteLB u) = quiet (lb_etcd_delete u)"
| "program (ScGetLB u) = quiet (lb_etcd_get u)"
| "program (ScSetBackends bs u) = quiet (lb_etcd_set_backends bs u)"

text \<open>The rows a handler creates have passed its checks.\<close>

fun call_valid :: "store_call \<Rightarrow> bool" where
  "call_valid (ScCreateRule r) \<longleftrightarrow> rule_valid r"
| "call_valid (ScCreateZone z) \<longleftrightarrow> zone_valid z"
| "call_valid (ScCreateRecord q) \<longleftrightarrow> record_valid q"
| "call_valid (ScCreateRouter r) \<longleftrightarrow> router_valid r"
| "call_valid (ScCreateLB l) \<longleftrightarrow> lb_valid l"
| "call_valid _ \<longleftrightarrow> True"

section \<open>Schedules\<close>

text \<open>
  \<open>Move i\<close>: operation \<open>i\<close> makes its next call. \<open>Fail i e took\<close>: that call answers with the error \<open>e\<close>,
  after its write took effect or not. \<open>Stop i\<close>: the replica that runs it dies. \<open>Begin c\<close>: some replica
  starts one more operation.
\<close>

datatype move = Move nat | Fail nat rpc_err bool | Stop nat | Begin store_call

fun pfail :: "rpc_err \<Rightarrow> bool \<Rightarrow> 'a etcd_prog \<Rightarrow> kvdb \<Rightarrow> 'a etcd_prog \<times> kvdb" where
  "pfail e took (Done a) db = (Done a, db)"
| "pfail e took (Get k o' c) db = (c (Inl e), db)"
| "pfail e took (Put k v c) db = (c (Inl e), if took then snd (db_put k v db) else db)"
| "pfail e took (Del k c) db = (c (Inl e), if took then snd (db_del k db) else db)"
| "pfail e took (Txn g ops c) db = (c (Inl e), if took then snd (db_txn g ops db) else db)"

definition pool_at :: "nat \<Rightarrow> (unit etcd_prog \<Rightarrow> kvdb \<Rightarrow> unit etcd_prog \<times> kvdb) \<Rightarrow> unit etcd_prog list \<times> kvdb \<Rightarrow> unit etcd_prog list \<times> kvdb" where
  "pool_at i f = (\<lambda>(ps, db). if i < length ps then (let (p, db') = f (ps ! i) db in (ps[i := p], db')) else (ps, db))"

fun pool_step :: "move \<Rightarrow> unit etcd_prog list \<times> kvdb \<Rightarrow> unit etcd_prog list \<times> kvdb" where
  "pool_step (Move i) s = pool_at i pstep s"
| "pool_step (Fail i e took) s = pool_at i (pfail e took) s"
| "pool_step (Stop i) s = pool_at i (\<lambda>_ db. (Done (), db)) s"
| "pool_step (Begin c) (ps, db) = (ps @ [program c], db)"

definition pool_run :: "move list \<Rightarrow> unit etcd_prog list \<times> kvdb \<Rightarrow> unit etcd_prog list \<times> kvdb" where
  "pool_run = fold pool_step"

section \<open>Every write is a good row\<close>

text \<open>
  A pair of key and value is good when the value under a prefix decodes to a valid row that carries
  the uuid of the key.
\<close>

definition row_at :: "string \<Rightarrow> (etcd_value \<Rightarrow> 'v option) \<Rightarrow> ('v \<Rightarrow> string) \<Rightarrow> ('v \<Rightarrow> bool) \<Rightarrow> string \<Rightarrow> etcd_value \<Rightarrow> bool" where
  "row_at pfx dec uid valid k x \<longleftrightarrow> (\<forall>u. k = pfx @ u \<longrightarrow> (\<exists>v. dec x = Some v \<and> uid v = u \<and> valid v))"

definition good_pair :: "string \<Rightarrow> etcd_value \<Rightarrow> bool" where
  "good_pair k x \<longleftrightarrow>
     row_at sched_prefix unmarshal_rule rule_uuid rule_valid k x \<and>
     row_at etcdZonePrefix unmarshal_zone zone_uuid zone_valid k x \<and>
     row_at etcdRecordPrefix unmarshal_rec rec_uuid record_valid k x \<and>
     row_at router_prefix unmarshal_router router_uuid router_valid k x \<and>
     row_at lb_prefix unmarshal_lb lb_uuid lb_valid k x"

definition good_table :: "kvdb \<Rightarrow> bool" where
  "good_table db \<longleftrightarrow> wf_db db \<and> (\<forall>x \<in> set (db_kvs db). good_pair (kv_key x) (kv_val x))"

fun good_op :: "op \<Rightarrow> bool" where
  "good_op (OpPut k v) \<longleftrightarrow> good_pair k v"
| "good_op (OpDelete k) \<longleftrightarrow> True"

definition good_read :: "string \<Rightarrow> get_opt \<Rightarrow> (rpc_err, kv list) result \<Rightarrow> bool" where
  "good_read k o' resp \<longleftrightarrow> readable k o' resp \<and>
     (\<forall>kvs. resp = Inr kvs \<longrightarrow> (\<forall>x \<in> set kvs. good_pair (kv_key x) (kv_val x)))"

text \<open>What a program guarantees: as long as it reads good pairs, it writes good pairs.\<close>

primrec writes_rows :: "'a etcd_prog \<Rightarrow> bool" where
  "writes_rows (Done a) \<longleftrightarrow> True"
| "writes_rows (Get k o' c) \<longleftrightarrow> (\<forall>resp. good_read k o' resp \<longrightarrow> writes_rows (c resp))"
| "writes_rows (Put k v c) \<longleftrightarrow> good_pair k v \<and> (\<forall>resp. writes_rows (c resp))"
| "writes_rows (Del k c) \<longleftrightarrow> (\<forall>resp. writes_rows (c resp))"
| "writes_rows (Txn g ops c) \<longleftrightarrow> list_all good_op ops \<and> (\<forall>resp. writes_rows (c resp))"

lemma writes_rows_quiet: "writes_rows p \<Longrightarrow> writes_rows (quiet p)"
  unfolding quiet_def by (induction p) auto

lemma good_table_apply:
  assumes "good_table db" and "list_all good_op ops"
  shows "good_table (db_apply ops db)"
proof -
  have one: "\<forall>x \<in> set (op_apply r w xs). good_pair (kv_key x) (kv_val x)"
    if "good_op w" "\<forall>x \<in> set xs. good_pair (kv_key x) (kv_val x)" for r w xs
    using that by (cases w) (auto dest!: set_kvs_put simp: set_kvs_del)
  have all: "\<forall>x \<in> set (fold (op_apply r) ops xs). good_pair (kv_key x) (kv_val x)"
    if "\<forall>x \<in> set xs. good_pair (kv_key x) (kv_val x)" for r xs
    using assms(2) that
  proof (induction ops arbitrary: xs)
    case (Cons w ops)
    then have "\<forall>x \<in> set (op_apply r w xs). good_pair (kv_key x) (kv_val x)" by (intro one) simp_all
    with Cons show ?case by simp
  qed simp
  have "\<forall>x \<in> set (db_kvs (db_apply ops db)). good_pair (kv_key x) (kv_val x)"
    unfolding db_apply_kvs using assms(1) by (intro all) (simp add: good_table_def)
  with assms(1) show ?thesis by (simp add: good_table_def wf_db_apply)
qed

lemma good_read_db: "good_table db \<Longrightarrow> good_read k o' (Inr (db_get k o' db))"
  using readable_db [of k o' db] by (cases o') (auto simp: good_read_def good_table_def dest: db_lookup_in split: option.splits)

lemma good_read_fail [simp]: "good_read k o' (Inl e)"
  by (simp add: good_read_def readable_def)

text \<open>A call made, or a call failed, keeps both the table and the guarantee.\<close>

lemma writes_rows_step:
  assumes "writes_rows p" and "good_table db"
  shows "writes_rows (fst (pstep p db)) \<and> good_table (snd (pstep p db))"
    and "writes_rows (fst (pfail e took p db)) \<and> good_table (snd (pfail e took p db))"
proof -
  have txn: "list_all good_op ops \<Longrightarrow> good_table (snd (db_txn g ops db))" for g ops
    using good_table_apply [OF assms(2)] snd_db_txn [of g ops db] assms(2) by auto
  have put: "good_pair k v \<Longrightarrow> good_table (snd (db_put k v db))" for k v
    using good_table_apply [OF assms(2), of "[OpPut k v]"] by (simp add: snd_db_put)
  have del: "good_table (snd (db_del k db))" for k
    using good_table_apply [OF assms(2), of "[OpDelete k]"] by (simp add: snd_db_del)
  show "writes_rows (fst (pstep p db)) \<and> good_table (snd (pstep p db))"
    using assms good_read_db [OF assms(2)] txn put del by (cases p) (auto simp: split_beta simp del: db_get.simps)
  show "writes_rows (fst (pfail e took p db)) \<and> good_table (snd (pfail e took p db))"
    using assms txn put del by (cases p) auto
qed

section \<open>The operations of the stores\<close>

text \<open>The prefixes differ, so a pair under one of them is good when its row is.\<close>

lemma good_pairs:
  "good_pair (sched_prefix @ u) x \<longleftrightarrow> row_at sched_prefix unmarshal_rule rule_uuid rule_valid (sched_prefix @ u) x"
  "good_pair (etcdZonePrefix @ u) x \<longleftrightarrow> row_at etcdZonePrefix unmarshal_zone zone_uuid zone_valid (etcdZonePrefix @ u) x"
  "good_pair (etcdRecordPrefix @ u) x \<longleftrightarrow> row_at etcdRecordPrefix unmarshal_rec rec_uuid record_valid (etcdRecordPrefix @ u) x"
  "good_pair (router_prefix @ u) x \<longleftrightarrow> row_at router_prefix unmarshal_router router_uuid router_valid (router_prefix @ u) x"
  "good_pair (lb_prefix @ u) x \<longleftrightarrow> row_at lb_prefix unmarshal_lb lb_uuid lb_valid (lb_prefix @ u) x"
  by (simp_all add: good_pair_def row_at_def prefix_defs)

lemma row_at_own: "row_at pfx dec uid valid (pfx @ u) x \<longleftrightarrow> (\<exists>v. dec x = Some v \<and> uid v = u \<and> valid v)"
  by (simp add: row_at_def)

lemmas good_rows = good_pairs [unfolded row_at_own]

lemmas codecs = rule_codec.dec_enc zone_codec.dec_enc rec_codec.dec_enc router_codec.dec_enc lb_codec.dec_enc

lemma good_new:
  "rule_valid r \<Longrightarrow> good_pair (sched_prefix @ rule_uuid r) (marshal_rule r)"
  "zone_valid z \<Longrightarrow> good_pair (etcdZonePrefix @ zone_uuid z) (marshal_zone z)"
  "record_valid q \<Longrightarrow> good_pair (etcdRecordPrefix @ rec_uuid q) (marshal_rec q)"
  "router_valid o' \<Longrightarrow> good_pair (router_prefix @ router_uuid o') (marshal_router o')"
  "lb_valid l \<Longrightarrow> good_pair (lb_prefix @ lb_uuid l) (marshal_lb l)"
  by (simp_all add: good_rows codecs)

text \<open>What a read of one key returns.\<close>

lemma good_read_one: "good_read k Exact (Inr (x # xs)) \<Longrightarrow> good_pair k (kv_val x)"
  by (auto simp: good_read_def readable_def)

text \<open>What a program returns as long as it reads good pairs.\<close>

primrec returns :: "('a \<Rightarrow> bool) \<Rightarrow> 'a etcd_prog \<Rightarrow> bool" where
  "returns Q (Done a) \<longleftrightarrow> Q a"
| "returns Q (Get k o' c) \<longleftrightarrow> (\<forall>resp. good_read k o' resp \<longrightarrow> returns Q (c resp))"
| "returns Q (Put k v c) \<longleftrightarrow> (\<forall>resp. returns Q (c resp))"
| "returns Q (Del k c) \<longleftrightarrow> (\<forall>resp. returns Q (c resp))"
| "returns Q (Txn g ops c) \<longleftrightarrow> (\<forall>resp. returns Q (c resp))"

lemma writes_rows_bind:
  "writes_rows p \<Longrightarrow> returns Q p \<Longrightarrow> (\<And>a. Q a \<Longrightarrow> writes_rows (f a)) \<Longrightarrow> writes_rows (bind_prog p f)"
  by (induction p) auto

lemma changes_keep [simp]:
  "router_uuid (set_status st r) = router_uuid r" "router_valid (set_status st r) = router_valid r"
  "lb_uuid (set_backends bs l) = lb_uuid l" "lb_valid (set_backends bs l) = lb_valid l"
  "zone_valid (z\<lparr>zone_records := n\<rparr>) = zone_valid z" "record_valid (q\<lparr>rec_zone_name := s\<rparr>) = record_valid q"
  by (simp_all add: set_status_def router_valid_def set_backends_def lb_valid_def zone_valid_def record_valid_def)

lemma sched_writes_rows:
  "writes_rows (sched_etcd_list p)" "writes_rows (sched_etcd_delete u)" "writes_rows (sched_etcd_get u)"
  "rule_valid r \<Longrightarrow> writes_rows (sched_etcd_create r)"
  by (auto simp: sched_etcd_list_def sched_etcd_delete_def sched_etcd_get_def sched_etcd_create_def rule_key_def good_new
      split: sum.splits list.splits option.splits)

lemma router_writes_rows:
  "writes_rows (router_etcd_list p)" "writes_rows (router_etcd_delete u)" "writes_rows (router_etcd_get u)"
  "router_valid r \<Longrightarrow> writes_rows (router_etcd_create r)" "writes_rows (router_etcd_update_status st u)"
proof -
  show get: "writes_rows (router_etcd_get u)" for u
    by (auto simp: router_etcd_get_def split: sum.splits list.splits option.splits)
  have ret: "returns (\<lambda>res. \<forall>r. res = Inr r \<longrightarrow> router_uuid r = u \<and> router_valid r) (router_etcd_get u)"
    by (auto simp: router_etcd_get_def router_key_def good_rows split: sum.splits list.splits option.splits dest!: good_read_one)
  show "writes_rows (router_etcd_update_status st u)"
    unfolding router_etcd_update_status_def
    by (rule writes_rows_bind [OF get ret]) (auto simp: router_key_def good_rows codecs split: sum.splits)
qed (auto simp: router_etcd_list_def router_etcd_delete_def router_etcd_create_def router_key_def good_new split: sum.splits)

lemma lb_writes_rows:
  "writes_rows (lb_etcd_list p)" "writes_rows (lb_etcd_delete u)" "writes_rows (lb_etcd_get u)"
  "lb_valid l \<Longrightarrow> writes_rows (lb_etcd_create l)" "writes_rows (lb_etcd_set_backends bs u)"
proof -
  have "writes_rows (lb_set_backends_loop n bs u)" for n
    by (induction n) (auto simp: lb_key_def Let_def good_rows codecs dest!: good_read_one split: sum.splits list.splits option.splits)
  then show "writes_rows (lb_etcd_set_backends bs u)" by (simp add: lb_etcd_set_backends_def)
qed (auto simp: lb_etcd_list_def lb_etcd_delete_def lb_etcd_get_def lb_etcd_create_def lb_key_def good_new
    split: sum.splits list.splits option.splits)

lemma dns_writes_rows:
  "writes_rows (dns_etcd_list_zones p)" "writes_rows (dns_etcd_list_records p)"
  "writes_rows (dns_etcd_get_zone u)" "writes_rows (dns_etcd_get_record u)"
  "zone_valid z \<Longrightarrow> writes_rows (dns_etcd_create_zone z)" "writes_rows (dns_etcd_delete_zone u)"
  "record_valid q \<Longrightarrow> writes_rows (dns_etcd_create_record q)" "writes_rows (dns_etcd_delete_record u)"
proof -
  note splits = sum.splits list.splits option.splits
  show get: "writes_rows (dns_etcd_get_zone u)" "writes_rows (dns_etcd_get_record u)" for u
    by (auto simp: dns_etcd_get_zone_def dns_etcd_get_record_def split: splits)
  have zone: "returns (\<lambda>res. \<forall>z. res = Inr z \<longrightarrow> zone_uuid z = u \<and> zone_valid z) (dns_etcd_get_zone u)" for u
    by (auto simp: dns_etcd_get_zone_def etcdZoneKey_def good_rows split: splits dest!: good_read_one)
  have any: "returns (\<lambda>_. True) p" for p :: "'a etcd_prog" by (induction p) auto
  have dec: "writes_rows (decrement_loop n (etcdZonePrefix @ w))" for n w
    by (induction n) (auto simp: good_rows codecs dest!: good_read_one split: splits)
  have "list_all good_op (cascade_ops u kvs)" for kvs
    by (simp add: cascade_ops_map list_all_iff)
  then show "writes_rows (dns_etcd_delete_zone u)" by (auto simp: dns_etcd_delete_zone_def split: sum.splits)
  show "record_valid q \<Longrightarrow> writes_rows (dns_etcd_create_record q)"
    unfolding dns_etcd_create_record_def
    by (rule writes_rows_bind [OF get(1) zone])
       (auto simp: etcdZoneKey_def etcdRecordKey_def Let_def good_rows codecs split: sum.splits)
  show "writes_rows (dns_etcd_delete_record u)"
    unfolding dns_etcd_delete_record_def
    by (rule writes_rows_bind [OF get(2) any])
       (auto simp: etcdZoneKey_def dec simp del: decrement_loop.simps split: sum.splits)
  show "writes_rows (dns_etcd_list_zones p)" "writes_rows (dns_etcd_list_records p)"
    "zone_valid z \<Longrightarrow> writes_rows (dns_etcd_create_zone z)"
    by (auto simp: dns_etcd_list_zones_def dns_etcd_list_records_def dns_etcd_create_zone_def etcdZoneKey_def good_new
        split: sum.splits)
qed

lemma program_writes_rows: "call_valid c \<Longrightarrow> writes_rows (program c)"
  by (cases c) (simp_all add: writes_rows_quiet sched_writes_rows router_writes_rows lb_writes_rows dns_writes_rows)

section \<open>Every schedule\<close>

lemma pool_step_good:
  assumes "good_table db" and "list_all writes_rows ps" and "pool_step e (ps, db) = (ps', db')"
    and "case e of Begin c \<Rightarrow> call_valid c | _ \<Rightarrow> True"
  shows "good_table db' \<and> list_all writes_rows ps'"
proof -
  have at: "good_table d \<and> list_all writes_rows qs"
    if "pool_at i f (ps, db) = (qs, d)" "\<And>p. writes_rows p \<Longrightarrow> writes_rows (fst (f p db)) \<and> good_table (snd (f p db))" for i f qs d
    using that assms(1,2) by (auto simp: pool_at_def list_all_length nth_list_update split_beta split: if_splits)
  from assms(3,4) show ?thesis
  proof (cases e)
    case (Move i)
    with assms show ?thesis using writes_rows_step(1) by (intro at) auto
  next
    case (Fail i err took)
    with assms show ?thesis using writes_rows_step(2) by (intro at) auto
  next
    case (Stop i)
    with assms show ?thesis by (intro at) auto
  next
    case (Begin c)
    with assms program_writes_rows show ?thesis by auto
  qed
qed

lemma pool_run_good:
  "good_table db \<Longrightarrow> list_all writes_rows ps \<Longrightarrow> pool_run es (ps, db) = (ps', db') \<Longrightarrow>
   list_all (\<lambda>e. case e of Begin c \<Rightarrow> call_valid c | _ \<Rightarrow> True) es \<Longrightarrow> good_table db' \<and> list_all writes_rows ps'"
proof (induction es arbitrary: ps db)
  case (Cons e es)
  obtain qs d where step: "pool_step e (ps, db) = (qs, d)" by fastforce
  with Cons.prems pool_step_good [OF Cons.prems(1,2) step] show ?case
    by (intro Cons.IH [of d qs]) (auto simp: pool_run_def)
qed (simp add: pool_run_def)

text \<open>A good table, read as rows.\<close>

definition keyed_tables :: "kvdb \<Rightarrow> bool" where
  "keyed_tables db \<longleftrightarrow> wf_db db \<and> rows_ok sched_prefix unmarshal_rule rule_uuid db \<and>
     rows_ok etcdZonePrefix unmarshal_zone zone_uuid db \<and> rows_ok etcdRecordPrefix unmarshal_rec rec_uuid db \<and>
     rows_ok router_prefix unmarshal_router router_uuid db \<and> rows_ok lb_prefix unmarshal_lb lb_uuid db"

lemma rows_at_iff:
  assumes "wf_db db"
  shows "(\<forall>x \<in> set (db_kvs db). row_at pfx dec uid valid (kv_key x) (kv_val x)) \<longleftrightarrow>
    rows_ok pfx dec uid db \<and> all_rows valid (rows_of pfx dec db)"
proof -
  have "row_at pfx dec uid valid (kv_key x) (kv_val x)"
    if x: "x \<in> set (db_kvs db)" and "rows_ok pfx dec uid db" "all_rows valid (rows_of pfx dec db)" for x
  proof -
    have "rows_of pfx dec db u = dec (kv_val x)" if "kv_key x = pfx @ u" for u
      using in_db_lookup [OF assms x] that by (simp add: rows_of_def db_value_def)
    with that show ?thesis by (fastforce simp: row_at_def rows_ok_def all_rows_def)
  qed
  moreover have "all_rows valid (rows_of pfx dec db)" if "\<forall>x \<in> set (db_kvs db). row_at pfx dec uid valid (kv_key x) (kv_val x)"
    using that by (fastforce simp: all_rows_def rows_of_def db_value_def row_at_def split: option.splits dest: db_lookup_in)
  ultimately show ?thesis by (fastforce simp: row_at_def rows_ok_def)
qed

lemma good_table_iff: "good_table db \<longleftrightarrow> keyed_tables db \<and> net_valid (etcd_net db)"
proof (cases "wf_db db")
  case True
  show ?thesis
    by (simp only: good_table_def good_pair_def ball_conj_distrib rows_at_iff [OF True] keyed_tables_def net_valid_def
        etcd_net_sels dns_rows_of_def fst_conv snd_conv) blast
qed (simp add: good_table_def keyed_tables_def)

lemma keyed_net_ok: "keyed_tables db \<Longrightarrow> net_ok (etcd_net db)"
  by (simp add: keyed_tables_def net_ok_def dns_rows_of_def rule_codec.table_ok_rows zone_codec.table_ok_rows
      rec_codec.table_ok_rows router_codec.table_ok_rows lb_codec.table_ok_rows)

text \<open>
  C3. No schedule of replicas corrupts the store. Whatever operations any number of replicas start with
  rows that passed the checks, however their calls interleave, whichever calls fail (before or after
  their write took effect) and wherever replicas die: the shared table keeps decodable rows only, each under the key of
  its own uuid, all of them finite and all of them within the checks of the service.
\<close>

theorem replicas_never_corrupt:
  assumes "keyed_tables db" and "net_valid (etcd_net db)"
    and "list_all (\<lambda>e. case e of Begin c \<Rightarrow> call_valid c | _ \<Rightarrow> True) es"
    and "pool_run es ([], db) = (ps, db')"
  shows "keyed_tables db' \<and> net_ok (etcd_net db') \<and> net_valid (etcd_net db')"
  using pool_run_good [of db "[]" es ps db'] assms keyed_net_ok [of db'] by (simp add: good_table_iff)

definition demo_schedule :: "move list" where
  "demo_schedule = [Begin (ScCreateZone demo_zone_row), Move 0, Move 0, Begin (ScCreateRecord demo_record_row),
     Begin (ScDeleteZone ''01''), Move 1, Move 2, Move 1, Move 2, Fail 1 ''unavailable'' True, Stop 2]"

theorem replicas_never_corrupt_witness:
  "keyed_tables (snd (pool_run demo_schedule ([], db_empty)))"
proof -
  have "keyed_tables db_empty" "net_valid (etcd_net db_empty)"
    by (simp_all add: keyed_tables_def net_empty_valid)
  moreover have "list_all (\<lambda>e. case e of Begin c \<Rightarrow> call_valid c | _ \<Rightarrow> True) demo_schedule"
    by (simp add: demo_schedule_def zone_valid_def record_valid_def demo_zone_row_def demo_record_row_def validRecordTypes_def)
  ultimately show ?thesis using replicas_never_corrupt [of db_empty demo_schedule] by (metis prod.collapse)
qed

section \<open>Every operation ends\<close>

primrec within :: "'a etcd_prog \<Rightarrow> nat \<Rightarrow> bool" where
  "within (Done a) n \<longleftrightarrow> True"
| "within (Get k o' c) n \<longleftrightarrow> 0 < n \<and> (\<forall>r. within (c r) (n - 1))"
| "within (Put k v c) n \<longleftrightarrow> 0 < n \<and> (\<forall>r. within (c r) (n - 1))"
| "within (Del k c) n \<longleftrightarrow> 0 < n \<and> (\<forall>r. within (c r) (n - 1))"
| "within (Txn g ops c) n \<longleftrightarrow> 0 < n \<and> (\<forall>r. within (c r) (n - 1))"

lemma within_mono: "within p m \<Longrightarrow> m \<le> n \<Longrightarrow> within p n"
proof (induction p arbitrary: m n)
  case (Get k o' c)
  then show ?case by (auto intro: Get.IH [OF rangeI, of _ "m - 1"])
next
  case (Put k v c)
  then show ?case by (auto intro: Put.IH [OF rangeI, of _ "m - 1"])
next
  case (Del k c)
  then show ?case by (auto intro: Del.IH [OF rangeI, of _ "m - 1"])
next
  case (Txn g ops c)
  then show ?case by (auto intro: Txn.IH [OF rangeI, of _ "m - 1"])
qed simp

lemma within_bind: "within p m \<Longrightarrow> (\<And>a. within (f a) n) \<Longrightarrow> within (bind_prog p f) (m + n)"
proof (induction p arbitrary: m)
  case (Done a)
  then show ?case by (simp add: within_mono [of "f a" n])
next
  case (Get k o' c)
  then show ?case by (cases m) auto
next
  case (Put k v c)
  then show ?case by (cases m) auto
next
  case (Del k c)
  then show ?case by (cases m) auto
next
  case (Txn g ops c)
  then show ?case by (cases m) auto
qed

lemma within_quiet: "within p n \<Longrightarrow> within (quiet p) n"
  using within_bind [of p n "\<lambda>_. Done ()" 0] by (simp add: quiet_def)

lemma within_step:
  "within p n \<Longrightarrow> within (fst (pstep p db)) (n - 1)" "within p n \<Longrightarrow> within (fst (pfail e took p db)) (n - 1)"
  by (cases p; simp add: split_beta)+

lemma within_0: "within p 0 \<Longrightarrow> \<exists>a. p = Done a"
  by (cases p) simp_all

text \<open>The most calls an operation makes: a read, a scan and a write, or the attempts of a retry loop.\<close>

fun call_bound :: "store_call \<Rightarrow> nat" where
  "call_bound (ScCreateRule r) = 2"
| "call_bound (ScCreateZone z) = 2"
| "call_bound (ScDeleteZone u) = 2"
| "call_bound (ScCreateRecord q) = 3"
| "call_bound (ScDeleteRecord u) = 18"
| "call_bound (ScCreateRouter r) = 2"
| "call_bound (ScUpdateStatus st u) = 2"
| "call_bound (ScCreateLB l) = 2"
| "call_bound (ScSetBackends bs u) = 6"
| "call_bound _ = 1"

lemma program_within: "within (program c) (call_bound c)"
proof -
  note splits = sum.splits list.splits option.splits
  have loop: "within (lb_set_backends_loop n bs u) (2 * n)" for n bs u
    by (induction n) (auto simp: Let_def split: splits)
  have dec: "within (decrement_loop n k) (2 * n)" for n k
    by (induction n) (auto split: splits)
  have get: "within (dns_etcd_get_zone u) 1" "within (dns_etcd_get_record u) 1" "within (router_etcd_get u) 1" for u
    by (auto simp: dns_etcd_get_zone_def dns_etcd_get_record_def router_etcd_get_def split: splits)
  have "within (dns_etcd_create_record q) (1 + 2)" for q
    unfolding dns_etcd_create_record_def by (intro within_bind get) (auto simp: Let_def split: sum.splits)
  moreover have "within (dns_etcd_delete_record u) (1 + 17)" for u
    unfolding dns_etcd_delete_record_def
    using dec [of 8] by (intro within_bind get) (auto simp del: decrement_loop.simps split: sum.splits)
  moreover have "within (router_etcd_update_status st u) (1 + 1)" for st u
    unfolding router_etcd_update_status_def by (intro within_bind get) (auto split: sum.splits)
  moreover have "within (lb_etcd_set_backends bs u) 6" for bs u
    using loop [of 3 bs u] by (simp add: lb_etcd_set_backends_def max_attempts_def)
  ultimately show ?thesis
    using get
    by (cases c) (auto intro!: within_quiet simp: numeral_2_eq_2 numeral_3_eq_3 sched_etcd_list_def sched_etcd_create_def sched_etcd_delete_def sched_etcd_get_def
        dns_etcd_list_zones_def dns_etcd_create_zone_def dns_etcd_delete_zone_def dns_etcd_list_records_def
        router_etcd_list_def router_etcd_create_def router_etcd_delete_def
        lb_etcd_list_def lb_etcd_create_def lb_etcd_delete_def lb_etcd_get_def split: splits)
qed

fun moves :: "nat \<Rightarrow> move \<Rightarrow> bool" where
  "moves i (Move j) \<longleftrightarrow> j = i"
| "moves i (Fail j e took) \<longleftrightarrow> j = i"
| "moves i _ \<longleftrightarrow> False"

lemma pool_step_within:
  assumes "i < length ps" and "within (ps ! i) n" and "pool_step e (ps, db) = (ps', db')"
  shows "i < length ps' \<and> within (ps' ! i) (if moves i e then n - 1 else n)"
  using assms within_step [OF assms(2)]
  by (cases e) (auto simp: pool_at_def nth_list_update nth_append split_beta split: if_splits)

lemma pool_run_within:
  "i < length ps \<Longrightarrow> within (ps ! i) n \<Longrightarrow> pool_run es (ps, db) = (ps', db') \<Longrightarrow>
   i < length ps' \<and> within (ps' ! i) (n - length (filter (moves i) es))"
proof (induction es arbitrary: ps db n)
  case (Cons e es)
  obtain qs d where step: "pool_step e (ps, db) = (qs, d)" by fastforce
  note pool_step_within [OF Cons.prems(1,2) step]
  moreover have "pool_run es (qs, d) = (ps', db')" using Cons.prems(3) step by (simp add: pool_run_def)
  ultimately show ?case using Cons.IH [of qs] by (cases "moves i e") fastforce+
qed (simp add: pool_run_def)

text \<open>
  C31. Every store operation ends. In a pool of replicas, whatever the others do and whichever calls
  fail, an operation is over once it has made as many calls as its bound: one for a listing, a lookup
  or a plain deletion, two for a creation, a status update or the deletion of a zone, three for the
  creation of a record, six for the three attempts of \<open>SetBackends\<close> and eighteen for the deletion of a record
  with its eight attempts at the counter.
\<close>

theorem store_operations_end:
  assumes "i < length ps" and "ps ! i = program c" and "pool_run es (ps, db) = (ps', db')"
    and "call_bound c \<le> length (filter (moves i) es)"
  shows "ps' ! i = Done ()"
proof -
  have "within (ps' ! i) 0"
    using pool_run_within [OF assms(1) _ assms(3), of "call_bound c"] program_within [of c] assms(2,4) by simp
  then show ?thesis using within_0 by fastforce
qed

text \<open>Two replicas set the backends of one load balancer; the first loses its first attempt.\<close>

theorem store_operations_end_witness:
  "fst (pool_run [Move 0, Move 1, Move 1, Move 0, Move 0, Move 0, Fail 0 ''timeout'' True, Move 0]
     ([program (ScSetBackends [''a''] ''lb1''), program (ScSetBackends [''b''] ''lb1'')], lb_table_example)) ! 0 = Done ()"
  by (rule store_operations_end [where c = "ScSetBackends [''a''] ''lb1''", OF _ _ prod.collapse [symmetric]]) simp_all

section \<open>A lost count\<close>

text \<open>
  \<open>CreateRecord\<close> drops the error of its last write (the counter is best effort): when that call fails, or the replica dies before it, the record is
  stored (and the call that failed reports success), but the counter of the zone stays as it was, one short.
\<close>

theorem create_record_loses_count:
  assumes "dns_db_inv db" and "zone_rows db (rec_zone q) = Some z" and "rec_rows db (rec_uuid q) = None"
  shows "\<exists>p1 p2 q' db'. pstep (dns_etcd_create_record q) db = (p1, db) \<and> pstep p1 db = (p2, db') \<and>
    pfail e False p2 db' = (Done (Inr q'), db') \<and> zone_rows db' (rec_zone q) = Some z \<and>
    recs_in (rec_rows db') (rec_zone q) = insert (rec_uuid q) (recs_in (rec_rows db) (rec_zone q))"
proof -
  note inv = dns_db_invD [OF assms(1)]
  let ?q = "q\<lparr>rec_zone_name := zone_name z\<rparr>"
  let ?db = "db_apply [OpPut (etcdRecordPrefix @ rec_uuid q) (marshal_rec ?q)] db"
  obtain x where x: "db_lookup db (etcdZonePrefix @ rec_zone q) = Some x" "unmarshal_zone (kv_val x) = Some z"
    using assms(2) zone_codec.rows_Some by blast
  have look: "db_lookup db (etcdRecordPrefix @ rec_uuid q) = None"
    using assms(3) rec_codec.rows_None [OF inv(3)] by simp
  have "zone_rows ?db = zone_rows db" by (rule rows_of_put_other) (simp add: prefix_defs)
  moreover have "recs_in (rec_rows ?db) (rec_zone q) = insert (rec_uuid q) (recs_in (rec_rows db) (rec_zone q))"
    by (auto simp: rec_codec.rows_put recs_in_def)
  ultimately show ?thesis
    using x look assms(2)
    by (simp add: dns_etcd_create_record_def dns_etcd_get_zone_def etcdZoneKey_def etcdRecordKey_def db_txn_one rev_of_def Let_def)
qed

end
