(* ===== verification/Leader.thy ===== *)
theory Leader
  imports Store_Contract
begin

text \<open>
  The leader election: \<^verbatim>\<open>internal/leader\<close>. \<open>Run\<close> is a loop that waits for its surroundings (the etcd
  session and election, the context, a timer), so it is a state machine: what it waits for next, what
  arrives, and the calls it makes in answer. The sessions and the election of the etcd client are
  outside: their outcomes are the stimuli.
\<close>

section \<open>Construction\<close>

record ElectionOptions =
  el_key :: string
  el_identity :: string
  el_ttl :: int

text \<open>\<open>cli\<close> tells whether the client is there; the options come back with the default filled in.\<close>

definition leader_New :: "bool \<Rightarrow> ElectionOptions \<Rightarrow> (store_err, ElectionOptions) result" where
  "leader_New cli opts =
     (if \<not> cli then Inl (ErrMsg ''leader.New: nil etcd client'')
      else if el_key opts = [] then Inl (ErrMsg ''leader.New: empty Key'')
      else if el_identity opts = [] then Inl (ErrMsg ''leader.New: empty Identity'')
      else Inr (if el_ttl opts \<le> 0 then opts\<lparr>el_ttl := 10\<rparr> else opts))"

section \<open>The loop\<close>

datatype ctx_err = CtxCanceled | CtxDeadlineExceeded

text \<open>An error of the etcd client may wrap an error of the context, which \<open>errors.Is\<close> finds.\<close>

datatype run_err = CtxErr ctx_err | EtcdErr string

fun is_ctx :: "run_err \<Rightarrow> bool" where
  "is_ctx (CtxErr _) \<longleftrightarrow> True"
| "is_ctx (EtcdErr _) \<longleftrightarrow> False"

datatype phase = Head | NewSession | Campaign | Leading | Backoff | Returned run_err

datatype stimulus =
    CtxLive | CtxDone ctx_err
  | SessionFails run_err | SessionOpens
  | CampaignFails run_err | CampaignWon
  | SessionLost | Timer

datatype action = OpenSession | OnAcquire | OnLost | Resign | CancelLeaderCtx | CloseSession

text \<open>The error branch of \<open>Run\<close>, after \<open>runOnce\<close> has returned.\<close>

definition after_error :: "run_err \<Rightarrow> phase" where
  "after_error e = (if is_ctx e then Returned e else Backoff)"

text \<open>The deferred calls of \<open>runOnce\<close> run in reverse order: the leader context, then the session.\<close>

fun react :: "phase \<Rightarrow> stimulus \<Rightarrow> (action list \<times> phase) option" where
  "react Head CtxLive = Some ([], NewSession)"
| "react Head (CtxDone e) = Some ([], Returned (CtxErr e))"
| "react NewSession (SessionFails e) = Some ([], after_error e)"
| "react NewSession SessionOpens = Some ([OpenSession], Campaign)"
| "react Campaign (CampaignFails e) = Some ([CloseSession], after_error e)"
| "react Campaign CampaignWon = Some ([OnAcquire], Leading)"
| "react Leading SessionLost = Some ([OnLost, Resign, CancelLeaderCtx, CloseSession], Head)"
| "react Leading (CtxDone e) = Some ([OnLost, Resign, CancelLeaderCtx, CloseSession], Returned (CtxErr e))"
| "react Backoff (CtxDone e) = Some ([], Returned (CtxErr e))"
| "react Backoff Timer = Some ([], Head)"
| "react _ _ = None"

inductive runs :: "phase \<Rightarrow> stimulus list \<Rightarrow> action list \<Rightarrow> phase \<Rightarrow> bool" where
  runs_stop: "runs p [] [] p"
| runs_step: "react p s = Some (as, q) \<Longrightarrow> runs q ss bs r \<Longrightarrow> runs p (s # ss) (as @ bs) r"

code_pred (modes: i \<Rightarrow> i \<Rightarrow> o \<Rightarrow> o \<Rightarrow> bool) runs .

inductive_simps runs_Nil [simp]: "runs p [] as q"

inductive_cases runs_ConsE: "runs p (s # ss) as q"

inductive_simps runs_Cons: "runs p (s # ss) as q"

lemma runs_prefix:
  "runs p (ss @ ts) as q \<Longrightarrow> \<exists>bs cs r. runs p ss bs r \<and> runs r ts cs q \<and> as = bs @ cs"
proof (induction ss arbitrary: p as)
  case Nil
  then show ?case by (force intro: runs_stop)
next
  case (Cons s ss)
  then obtain bs r cs where "react p s = Some (bs, r)" "runs r (ss @ ts) cs q" "as = bs @ cs"
    by (auto elim: runs_ConsE)
  with Cons.IH [of r cs] show ?case by (force intro: runs_step)
qed

section \<open>What a run keeps\<close>

text \<open>A balance of two actions: how many more of the first than of the second have happened.\<close>

definition balance :: "action \<Rightarrow> action \<Rightarrow> action list \<Rightarrow> int" where
  "balance a b as = int (count_list as a) - int (count_list as b)"

lemma balance_append [simp]: "balance a b (as @ bs) = balance a b as + balance a b bs"
  by (simp add: balance_def)

definition leads :: "phase \<Rightarrow> int" where
  "leads p = (if p = Leading then 1 else 0)"

definition has_session :: "phase \<Rightarrow> int" where
  "has_session p = (if p = Campaign \<or> p = Leading then 1 else 0)"

lemma after_error_phase [simp]:
  "after_error e \<noteq> Leading" "after_error e \<noteq> Campaign" "after_error e \<noteq> Head"
  "after_error e = Returned x \<longleftrightarrow> x = e \<and> is_ctx e"
  by (auto simp: after_error_def)

lemma react_balance:
  "react p s = Some (as, q) \<Longrightarrow> balance OnAcquire OnLost as = leads q - leads p \<and>
    balance OpenSession CloseSession as = has_session q - has_session p \<and> balance OnLost CancelLeaderCtx as = 0"
  by (cases "(p, s)" rule: react.cases) (auto simp: balance_def leads_def has_session_def)

lemma runs_balance:
  assumes "runs p ss as q"
  shows "balance OnAcquire OnLost as = leads q - leads p"
    and "balance OpenSession CloseSession as = has_session q - has_session p"
    and "balance OnLost CancelLeaderCtx as = 0"
  using assms by (induction; simp add: balance_def [of _ _ "[]"] react_balance)+

lemma react_returned: "react p s = Some (as, Returned e) \<Longrightarrow> is_ctx e"
  by (cases "(p, s)" rule: react.cases) auto

lemma returned_stops: "react (Returned e) s = None"
  by (cases s) simp_all

lemma runs_returned: "runs p ss as q \<Longrightarrow> q = Returned e \<Longrightarrow> p = Returned e \<or> is_ctx e"
proof (induction rule: runs.induct)
  case (runs_step p s as q ss bs r)
  then show ?case using react_returned [of p s as e] by auto
qed simp

section \<open>Properties\<close>

text \<open>
  C19. The callbacks alternate: after any run of the loop, cut anywhere, \<open>onAcquire\<close> has been called as
  often as \<open>onLost\<close>, or once more exactly while the instance leads; at most one etcd session is open,
  and none once \<open>Run\<close> has returned; and every \<open>onLost\<close> comes with the end of the leader's context.
\<close>

theorem callbacks_alternate:
  assumes "runs Head ss as q"
  shows "balance OnAcquire OnLost as = (if q = Leading then 1 else 0) \<and>
    balance OpenSession CloseSession as = (if q = Campaign \<or> q = Leading then 1 else 0) \<and>
    count_list as OnLost = count_list as CancelLeaderCtx"
  using runs_balance [OF assms] by (simp add: leads_def has_session_def balance_def)

theorem callbacks_alternate_witness:
  "balance OnAcquire OnLost [OpenSession, OnAcquire, OnLost, Resign, CancelLeaderCtx, CloseSession, OpenSession, OnAcquire] = 1"
proof -
  have "runs Head [CtxLive, SessionOpens, CampaignWon, SessionLost, CtxLive, SessionOpens, CampaignWon]
      [OpenSession, OnAcquire, OnLost, Resign, CancelLeaderCtx, CloseSession, OpenSession, OnAcquire] Leading"
    by (simp add: runs_Cons)
  from callbacks_alternate [OF this] show ?thesis by simp
qed

text \<open>
  \<open>Run\<close> returns only errors of the context: whatever etcd answers, it goes on retrying, so the
  non-context error its comment announces for a closed client never comes.
\<close>

theorem run_returns_only_ctx_errors:
  assumes "runs Head ss as (Returned e)"
  shows "is_ctx e \<and> react (Returned e) s = None"
  using runs_returned [OF assms refl] returned_stops by simp

theorem run_returns_only_ctx_errors_witness:
  "is_ctx (CtxErr CtxCanceled) \<and> react (Returned (CtxErr CtxCanceled)) Timer = None"
proof (rule run_returns_only_ctx_errors)
  show "runs Head [CtxLive, SessionFails (EtcdErr ''closed''), Timer, CtxDone CtxCanceled] [] (Returned (CtxErr CtxCanceled))"
    by (simp add: runs_Cons after_error_def)
qed



end
