(* ===== verification/Tls_Util.thy ===== *)
theory Tls_Util
  imports Store_Contract
begin

text \<open>
  The TLS configuration: \<^verbatim>\<open>internal/tlsutil\<close>. The files on disk are a parameter that changes over time:
  what loading the certificate pair gives, what reading the client CA gives, and whether a CA
  bundle has a certificate in it. The loader caches one certificate; handshakes read the cache and
  SIGHUP reloads it.
\<close>

record TlsOptions =
  CertFile :: string
  KeyFile :: string
  ClientCAFile :: string

definition tls_Empty :: "TlsOptions \<Rightarrow> bool" where
  "tls_Empty o' \<longleftrightarrow> CertFile o' = [] \<and> KeyFile o' = [] \<and> ClientCAFile o' = []"

definition tls_Mode :: "TlsOptions \<Rightarrow> string" where
  "tls_Mode o' = (if tls_Empty o' then ''insecure'' else if ClientCAFile o' \<noteq> [] then ''mtls'' else ''tls'')"

text \<open>The disk: \<^verbatim>\<open>tls.LoadX509KeyPair\<close>, \<^verbatim>\<open>os.ReadFile\<close> and \<^verbatim>\<open>AppendCertsFromPEM\<close>.\<close>

record 'c disk =
  load_pair :: "string \<Rightarrow> string \<Rightarrow> (string, 'c) result"
  read_file :: "string \<Rightarrow> (string, string) result"
  has_pem :: "string \<Rightarrow> bool"

record 'c certLoader =
  certFile :: string
  keyFile :: string
  loaded :: "'c option"

definition getCertificate :: "'c certLoader \<Rightarrow> 'c option" where
  "getCertificate l = loaded l"

definition reload :: "'c disk \<Rightarrow> 'c certLoader \<Rightarrow> (store_err, unit) result \<times> 'c certLoader" where
  "reload d l = (case load_pair d (certFile l) (keyFile l) of
     Inl e \<Rightarrow> (Inl (ErrWrap (''reload tls cert/key from '' @ certFile l @ '' + '' @ keyFile l) e), l)
   | Inr cert \<Rightarrow> (Inr (), l\<lparr>loaded := Some cert\<rparr>))"

text \<open>
  What the server is configured with: the loader behind \<^verbatim>\<open>GetCertificate\<close>, and the CA bundle client
  certificates are required from and verified against, if any. The minimum version is TLS 1.2.
\<close>

record 'c tls_config =
  cfg_loader :: "'c certLoader"
  cfg_client_ca :: "string option"

definition client_ca :: "'c disk \<Rightarrow> string \<Rightarrow> (store_err, string option) result" where
  "client_ca d ca =
     (if ca = [] then Inr None
      else case read_file d ca of
        Inl e \<Rightarrow> Inl (ErrWrap (''read client-CA file '' @ ca) e)
      | Inr pem \<Rightarrow>
          if \<not> has_pem d pem then Inl (ErrMsg (''client-CA file '' @ ca @ '' contains no PEM-encoded certs''))
          else Inr (Some pem))"

text \<open>
  Both constructors load the pair twice (once to validate, once into the loader); \<open>d1\<close> and \<open>d2\<close> are
  the disk at the two reads.
\<close>

definition ServerCredentials :: "'c disk \<Rightarrow> 'c disk \<Rightarrow> TlsOptions \<Rightarrow> (store_err, 'c tls_config) result" where
  "ServerCredentials d1 d2 o' =
     (if CertFile o' = [] \<or> KeyFile o' = [] then Inl (ErrMsg ''tls : --tls-cert and --tls-key must be set together'')
      else case load_pair d1 (CertFile o') (KeyFile o') of
        Inl e \<Rightarrow> Inl (ErrWrap ''load tls cert/key'' e)
      | Inr _ \<Rightarrow>
          (case reload d2 \<lparr>certFile = CertFile o', keyFile = KeyFile o', loaded = None\<rparr> of
             (Inl e, _) \<Rightarrow> Inl e
           | (Inr _, loader) \<Rightarrow>
               (case client_ca d2 (ClientCAFile o') of
                  Inl e \<Rightarrow> Inl e
                | Inr ca \<Rightarrow> Inr \<lparr>cfg_loader = loader, cfg_client_ca = ca\<rparr>)))"

text \<open>The reloader that comes with the second constructor is \<open>reload\<close> on the same loader.\<close>

definition ServerCredentialsWithReloader :: "'c disk \<Rightarrow> 'c disk \<Rightarrow> TlsOptions \<Rightarrow> (store_err, 'c tls_config) result" where
  "ServerCredentialsWithReloader d1 d2 o' =
     (if tls_Empty o' then Inl (ErrMsg ''tls : no cert configured ; cannot create a reloader'')
      else if CertFile o' = [] \<or> KeyFile o' = [] then Inl (ErrMsg ''tls : --tls-cert and --tls-key must be set together'')
      else case load_pair d1 (CertFile o') (KeyFile o') of
        Inl e \<Rightarrow> Inl (ErrWrap ''load tls cert/key'' e)
      | Inr _ \<Rightarrow>
          (case reload d2 \<lparr>certFile = CertFile o', keyFile = KeyFile o', loaded = None\<rparr> of
             (Inl e, _) \<Rightarrow> Inl e
           | (Inr _, loader) \<Rightarrow>
               (case client_ca d2 (ClientCAFile o') of
                  Inl e \<Rightarrow> Inl e
                | Inr ca \<Rightarrow> Inr \<lparr>cfg_loader = loader, cfg_client_ca = ca\<rparr>)))"

definition Reload :: "'c disk \<Rightarrow> 'c tls_config \<Rightarrow> (store_err, unit) result \<times> 'c tls_config" where
  "Reload d cfg = (let (r, l) = reload d (cfg_loader cfg) in (r, cfg\<lparr>cfg_loader := l\<rparr>))"

text \<open>The signal loop: one reload per SIGHUP, on the disk as it is then; a failure is only logged.\<close>

definition on_hups :: "'c disk list \<Rightarrow> 'c tls_config \<Rightarrow> 'c tls_config" where
  "on_hups disks cfg = fold (\<lambda>d c. snd (Reload d c)) disks cfg"

section \<open>Lemmas\<close>

lemma credentials_ok:
  assumes "ServerCredentials d1 d2 o' = Inr cfg"
  shows "CertFile o' \<noteq> [] \<and> KeyFile o' \<noteq> []"
    and "load_pair d2 (CertFile o') (KeyFile o') = Inr (the (getCertificate (cfg_loader cfg)))"
    and "getCertificate (cfg_loader cfg) \<noteq> None"
    and "certFile (cfg_loader cfg) = CertFile o' \<and> keyFile (cfg_loader cfg) = KeyFile o'"
    and "cfg_client_ca cfg = None \<longleftrightarrow> ClientCAFile o' = []"
  using assms
  by (auto simp: ServerCredentials_def reload_def client_ca_def getCertificate_def split: if_splits sum.splits)

lemma credentials_with_reloader:
  "ServerCredentialsWithReloader d1 d2 o' = Inr cfg \<longleftrightarrow> ServerCredentials d1 d2 o' = Inr cfg"
  by (simp add: ServerCredentialsWithReloader_def ServerCredentials_def tls_Empty_def)

lemma Reload_sels:
  "certFile (cfg_loader (snd (Reload d cfg))) = certFile (cfg_loader cfg)"
  "keyFile (cfg_loader (snd (Reload d cfg))) = keyFile (cfg_loader cfg)"
  "cfg_client_ca (snd (Reload d cfg)) = cfg_client_ca cfg"
  "loaded (cfg_loader (snd (Reload d cfg))) =
     (case load_pair d (certFile (cfg_loader cfg)) (keyFile (cfg_loader cfg)) of
        Inl _ \<Rightarrow> loaded (cfg_loader cfg) | Inr c \<Rightarrow> Some c)"
  by (auto simp: Reload_def reload_def split: sum.splits)

text \<open>The last certificate that loads, or the one before.\<close>

fun last_good :: "string \<Rightarrow> string \<Rightarrow> 'c option \<Rightarrow> 'c disk list \<Rightarrow> 'c option" where
  "last_good cf kf c [] = c"
| "last_good cf kf c (d # ds) = last_good cf kf (case load_pair d cf kf of Inl _ \<Rightarrow> c | Inr x \<Rightarrow> Some x) ds"

lemma on_hups_sels:
  "certFile (cfg_loader (on_hups ds cfg)) = certFile (cfg_loader cfg)"
  "keyFile (cfg_loader (on_hups ds cfg)) = keyFile (cfg_loader cfg)"
  "cfg_client_ca (on_hups ds cfg) = cfg_client_ca cfg"
  "loaded (cfg_loader (on_hups ds cfg)) =
     last_good (certFile (cfg_loader cfg)) (keyFile (cfg_loader cfg)) (loaded (cfg_loader cfg)) ds"
  unfolding on_hups_def by (induction ds arbitrary: cfg) (simp_all add: Reload_sels split: sum.splits)

lemma last_good_Some: "c \<noteq> None \<Longrightarrow> last_good cf kf c ds \<noteq> None"
  by (induction ds arbitrary: c) (auto split: sum.splits)

section \<open>Properties\<close>

text \<open>
  C32. Once credentials exist, every handshake has a certificate, whatever happens to the files: after
  any sequence of SIGHUPs it is the one of the last reload that succeeded (the initial one if none
  did), and the requirement of client certificates never changes.
\<close>

theorem handshake_always_has_certificate:
  assumes "ServerCredentialsWithReloader d1 d2 o' = Inr cfg"
  shows "getCertificate (cfg_loader (on_hups ds cfg)) \<noteq> None \<and>
    getCertificate (cfg_loader (on_hups ds cfg)) =
      last_good (CertFile o') (KeyFile o') (getCertificate (cfg_loader cfg)) ds \<and>
    cfg_client_ca (on_hups ds cfg) = cfg_client_ca cfg"
  using credentials_ok [OF assms [unfolded credentials_with_reloader]]
  by (simp add: getCertificate_def on_hups_sels last_good_Some)

definition good_disk :: "nat \<Rightarrow> nat disk" where
  "good_disk n = \<lparr>load_pair = (\<lambda>_ _. Inr n), read_file = (\<lambda>_. Inr ''pem''), has_pem = (\<lambda>_. True)\<rparr>"

definition broken_disk :: "nat disk" where
  "broken_disk = \<lparr>load_pair = (\<lambda>_ _. Inl ''no such file''), read_file = (\<lambda>_. Inl ''no such file''), has_pem = (\<lambda>_. False)\<rparr>"

definition demo_tls :: "nat tls_config" where
  "demo_tls = \<lparr>cfg_loader = \<lparr>certFile = ''c'', keyFile = ''k'', loaded = Some 1\<rparr>, cfg_client_ca = None\<rparr>"

lemma demo_tls_built:
  "ServerCredentialsWithReloader (good_disk 1) (good_disk 1) \<lparr>CertFile = ''c'', KeyFile = ''k'', ClientCAFile = []\<rparr> = Inr demo_tls"
  by (simp add: ServerCredentialsWithReloader_def tls_Empty_def good_disk_def reload_def client_ca_def demo_tls_def)

theorem handshake_always_has_certificate_witness:
  "getCertificate (cfg_loader (on_hups [good_disk 2, broken_disk] demo_tls)) = Some 2"
  using handshake_always_has_certificate [OF demo_tls_built, of "[good_disk 2, broken_disk]"]
  by (simp add: good_disk_def broken_disk_def)

text \<open>
  Transport security is never silently weaker than asked for: credentials are only ever built for
  options whose mode is \<open>tls\<close> or \<open>mtls\<close>, and client certificates are required exactly in mode \<open>mtls\<close>;
  a client CA or a key without the certificate is an error, not plain text.
\<close>

theorem credentials_match_mode:
  assumes "ServerCredentialsWithReloader d1 d2 o' = Inr cfg"
  shows "tls_Mode o' = (if cfg_client_ca cfg = None then ''tls'' else ''mtls'') \<and> CertFile o' \<noteq> [] \<and> KeyFile o' \<noteq> []"
  using credentials_ok(1,5) [OF assms [unfolded credentials_with_reloader]]
  by (simp add: tls_Mode_def tls_Empty_def)

theorem credentials_match_mode_witness:
  "tls_Mode \<lparr>CertFile = ''c'', KeyFile = ''k'', ClientCAFile = []\<rparr> = ''tls''"
  using credentials_match_mode [OF demo_tls_built] by (simp add: demo_tls_def)

text \<open>
  The files are not read again at a handshake: after the certificate on disk has changed, the old one
  is served until a reload, and credentials built without a reloader serve it for good.
\<close>

theorem handshake_serves_cache:
  "getCertificate (cfg_loader demo_tls) = Some 1 \<and> load_pair (good_disk 2) ''c'' ''k'' = Inr 2 \<and>
   getCertificate (cfg_loader (snd (Reload (good_disk 2) demo_tls))) = Some 2"
  by (simp add: getCertificate_def demo_tls_def good_disk_def Reload_def reload_def)

end
