(* ===== verification/Telemetry.thy ===== *)
theory Telemetry
  imports Lifecycle
begin

text \<open>
  Metrics and tracing: \<^verbatim>\<open>internal/metrics\<close> and \<^verbatim>\<open>internal/tracing\<close>. The Prometheus vectors are maps from
  label values to numbers; the trace exporter is outside, given by what its construction and its
  shutdown return.
\<close>

section \<open>Metrics\<close>

text \<open>\<open>code_name\<close> is \<^verbatim>\<open>codes.Code.String\<close>.\<close>

fun code_name :: "grpc_code \<Rightarrow> string" where
  "code_name OK = ''OK''"
| "code_name Canceled = ''Canceled''"
| "code_name Unknown = ''Unknown''"
| "code_name InvalidArgument = ''InvalidArgument''"
| "code_name DeadlineExceeded = ''DeadlineExceeded''"
| "code_name NotFound = ''NotFound''"
| "code_name AlreadyExists = ''AlreadyExists''"
| "code_name PermissionDenied = ''PermissionDenied''"
| "code_name ResourceExhausted = ''ResourceExhausted''"
| "code_name FailedPrecondition = ''FailedPrecondition''"
| "code_name Aborted = ''Aborted''"
| "code_name OutOfRange = ''OutOfRange''"
| "code_name Unimplemented = ''Unimplemented''"
| "code_name Internal = ''Internal''"
| "code_name Unavailable = ''Unavailable''"
| "code_name DataLoss = ''DataLoss''"
| "code_name Unauthenticated = ''Unauthenticated''"

record Recorder =
  buildInfo :: "string \<times> string \<times> string \<Rightarrow> nat"
  rpcTotal :: "string \<times> string \<Rightarrow> nat"
  rpcDuration :: "string \<times> string \<Rightarrow> nat list"
  etcdConnected :: nat

definition metrics_New :: "string \<Rightarrow> string \<Rightarrow> string \<Rightarrow> Recorder" where
  "metrics_New version commit date =
     \<lparr>buildInfo = (\<lambda>_. 0)((version, commit, date) := 1), rpcTotal = (\<lambda>_. 0), rpcDuration = (\<lambda>_. []),
      etcdConnected = 0\<rparr>"

definition SetEtcdConnected :: "bool \<Rightarrow> Recorder \<Rightarrow> Recorder" where
  "SetEtcdConnected connected r = r\<lparr>etcdConnected := (if connected then 1 else 0)\<rparr>"

text \<open>
  The interceptor around a handler: \<open>code_of\<close> is \<^verbatim>\<open>status.Code\<close> of the handler's error and \<open>elapsed\<close> the
  time the handler took; the answer of the handler is passed on.
\<close>

definition UnaryInterceptor ::
  "('e \<Rightarrow> grpc_code) \<Rightarrow> nat \<Rightarrow> string \<Rightarrow> ('s \<Rightarrow> ('e, 'a) result \<times> 's) \<Rightarrow> 's \<times> Recorder \<Rightarrow> ('e, 'a) result \<times> 's \<times> Recorder" where
  "UnaryInterceptor code_of elapsed method handler = (\<lambda>(s, r).
     let (resp, s') = handler s;
         code = code_name (case resp of Inl e \<Rightarrow> code_of e | Inr _ \<Rightarrow> OK);
         key = (method, code) in
     (resp, s', r\<lparr>rpcTotal := (rpcTotal r)(key := rpcTotal r key + 1),
                  rpcDuration := (rpcDuration r)(key := rpcDuration r key @ [elapsed])\<rparr>))"

section \<open>Tracing\<close>

record TraceOptions =
  OTLPEndpoint :: string
  OTLPInsecure :: bool
  ServiceName :: string
  ServiceVersion :: string

text \<open>
  The exporter is built from the endpoint and the transport option; the provider takes the merged
  resource, or, when merging fails, the one with the two attributes alone.
\<close>

record trace_env =
  new_exporter :: "string \<Rightarrow> bool \<Rightarrow> (string, unit) result"
  merge_resource :: "string \<Rightarrow> string \<Rightarrow> (string, string list) result"
  provider_shutdown :: "(string, unit) result"
  exporter_shutdown :: "(string, unit) result"

datatype tracer = NoopTracer | SdkTracer "string list"

datatype shutdown_fn = NoopShutdown | FlushAndClose

definition trace_Init :: "trace_env \<Rightarrow> TraceOptions \<Rightarrow> (string, tracer \<times> shutdown_fn) result" where
  "trace_Init env o' =
     (if OTLPEndpoint o' = [] then Inr (NoopTracer, NoopShutdown)
      else case new_exporter env (OTLPEndpoint o') (OTLPInsecure o') of
        Inl e \<Rightarrow> Inl (''otlp exporter : '' @ e)
      | Inr _ \<Rightarrow>
          (let res = (case merge_resource env (ServiceName o') (ServiceVersion o') of
                Inl _ \<Rightarrow> [ServiceName o', ServiceVersion o'] | Inr r \<Rightarrow> r) in
           Inr (SdkTracer res, FlushAndClose)))"

text \<open>\<^verbatim>\<open>errors.Join\<close> keeps all the errors: both shutdowns run whatever the first returns.\<close>

definition run_shutdown :: "trace_env \<Rightarrow> shutdown_fn \<Rightarrow> string list" where
  "run_shutdown env f = (case f of
     NoopShutdown \<Rightarrow> []
   | FlushAndClose \<Rightarrow>
       (case provider_shutdown env of Inl e \<Rightarrow> [''tracer provider shutdown : '' @ e] | Inr _ \<Rightarrow> []) @
       (case exporter_shutdown env of Inl e \<Rightarrow> [''exporter shutdown : '' @ e] | Inr _ \<Rightarrow> []))"

section \<open>Lemmas\<close>

lemma code_name_inj [simp]: "code_name a = code_name b \<longleftrightarrow> a = b"
  by (cases a; cases b) simp_all

text \<open>A run of intercepted calls counts each once under its method and code, and changes no answer.\<close>

fun intercepted ::
  "('e \<Rightarrow> grpc_code) \<Rightarrow> (nat \<times> string \<times> ('s \<Rightarrow> ('e, 'a) result \<times> 's)) list \<Rightarrow> 's \<times> Recorder \<Rightarrow> ('e, 'a) result list \<times> 's \<times> Recorder" where
  "intercepted code_of [] sr = ([], sr)"
| "intercepted code_of ((t, m, h) # cs) sr =
     (let (r, sr1) = UnaryInterceptor code_of t m h sr; (rs, sr2) = intercepted code_of cs sr1 in (r # rs, sr2))"

fun plain_calls :: "(nat \<times> string \<times> ('s \<Rightarrow> ('e, 'a) result \<times> 's)) list \<Rightarrow> 's \<Rightarrow> ('e, 'a) result list \<times> 's" where
  "plain_calls [] s = ([], s)"
| "plain_calls ((t, m, h) # cs) s = (let (r, s1) = h s; (rs, s2) = plain_calls cs s1 in (r # rs, s2))"

definition labels :: "('e \<Rightarrow> grpc_code) \<Rightarrow> string list \<Rightarrow> ('e, 'a) result list \<Rightarrow> (string \<times> string) list" where
  "labels code_of ms rs = map2 (\<lambda>m r. (m, code_name (case r of Inl e \<Rightarrow> code_of e | Inr _ \<Rightarrow> OK))) ms rs"

lemma intercepted_run:
  "intercepted code_of cs (s, r) = (rs, s', r') \<Longrightarrow>
   plain_calls cs s = (rs, s') \<and>
   rpcTotal r' k = rpcTotal r k + count_list (labels code_of (map (fst \<circ> snd) cs) rs) k \<and>
   length (rpcDuration r' k) = length (rpcDuration r k) + count_list (labels code_of (map (fst \<circ> snd) cs) rs) k"
proof (induction cs arbitrary: s r rs)
  case Nil
  then show ?case by (simp add: labels_def)
next
  case (Cons c cs)
  obtain t m h where c: "c = (t, m, h)" by (cases c) auto
  obtain x s1 where h: "h s = (x, s1)" by fastforce
  define key where "key = (m, code_name (case x of Inl e \<Rightarrow> code_of e | Inr _ \<Rightarrow> OK))"
  define r1 where "r1 = r\<lparr>rpcTotal := (rpcTotal r)(key := rpcTotal r key + 1),
    rpcDuration := (rpcDuration r)(key := rpcDuration r key @ [t])\<rparr>"
  have step: "UnaryInterceptor code_of t m h (s, r) = (x, s1, r1)"
    by (simp add: UnaryInterceptor_def h key_def r1_def Let_def)
  obtain ys s2 r2 where rest: "intercepted code_of cs (s1, r1) = (ys, s2, r2)" by (metis prod_cases3)
  with Cons.prems c step have eqs: "rs = x # ys" "s' = s2" "r' = r2" by auto
  from Cons.IH [OF rest [folded eqs(2,3)]] show ?case
    unfolding c eqs(1) by (simp add: h labels_def key_def [symmetric] r1_def)
qed

section \<open>Properties\<close>

text \<open>
  The interceptor is transparent and counts exactly: a sequence of RPCs through it gives the same
  answers and final state as without it, and the counter of every method and code has grown by the
  number of calls of that method that ended with that code, with one latency sample each.
\<close>

theorem interceptor_counts_exactly:
  assumes "intercepted code_of cs (s, r) = (rs, s', r')"
  shows "plain_calls cs s = (rs, s') \<and>
    rpcTotal r' k = rpcTotal r k + count_list (labels code_of (map (fst \<circ> snd) cs) rs) k \<and>
    length (rpcDuration r' k) = length (rpcDuration r k) + count_list (labels code_of (map (fst \<circ> snd) cs) rs) k"
  by (rule intercepted_run [OF assms])

theorem interceptor_counts_exactly_witness:
  "rpcTotal (snd (snd (intercepted (\<lambda>_. NotFound) [(3, ''/m'', \<lambda>s. (Inr (), s)), (4, ''/m'', \<lambda>s. (Inl (), s))]
     ((), metrics_New ''v'' ''c'' ''d'')))) (''/m'', ''NotFound'') = 1"
proof -
  obtain rs u r' where run: "intercepted (\<lambda>_. NotFound) [(3, ''/m'', \<lambda>s. (Inr (), s)), (4, ''/m'', \<lambda>s. (Inl (), s))]
      ((), metrics_New ''v'' ''c'' ''d'') = (rs, u, r')"
    by (rule prod_cases3)
  from interceptor_counts_exactly [OF run, of "(''/m'', ''NotFound'')"] have "rs = [Inr (), Inl ()]"
    "rpcTotal r' (''/m'', ''NotFound'') = count_list (labels (\<lambda>_. NotFound) [''/m'', ''/m''] rs) (''/m'', ''NotFound'')"
    by (auto simp: metrics_New_def)
  then show ?thesis unfolding run by (simp add: labels_def)
qed

end
