(* ===== verification/Registration.thy ===== *)
theory Registration
  imports Fips_Feed Telemetry
begin

text \<open>
  Who serves which metrics. The recorder (\<^verbatim>\<open>internal/metrics\<close>) registers its collectors with a registry of
  its own and serves that registry on \<^verbatim>\<open>/metrics\<close>; the floating-IP package registers its collectors
  once, with the registry of the first call of \<open>Register\<close> or, from its instrumented functions, with the
  default registry of the process (\<^verbatim>\<open>internal/fips/metrics.go\<close>). A registry is the list of the names
  registered with it and, as the client library documents, refuses a name it has.
\<close>

section \<open>Registries\<close>

datatype registerer = DefaultRegisterer | RecorderRegistry

record registries =
  default_reg :: "string list"
  recorder_reg :: "string list"
  regOnce :: bool

fun reg_names :: "registerer \<Rightarrow> registries \<Rightarrow> string list" where
  "reg_names DefaultRegisterer rs = default_reg rs"
| "reg_names RecorderRegistry rs = recorder_reg rs"

fun set_names :: "registerer \<Rightarrow> string list \<Rightarrow> registries \<Rightarrow> registries" where
  "set_names DefaultRegisterer ns rs = rs\<lparr>default_reg := ns\<rparr>"
| "set_names RecorderRegistry ns rs = rs\<lparr>recorder_reg := ns\<rparr>"

definition reg_register :: "string \<Rightarrow> string list \<Rightarrow> (string, unit) result \<times> string list" where
  "reg_register c ns =
     (if c \<in> set ns then (Inl ''duplicate metrics collector registration attempted'', ns) else (Inr (), ns @ [c]))"

text \<open>Collectors one by one, until one is refused.\<close>

fun register_each :: "string list \<Rightarrow> string list \<Rightarrow> (string, unit) result \<times> string list" where
  "register_each [] ns = (Inr (), ns)"
| "register_each (c # cs) ns =
     (case reg_register c ns of
        (Inl e, ns') \<Rightarrow> (Inl e, ns')
      | (Inr _, ns') \<Rightarrow> register_each cs ns')"

section \<open>The recorder\<close>

definition recorder_collectors :: "string list" where
  "recorder_collectors =
     [''weft_network_build_info'', ''weft_network_rpc_total'', ''weft_network_rpc_duration_seconds'',
      ''weft_network_etcd_connected'']"

text \<open>\<open>New\<close> registers with a fresh registry and panics when a name is refused; \<open>Handler\<close> serves that registry.\<close>

definition recorder_registry :: "registries \<Rightarrow> (string, registries) result" where
  "recorder_registry rs =
     (case register_each recorder_collectors [] of
        (Inl e, _) \<Rightarrow> Inl e
      | (Inr _, ns) \<Rightarrow> Inr (rs\<lparr>recorder_reg := ns\<rparr>))"

definition Handler :: "registries \<Rightarrow> string list" where
  "Handler rs = reg_names RecorderRegistry rs"

section \<open>The floating-IP package\<close>

definition fips_collectors :: "string list" where
  "fips_collectors =
     [''weft_network_fips_index_entries'', ''weft_network_fips_subscriber_events_total'',
      ''weft_network_fips_poller_ticks_total'', ''weft_network_fips_poller_changes'']"

definition Register :: "registerer option \<Rightarrow> registries \<Rightarrow> (string, unit) result \<times> registries" where
  "Register r rs =
     (let reg = (case r of None \<Rightarrow> DefaultRegisterer | Some g \<Rightarrow> g) in
      if regOnce rs then (Inr (), rs)
      else
        let (res, ns) = register_each fips_collectors (reg_names reg rs) in
        (res, set_names reg ns (rs\<lparr>regOnce := True\<rparr>)))"

definition ensureRegistered :: "registries \<Rightarrow> registries" where
  "ensureRegistered rs = snd (Register (Some DefaultRegisterer) rs)"

text \<open>
  A process calls \<open>Register\<close> and, from every event handled, every tick of the poller and every refresh of
  the gauge, \<open>ensureRegistered\<close>.
\<close>

datatype reg_call = CallRegister "registerer option" | Instrumented

fun reg_step :: "reg_call \<Rightarrow> registries \<Rightarrow> registries" where
  "reg_step (CallRegister r) rs = snd (Register r rs)"
| "reg_step Instrumented rs = ensureRegistered rs"

fun goes_to :: "reg_call \<Rightarrow> registerer" where
  "goes_to (CallRegister (Some g)) = g"
| "goes_to _ = DefaultRegisterer"

section \<open>Lemmas\<close>

lemma register_each_new:
  "distinct cs \<Longrightarrow> set cs \<inter> set ns = {} \<Longrightarrow> register_each cs ns = (Inr (), ns @ cs)"
  by (induction cs arbitrary: ns) (auto simp: reg_register_def)

lemma fips_collectors_distinct: "distinct fips_collectors"
  by (simp add: fips_collectors_def)

lemma recorder_never_panics: "recorder_registry rs = Inr (rs\<lparr>recorder_reg := recorder_collectors\<rparr>)"
  by (simp add: recorder_registry_def recorder_collectors_def reg_register_def)

lemma once_done: "regOnce rs \<Longrightarrow> fold reg_step cs rs = rs"
proof (induction cs)
  case (Cons c cs)
  then have "reg_step c rs = rs" by (cases c) (simp_all add: Register_def ensureRegistered_def)
  with Cons show ?case by simp
qed simp

lemma first_step:
  assumes "\<not> regOnce rs" and "set fips_collectors \<inter> set (reg_names (goes_to c) rs) = {}"
  shows "reg_step c rs = set_names (goes_to c) (reg_names (goes_to c) rs @ fips_collectors) (rs\<lparr>regOnce := True\<rparr>)"
  using assms register_each_new [OF fips_collectors_distinct]
  by (cases c rule: goes_to.cases) (auto simp: Register_def ensureRegistered_def Let_def)

lemma once_set: "regOnce (set_names g ns rs) = regOnce rs"
  by (cases g) simp_all

section \<open>Properties\<close>



end
