(* ===== verification/Daemon.thy ===== *)
theory Daemon
  imports Server_Dispatch Status_Receiver Fips_Feed Leader Tls_Util Telemetry
begin

text \<open>
  The daemon: \<^verbatim>\<open>cmd/weft-network/main.go\<close>. The small functions of the file, the reactive loops that the
  leader starts, and \<open>run\<close> up to the point where the gRPC server accepts calls, as one function of the
  flags and of what the system calls, the dials and the disk answer.
\<close>

section \<open>Flags\<close>

definition parseListen :: "string \<Rightarrow> string \<times> string" where
  "parseListen s =
     (if has_prefix s ''unix://'' then (''unix'', trim_prefix s ''unix://'')
      else if has_prefix s ''tcp:'' then (''tcp'', trim_prefix s ''tcp:'')
      else if CHR ''/'' \<in> set s then (''unix'', s)
      else (''tcp'', s))"

definition parentDir :: "string \<Rightarrow> string" where
  "parentDir p = (case last_index_byte p (CHR ''/'') of Some i \<Rightarrow> take i p | None \<Rightarrow> ''.'')"

text \<open>The levels of \<^verbatim>\<open>slog\<close>, ordered; a logger drops the records below its level.\<close>

datatype Level = LevelDebug | LevelInfo | LevelWarn | LevelError

fun level_num :: "Level \<Rightarrow> int" where
  "level_num LevelDebug = - 4"
| "level_num LevelInfo = 0"
| "level_num LevelWarn = 4"
| "level_num LevelError = 8"

lemma level_num_inj: "level_num a = level_num b \<longleftrightarrow> a = b"
  by (cases a; cases b) simp_all

instantiation Level :: linorder
begin

definition less_eq_Level :: "Level \<Rightarrow> Level \<Rightarrow> bool" where
  "less_eq_Level a b \<longleftrightarrow> level_num a \<le> level_num b"

definition less_Level :: "Level \<Rightarrow> Level \<Rightarrow> bool" where
  "less_Level a b \<longleftrightarrow> level_num a < level_num b"

instance
  by standard (auto simp: less_eq_Level_def less_Level_def level_num_inj)

end

definition newLogger :: "string \<Rightarrow> Level" where
  "newLogger level =
     (let l = to_lower level in
      if l = ''debug'' then LevelDebug
      else if l \<in> {''warn'', ''warning''} then LevelWarn
      else if l = ''error'' then LevelError
      else LevelInfo)"

definition log_enabled :: "Level \<Rightarrow> Level \<Rightarrow> bool" where
  "log_enabled logger l \<longleftrightarrow> logger \<le> l"

section \<open>Republishing\<close>

fun routerStitchesNetwork :: "string list \<Rightarrow> string \<Rightarrow> bool" where
  "routerStitchesNetwork [] networkUUID = False"
| "routerStitchesNetwork (n # ns) networkUUID = (if n = networkUUID then True else routerStitchesNetwork ns networkUUID)"

fun publish_each :: "'w router_publisher \<Rightarrow> string \<Rightarrow> Router list \<Rightarrow> 'w \<Rightarrow> 'w" where
  "publish_each pub networkUUID [] w = w"
| "publish_each pub networkUUID (r # rs) w =
     (if \<not> routerStitchesNetwork (router_networks r) networkUUID then publish_each pub networkUUID rs w
      else publish_each pub networkUUID rs (snd (pub_publish pub r w)))"

definition republishRoutersOnNetworkChange ::
  "(Router, 'd) row_backend \<Rightarrow> 'w router_publisher \<Rightarrow> string \<Rightarrow> 'd \<times> 'w \<Rightarrow> 'd \<times> 'w" where
  "republishRoutersOnNetworkChange store pub networkUUID = (\<lambda>(d, w).
     case rb_list store [] d of
       (Inl e, d') \<Rightarrow> (d', w)
     | (Inr routers, d') \<Rightarrow> (d', publish_each pub networkUUID routers w))"

definition source_of_snapshot :: "FIPSnapshot \<Rightarrow> SourceFIP" where
  "source_of_snapshot s =
     \<lparr>src_uuid = snap_uuid s, src_address = snap_address s, src_network = snap_network s,
      src_project = snap_project s, src_mapped_to = snap_mapped_to s, src_status = snap_status s\<rparr>"

definition weftFIPSource :: "'w WeftClient \<Rightarrow> 'w \<Rightarrow> (lc_err, SourceFIP list) result \<times> 'w" where
  "weftFIPSource wc w = (case ListFloatingIPs wc w of
     (Inl e, w') \<Rightarrow> (Inl e, w')
   | (Inr snaps, w') \<Rightarrow> (Inr (map source_of_snapshot snaps), w'))"

section \<open>The election\<close>

text \<open>The endpoints are split but, unlike those of the stores, not trimmed.\<close>

definition runLeaderElection ::
  "(string list \<Rightarrow> (rpc_err, unit) result) \<Rightarrow> string \<Rightarrow> string \<Rightarrow> (store_err, ElectionOptions) result" where
  "runLeaderElection dial hostname etcdURL =
     (case dial (split_on (CHR '','') etcdURL) of
        Inl e \<Rightarrow> Inl (ErrWrap ''leader election : etcd dial failed'' e)
      | Inr _ \<Rightarrow>
          leader_New True \<lparr>el_key = ''/weft-network/leader'',
            el_identity = (if hostname = [] then ''weft-network'' else hostname), el_ttl = 10\<rparr>)"

section \<open>The reactive loops\<close>

text \<open>
  \<open>startFIPLoops\<close>: \<open>nats\<close> is the publisher when it is a NATS one, \<open>p\<close> the new index, \<open>seed\<close> the answer of
  the weft daemon when there is a client. When everything works out, the result has the publisher with
  the index in its slot, the index after the seed, and the networks the seed republishes.
\<close>

datatype ('c, 'p) loops =
    LoopsSkipped
  | LoopsFailed string
  | LoopsPanicked string
  | LoopsStarted "('c, 'p) NATS" feed "string list"

definition startFIPLoops ::
  "(string \<Rightarrow> (rpc_err, unit) result) \<Rightarrow> (string set \<Rightarrow> string list) \<Rightarrow> string \<Rightarrow> ('c, 'p) NATS option \<Rightarrow> 'p \<Rightarrow>
   ('w \<Rightarrow> (string, SourceFIP list) result \<times> 'w) option \<Rightarrow> 'w \<Rightarrow> ('c, 'p) loops \<times> 'w" where
  "startFIPLoops connect ord natsURL nats p seed w =
     (if natsURL = [] then (LoopsSkipped, w)
      else case nats of
        None \<Rightarrow> (LoopsSkipped, w)
      | Some n \<Rightarrow>
          (case connect natsURL of
             Inl e \<Rightarrow> (LoopsFailed e, w)
           | Inr _ \<Rightarrow>
               (case SetFIPLookup (Some (IndexRef p)) n of
                  (Inl e, n') \<Rightarrow> (LoopsPanicked (case e of GoPanic m \<Rightarrow> m | _ \<Rightarrow> []), w)
                | (Inr _, n') \<Rightarrow>
                    (case seed of
                       None \<Rightarrow> (LoopsStarted n' (index_new, metrics_new) [], w)
                     | Some source \<Rightarrow>
                         (let (src, w') = source w;
                              (seedErr, fired, feed) = Seed True ord src (index_new, metrics_new) in
                          (LoopsStarted n' feed fired, w'))))))"

section \<open>Startup\<close>

record runOpts =
  ro_listen :: string
  ro_metrics_addr :: string
  ro_etcd :: string
  ro_nats :: string
  ro_weft_socket :: string
  ro_router_image :: string
  ro_router_proj :: string
  ro_log_level :: string
  ro_tls :: TlsOptions
  ro_trace :: TraceOptions

text \<open>What the world outside answers while the daemon starts.\<close>

record ('d, 'w, 'c, 'p, 'k) surroundings =
  env_mkdir :: "string \<Rightarrow> (string, unit) result"
  env_bind :: "string \<Rightarrow> string \<Rightarrow> (string, unit) result"
  env_trace :: trace_env
  env_nats_connect :: "string \<Rightarrow> (rpc_err, 'c) result"
  env_nats_subscribe :: "string \<Rightarrow> (rpc_err, unit) result"
  env_weft_dial :: "string \<Rightarrow> (agent_err, 'w agentClient) result"
  env_etcd_dial :: "string list \<Rightarrow> (rpc_err, unit) result"
  env_memory :: "'d stores"
  env_etcd :: "'d stores"
  env_bus :: "'w bus"
  env_index :: "'p \<Rightarrow> string list \<Rightarrow> string list"
  env_new_index :: 'p
  env_ord :: "string set \<Rightarrow> string list"
  env_disk :: "'k disk"

text \<open>The daemon once it serves.\<close>

record ('d, 'w, 'c, 'p, 'k) daemon =
  dm_network :: string
  dm_logger :: Level
  dm_server :: "('d, 'w) Server"
  dm_nats :: "('c, 'p) NATS option"
  dm_weft :: "'w WeftClient option"
  dm_receiver :: "Receiver option"
  dm_loops :: "('c, 'p) loops option"
  dm_recorder :: Recorder
  dm_tls :: "'k tls_config option"
  dm_trace_shutdown :: shutdown_fn

datatype 'x startup = StartupError string store_err | Crashed string | Serving 'x

text \<open>The optional parts: absent when the flag is empty or the dial fails.\<close>

definition wire_publisher :: "('d, 'w, 'c, 'p, 'k) surroundings \<Rightarrow> runOpts \<Rightarrow> ('c, 'p) NATS option" where
  "wire_publisher env o' =
     (if ro_nats o' = [] then None
      else case NewNATS (env_nats_connect env) (ro_nats o') of Inl _ \<Rightarrow> None | Inr n \<Rightarrow> Some n)"

definition wire_lifecycle :: "('d, 'w, 'c, 'p, 'k) surroundings \<Rightarrow> runOpts \<Rightarrow> 'w WeftClient option" where
  "wire_lifecycle env o' =
     (if ro_weft_socket o' = [] then None
      else case NewWeftClient (env_weft_dial env) (ro_weft_socket o') (ro_router_image o') (ro_router_proj o') of
        Inl _ \<Rightarrow> None | Inr wc \<Rightarrow> Some wc)"

definition wire_receiver :: "('d, 'w, 'c, 'p, 'k) surroundings \<Rightarrow> runOpts \<Rightarrow> Receiver option" where
  "wire_receiver env o' =
     (if ro_nats o' = [] then None
      else case receiver_New (ro_nats o') True of
        Inl _ \<Rightarrow> None
      | Inr r \<Rightarrow>
          (case receiver_Start (\<lambda>u. map_sum id (\<lambda>_. ()) (env_nats_connect env u)) (env_nats_subscribe env) r of
             (Inl _, _) \<Rightarrow> None | (Inr _, r') \<Rightarrow> Some r'))"

definition nats_object :: "('d, 'w, 'c, 'p, 'k) surroundings \<Rightarrow> ('c, 'p) NATS \<Rightarrow> 'w router_publisher" where
  "nats_object env n = \<lparr>pub_publish = Publish_NATS (env_index env) (env_bus env) n, pub_withdraw = nats_withdraw (env_bus env)\<rparr>"

definition wire_server :: "('d, 'w, 'c, 'p, 'k) surroundings \<Rightarrow> runOpts \<Rightarrow> ('d, 'w) Server" where
  "wire_server env o' = New (env_memory env) (\<lambda>_. env_etcd env) (env_etcd_dial env)
     \<lparr>opt_etcd_url = ro_etcd o', opt_stores = None,
      opt_publisher = map_option (nats_object env) (wire_publisher env o'),
      opt_lifecycle = map_option weft_lifecycle (wire_lifecycle env o')\<rparr>"

definition wire_tls :: "('d, 'w, 'c, 'p, 'k) surroundings \<Rightarrow> runOpts \<Rightarrow> (store_err, 'k tls_config option) result" where
  "wire_tls env o' =
     (if \<not> tls_Empty (ro_tls o') then
        (case ServerCredentialsWithReloader (env_disk env) (env_disk env) (ro_tls o') of
           Inl e \<Rightarrow> Inl e | Inr cfg \<Rightarrow> Inr (Some cfg))
      else Inr None)"

definition wire_trace :: "('d, 'w, 'c, 'p, 'k) surroundings \<Rightarrow> runOpts \<Rightarrow> shutdown_fn" where
  "wire_trace env o' = (case trace_Init (env_trace env) (ro_trace o') of Inl _ \<Rightarrow> NoopShutdown | Inr (_, f) \<Rightarrow> f)"

text \<open>
  With etcd the loops wait for the election, which runs beside the server; without, they start at
  once. A publisher that got the index is the one the server goes on using, and the networks the seed
  fired are republished.
\<close>

fun lc_text :: "lc_err \<Rightarrow> string" where
  "lc_text (LcWrap what e) = what @ '': '' @ snd e"
| "lc_text (LcMsg m) = m"

definition wire_loops :: "('d, 'w, 'c, 'p, 'k) surroundings \<Rightarrow> runOpts \<Rightarrow> 'w \<Rightarrow> ('c, 'p) loops \<times> 'w" where
  "wire_loops env o' =
     startFIPLoops (\<lambda>u. map_sum id (\<lambda>_. ()) (env_nats_connect env u)) (env_ord env) (ro_nats o')
       (wire_publisher env o') (env_new_index env)
       (map_option (\<lambda>wc w. apfst (map_sum lc_text id) (weftFIPSource wc w)) (wire_lifecycle env o'))"

definition apply_loops ::
  "('d, 'w, 'c, 'p, 'k) surroundings \<Rightarrow> ('c, 'p) loops \<Rightarrow> ('d, 'w) Server \<times> 'd \<times> 'w \<Rightarrow> ('d, 'w) Server \<times> 'd \<times> 'w" where
  "apply_loops env l = (\<lambda>(sv, s). case l of
     LoopsStarted n feed fired \<Rightarrow>
       (sv\<lparr>srv_publisher := nats_object env n\<rparr>,
        fold (republishRoutersOnNetworkChange (fst (RouterStore sv)) (nats_object env n)) fired s)
   | _ \<Rightarrow> (sv, s))"

definition run_daemon ::
  "('d, 'w, 'c, 'p, 'k) surroundings \<Rightarrow> runOpts \<Rightarrow> 'd \<times> 'w \<Rightarrow> ('d, 'w, 'c, 'p, 'k) daemon startup \<times> 'd \<times> 'w" where
  "run_daemon env o' s =
     (let (network, addr) = parseListen (ro_listen o');
          dir = (if network = ''unix'' then env_mkdir env (parentDir addr) else Inr ()) in
      case dir of
        Inl e \<Rightarrow> (StartupError (''mkdir parent of '' @ addr) (ErrMsg e), s)
      | Inr _ \<Rightarrow>
          (case env_bind env network addr of
             Inl e \<Rightarrow> (StartupError (''listen '' @ network @ ''://'' @ addr) (ErrMsg e), s)
           | Inr _ \<Rightarrow>
               (let sv = wire_server env o';
                    (d, w) = snd (ResyncRouters sv s);
                    (loops, w1) = (if ro_etcd o' \<noteq> [] then (None, w) else apfst Some (wire_loops env o' w));
                    s1 = (d, w1) in
                case loops of
                  Some (LoopsPanicked m) \<Rightarrow> (Crashed m, s1)
                | _ \<Rightarrow>
                    (let (sv', s2) = (case loops of None \<Rightarrow> (sv, s1) | Some l \<Rightarrow> apply_loops env l (sv, s1)) in
                     case wire_tls env o' of
                       Inl e \<Rightarrow> (StartupError ''tls'' e, s2)
                     | Inr tls \<Rightarrow>
                         (Serving \<lparr>dm_network = network, dm_logger = newLogger (ro_log_level o'), dm_server = sv',
                            dm_nats = wire_publisher env o', dm_weft = wire_lifecycle env o',
                            dm_receiver = wire_receiver env o', dm_loops = loops,
                            dm_recorder = SetEtcdConnected (ro_etcd o' \<noteq> []) (metrics_New ''dev'' ''none'' ''unknown''),
                            dm_tls = tls, dm_trace_shutdown = wire_trace env o'\<rparr>, s2)))))"

end
