(* ===== verification/Daemon_Properties.thy ===== *)
theory Daemon_Properties
  imports Daemon Server_Properties Publisher_Properties
begin

text \<open>
  The properties of the daemon: what its startup can fail on, what happens to it when the floating-IP
  loops start, what a change of a network republishes, and how the flags are read.
\<close>

section \<open>Lemmas\<close>

lemma stitches_iff: "routerStitchesNetwork ns n \<longleftrightarrow> n \<in> set ns"
  by (induction ns) auto

lemma publish_each_fold:
  "publish_each pub n rs w =
     fold (\<lambda>r w. snd (pub_publish pub r w)) (filter (\<lambda>r. n \<in> set (router_networks r)) rs) w"
  by (induction rs arbitrary: w) (simp_all add: stitches_iff)

lemma NewNATS_slot: "NewNATS connect url = Inr n \<Longrightarrow> url \<noteq> [] \<and> nats_fips n = Some NoopFIPLookup \<and> (\<exists>c. connect url = Inr c)"
  by (auto simp: NewNATS_def atomic_store_def split: if_splits sum.splits)

lemma loops_panic:
  assumes "slot_reachable conn n" and "url \<noteq> []" and "connect url = Inr ()"
  shows "startFIPLoops connect ord url (Some n) p seed w =
    (LoopsPanicked ''sync/atomic: store of inconsistently typed value into Value'', w)"
  using slot_holds_noop [OF assms(1)] assms(2,3)
  by (simp add: startFIPLoops_def SetFIPLookup_def atomic_store_def)

lemma wire_loops_panic:
  fixes env :: "('d, 'w, 'c, 'p, 'k) surroundings"
  assumes "ro_nats o' \<noteq> []" and "env_nats_connect env (ro_nats o') = Inr c"
  shows "wire_loops env o' w = (LoopsPanicked ''sync/atomic: store of inconsistently typed value into Value'', w)"
proof -
  obtain n :: "('c, 'p) NATS" where n: "NewNATS (env_nats_connect env) (ro_nats o') = Inr n" using assms by (simp add: NewNATS_def)
  then have "wire_publisher env o' = Some n" using assms(1) by (simp add: wire_publisher_def)
  then show ?thesis
    unfolding wire_loops_def using assms by (simp add: loops_panic [OF slot_new [OF n]])
qed

section \<open>The floating-IP loops\<close>

text \<open>
  C24. The daemon cannot run with NATS: with a NATS URL that connects and no etcd, \<open>run\<close> crashes on
  every input that gets as far as the loops, before the gRPC server serves a call; with etcd, the same panic
  comes when the instance is elected, whatever it has done until then.
\<close>

theorem nats_daemon_crashes:
  assumes "ro_nats o' \<noteq> []" and "env_nats_connect env (ro_nats o') = Inr c"
    and "env_mkdir env (parentDir (snd (parseListen (ro_listen o')))) = Inr ()"
    and "case_prod (env_bind env) (parseListen (ro_listen o')) = Inr ()"
  shows "(if ro_etcd o' = []
      then fst (run_daemon env o' s) = Crashed ''sync/atomic: store of inconsistently typed value into Value''
      else fst (wire_loops env o' w) = LoopsPanicked ''sync/atomic: store of inconsistently typed value into Value'')"
proof -
  obtain net addr where p: "parseListen (ro_listen o') = (net, addr)" by fastforce
  obtain d w' where r: "snd (ResyncRouters (wire_server env o') s) = (d, w')" by fastforce
  have dir: "(if net = ''unix'' then env_mkdir env (parentDir addr) else Inr ()) = Inr ()" using assms(3) p by simp
  have bind: "env_bind env net addr = Inr ()" using assms(4) p by simp
  show ?thesis
    unfolding run_daemon_def Let_def p prod.case dir sum.case bind r wire_loops_panic [OF assms(1,2)]
    by simp
qed

definition demo_env :: "(mem_world, (string \<times> string) set, unit, unit, nat) surroundings" where
  "demo_env = \<lparr>env_mkdir = (\<lambda>d. if d = [] then Inl ''no such file or directory'' else Inr ()), env_bind = (\<lambda>_ _. Inr ()),
     env_trace = \<lparr>new_exporter = (\<lambda>_ _. Inr ()), merge_resource = (\<lambda>n v. Inr [n, v]), provider_shutdown = Inr (),
       exporter_shutdown = Inr ()\<rparr>,
     env_nats_connect = (\<lambda>_. Inr ()), env_nats_subscribe = (\<lambda>_. Inr ()), env_weft_dial = (\<lambda>_. Inr set_agent),
     env_etcd_dial = (\<lambda>_. Inl ''context deadline exceeded''), env_memory = mem_stores no_orders, env_etcd = mem_stores no_orders,
     env_bus = \<lparr>bus_publish = (\<lambda>_ _ s. (Inr (), s)), bus_flush = (\<lambda>s. (Inr (), s))\<rparr>, env_index = (\<lambda>_ _. []),
     env_new_index = (), env_ord = sorted_list_of_set, env_disk = broken_disk\<rparr>"

definition demo_opts :: runOpts where
  "demo_opts = \<lparr>ro_listen = ''unix:///run/w.sock'', ro_metrics_addr = [], ro_etcd = [], ro_nats = [], ro_weft_socket = [],
     ro_router_image = [], ro_router_proj = [], ro_log_level = ''info'',
     ro_tls = \<lparr>CertFile = [], KeyFile = [], ClientCAFile = []\<rparr>,
     ro_trace = \<lparr>OTLPEndpoint = [], OTLPInsecure = True, ServiceName = ''weft-network'', ServiceVersion = ''dev''\<rparr>\<rparr>"

lemma demo_listen: "parseListen ''unix:///run/w.sock'' = (''unix'', ''/run/w.sock'')" "parentDir ''/run/w.sock'' = ''/run''"
  by (simp_all add: parseListen_def has_prefix_def trim_prefix_def parentDir_def)

theorem nats_daemon_crashes_witness:
  "fst (run_daemon demo_env (demo_opts\<lparr>ro_nats := ''nats://n''\<rparr>) (mem_new, {})) =
     Crashed ''sync/atomic: store of inconsistently typed value into Value''"
  using nats_daemon_crashes [of "demo_opts\<lparr>ro_nats := ''nats://n''\<rparr>" demo_env "()" "(mem_new, {})" "{}"]
  by (simp add: demo_env_def demo_opts_def demo_listen)

section \<open>Startup\<close>


text \<open>A socket in the root directory is one of the failing inputs: its parent is computed as the empty path.\<close>

lemma root_socket: "parseListen ''unix:///w.sock'' = (''unix'', ''/w.sock'')" "parentDir ''/w.sock'' = []"
  by (simp_all add: parseListen_def has_prefix_def trim_prefix_def parentDir_def)


text \<open>
  The gauge of the etcd connection follows the flag, not the connection: when the dial fails, the
  daemon serves from memory and reports that it is connected to etcd.
\<close>

theorem etcd_gauge_wrong_on_fallback:
  assumes "fst (run_daemon env o' s) = Serving dm" and "ro_etcd o' \<noteq> []"
    and "env_etcd_dial env (etcd_endpoints (ro_etcd o')) = Inl err"
  shows "etcdConnected (dm_recorder dm) = 1 \<and> srv_stores (dm_server dm) = env_memory env \<and> \<not> srv_etcd (dm_server dm)"
proof -
  obtain net addr where p: "parseListen (ro_listen o') = (net, addr)" by fastforce
  obtain d w where r: "snd (ResyncRouters (wire_server env o') s) = (d, w)" by fastforce
  have dm: "dm_server dm = wire_server env o' \<and> etcdConnected (dm_recorder dm) = 1"
    using assms(1,2) unfolding run_daemon_def Let_def p prod.case r
    by (auto simp: SetEtcdConnected_def split: if_splits sum.splits)
  moreover have "srv_stores (wire_server env o') = env_memory env \<and> \<not> srv_etcd (wire_server env o')"
    using assms(2,3) by (simp add: wire_server_def New_def newEtcdClient_def)
  ultimately show ?thesis by simp
qed

theorem etcd_gauge_wrong_on_fallback_witness:
  "\<exists>dm. fst (run_daemon demo_env (demo_opts\<lparr>ro_etcd := ''web''\<rparr>) (mem_new, {})) = Serving dm \<and>
     etcdConnected (dm_recorder dm) = 1 \<and> \<not> srv_etcd (dm_server dm)"
proof -
  let ?o = "demo_opts\<lparr>ro_etcd := ''web''\<rparr>"
  obtain d w where r: "snd (ResyncRouters (wire_server demo_env ?o) (mem_new, {})) = (d, w)" by fastforce
  have p: "parseListen (ro_listen ?o) = (''unix'', ''/run/w.sock'')" by (simp add: demo_opts_def demo_listen)
  have dir: "(if ''unix'' = ''unix'' then env_mkdir demo_env (parentDir ''/run/w.sock'') else Inr ()) = Inr ()"
    and bind: "env_bind demo_env ''unix'' ''/run/w.sock'' = Inr ()" by (simp_all add: demo_env_def demo_listen)
  have "wire_tls demo_env ?o = Inr None" "ro_etcd ?o \<noteq> []" by (simp_all add: wire_tls_def demo_opts_def tls_Empty_def)
  then have "\<exists>dm. fst (run_daemon demo_env ?o (mem_new, {})) = Serving dm"
    unfolding run_daemon_def Let_def p prod.case dir sum.case bind r by simp
  then obtain dm where dm: "fst (run_daemon demo_env ?o (mem_new, {})) = Serving dm" by blast
  have "env_etcd_dial demo_env (etcd_endpoints (ro_etcd ?o)) = Inl ''context deadline exceeded''" by (simp add: demo_env_def)
  from etcd_gauge_wrong_on_fallback [OF dm _ this] dm show ?thesis by (auto simp: demo_opts_def)
qed

section \<open>Republishing\<close>

text \<open>
  A change of a network publishes every router that stitches it, once each and in the order of the
  listing, and no other, whatever the publishes return; when the listing fails nothing is published.
\<close>

theorem republish_exactly_stitching:
  "republishRoutersOnNetworkChange store pub n (d, w) =
     (case rb_list store [] d of
        (Inl e, d') \<Rightarrow> (d', w)
      | (Inr rs, d') \<Rightarrow> (d', fold (\<lambda>r w. snd (pub_publish pub r w)) (filter (\<lambda>r. n \<in> set (router_networks r)) rs) w))"
  by (simp add: republishRoutersOnNetworkChange_def publish_each_fold split: prod.split sum.split)

section \<open>Flags\<close>

text \<open>
  The listen address: both schemes are stripped, a bare path is a Unix socket, anything else TCP;
  and the directory made for a socket is the one it is in.
\<close>

theorem listen_address_roundtrip:
  assumes "CHR ''/'' \<notin> set base"
  shows "parseListen (''unix://'' @ p) = (''unix'', p) \<and> parseListen (''tcp:'' @ a) = (''tcp'', a) \<and>
    parentDir (dir @ ''/'' @ base) = dir \<and> parseListen (CHR ''/'' # p) = (''unix'', CHR ''/'' # p)"
proof -
  have "last_index_byte (dir @ CHR ''/'' # base) (CHR ''/'') = Some (length dir)" by (rule last_index_byte_split [OF assms])
  then have "parentDir (dir @ ''/'' @ base) = dir" by (simp add: parentDir_def)
  moreover have "\<not> has_prefix (''tcp:'' @ a) ''unix://''" "\<not> has_prefix (CHR ''/'' # p) ''unix://''" "\<not> has_prefix (CHR ''/'' # p) ''tcp:''"
    by (simp_all add: has_prefix_def)
  moreover have "has_prefix (''unix://'' @ p) ''unix://''" "has_prefix (''tcp:'' @ a) ''tcp:''"
    "trim_prefix (''unix://'' @ p) ''unix://'' = p" "trim_prefix (''tcp:'' @ a) ''tcp:'' = a"
    by (rule has_prefix_append trim_prefix_append)+
  ultimately show ?thesis unfolding parseListen_def by simp
qed

theorem listen_address_roundtrip_witness:
  "parentDir ''/run/w.sock'' = ''/run''"
  using listen_address_roundtrip [of "''w.sock''" _ _ "''/run''"] by simp

text \<open>The endpoints of the election keep the spaces that those of the stores lose.\<close>

theorem election_endpoints_untrimmed:
  "etcd_endpoints ''ab, ab'' = [''ab'', ''ab''] \<and>
   runLeaderElection (\<lambda>es. if es = [''ab'', ''ab''] then Inr () else Inl ''bad endpoint'') ''h'' ''ab, ab'' =
     Inl (ErrWrap ''leader election : etcd dial failed'' ''bad endpoint'')"
proof -
  have "trim_space '' ab'' = ''ab''" by code_simp
  then show ?thesis by (simp add: etcd_endpoints_def runLeaderElection_def)
qed

text \<open>A logger of level \<open>warn\<close> drops what one of level \<open>info\<close> keeps.\<close>

lemma log_levels: "log_enabled (newLogger ''bogus'') LevelInfo" "\<not> log_enabled (newLogger ''warn'') LevelInfo"
  "l \<le> l' \<Longrightarrow> log_enabled k l \<Longrightarrow> log_enabled k l'"
proof -
  have "to_lower ''bogus'' = ''bogus''" "to_lower ''warn'' = ''warn''" by (simp_all add: lower_char_def)
  then show "log_enabled (newLogger ''bogus'') LevelInfo" "\<not> log_enabled (newLogger ''warn'') LevelInfo"
    by (simp_all add: newLogger_def log_enabled_def less_eq_Level_def)
  show "l \<le> l' \<Longrightarrow> log_enabled k l \<Longrightarrow> log_enabled k l'" by (simp add: log_enabled_def)
qed

end
