(* ===== verification/Command.thy ===== *)
theory Command
  imports Daemon_Properties
begin

text \<open>
  The command line: \<open>newRootCmd\<close> and \<open>main\<close> of \<^verbatim>\<open>cmd/weft-network/main.go\<close>. The flags are declared with a
  name, a default and the variable they set; \<open>RunE\<close> copies the variables into the options of \<open>run\<close>. How
  the arguments are split into flags and values is the flag library's: \<open>parse\<close> is a parameter. What is read of the
  library is its documentation: declaring a flag stores the default in the variable, and each occurrence stores its value.
\<close>

section \<open>Flags\<close>

datatype flag_val = FStr string | FBool bool

fun str_of :: "flag_val \<Rightarrow> string" where
  "str_of (FStr s) = s"
| "str_of (FBool b) = []"

fun bool_of :: "flag_val \<Rightarrow> bool" where
  "bool_of (FBool b) = b"
| "bool_of (FStr s) = False"

record flag_vars =
  v_listen :: string
  v_metricsAddr :: string
  v_etcdURL :: string
  v_natsURL :: string
  v_weftSocket :: string
  v_routerImage :: string
  v_routerProj :: string
  v_logLevel :: string
  v_tlsCertFile :: string
  v_tlsKeyFile :: string
  v_clientCAFile :: string
  v_otlpEndpoint :: string
  v_otlpInsecure :: bool

definition vars_zero :: flag_vars where
  "vars_zero = \<lparr>v_listen = [], v_metricsAddr = [], v_etcdURL = [], v_natsURL = [], v_weftSocket = [], v_routerImage = [],
     v_routerProj = [], v_logLevel = [], v_tlsCertFile = [], v_tlsKeyFile = [], v_clientCAFile = [], v_otlpEndpoint = [],
     v_otlpInsecure = False\<rparr>"

record flag =
  fl_name :: string
  fl_default :: flag_val
  fl_set :: "flag_val \<Rightarrow> flag_vars \<Rightarrow> flag_vars"

definition StringVar :: "((string \<Rightarrow> string) \<Rightarrow> flag_vars \<Rightarrow> flag_vars) \<Rightarrow> string \<Rightarrow> string \<Rightarrow> flag" where
  "StringVar upd name value = \<lparr>fl_name = name, fl_default = FStr value, fl_set = (\<lambda>v. upd (\<lambda>_. str_of v))\<rparr>"

definition BoolVar :: "((bool \<Rightarrow> bool) \<Rightarrow> flag_vars \<Rightarrow> flag_vars) \<Rightarrow> string \<Rightarrow> bool \<Rightarrow> flag" where
  "BoolVar upd name value = \<lparr>fl_name = name, fl_default = FBool value, fl_set = (\<lambda>v. upd (\<lambda>_. bool_of v))\<rparr>"

text \<open>\<open>otlp\<close> is the value of \<^verbatim>\<open>$WEFT_NETWORK_OTLP_ENDPOINT\<close>.\<close>

definition newRootCmd :: "string \<Rightarrow> flag list" where
  "newRootCmd otlp =
     [StringVar v_listen_update ''listen'' ''unix:///var/run/weft-network/weft-network.sock'',
      StringVar v_metricsAddr_update ''metrics-addr'' '':9100'',
      StringVar v_etcdURL_update ''etcd'' [],
      StringVar v_natsURL_update ''nats'' [],
      StringVar v_weftSocket_update ''weft-socket'' [],
      StringVar v_routerImage_update ''router-image'' ''ghcr.io/openweft/weft-router:latest'',
      StringVar v_routerProj_update ''router-project'' ''platform'',
      StringVar v_logLevel_update ''log-level'' ''info'',
      StringVar v_tlsCertFile_update ''tls-cert'' [],
      StringVar v_tlsKeyFile_update ''tls-key'' [],
      StringVar v_clientCAFile_update ''client-ca'' [],
      StringVar v_otlpEndpoint_update ''otlp-endpoint'' otlp,
      BoolVar v_otlpInsecure_update ''otlp-insecure'' True]"

text \<open>Declaring a flag stores its default in its variable; an occurrence on the command line overwrites it.\<close>

definition declare_flags :: "flag list \<Rightarrow> flag_vars" where
  "declare_flags fs = fold (\<lambda>f. fl_set f (fl_default f)) fs vars_zero"

fun assign :: "flag list \<Rightarrow> (string \<times> flag_val) list \<Rightarrow> flag_vars \<Rightarrow> (string, flag_vars) result" where
  "assign fs [] vars = Inr vars"
| "assign fs ((n, v) # sets) vars =
     (case find (\<lambda>f. fl_name f = n) fs of
        None \<Rightarrow> Inl (''unknown flag: --'' @ n)
      | Some f \<Rightarrow> assign fs sets (fl_set f v vars))"

section \<open>The command\<close>

definition RunE :: "flag_vars \<Rightarrow> runOpts" where
  "RunE v = \<lparr>ro_listen = v_listen v, ro_metrics_addr = v_metricsAddr v, ro_etcd = v_etcdURL v, ro_nats = v_natsURL v,
     ro_weft_socket = v_weftSocket v, ro_router_image = v_routerImage v, ro_router_proj = v_routerProj v,
     ro_log_level = v_logLevel v,
     ro_tls = \<lparr>CertFile = v_tlsCertFile v, KeyFile = v_tlsKeyFile v, ClientCAFile = v_clientCAFile v\<rparr>,
     ro_trace = \<lparr>OTLPEndpoint = v_otlpEndpoint v, OTLPInsecure = v_otlpInsecure v, ServiceName = ''weft-network'',
       ServiceVersion = ''dev''\<rparr>\<rparr>"

text \<open>
  What the flag library makes of the arguments: the flags that occur with their values, in order, or a
  request for the help or the version text.
\<close>

datatype parsed = Occur "(string \<times> flag_val) list" | Info

definition command_opts ::
  "(flag list \<Rightarrow> 'a \<Rightarrow> (string, parsed) result) \<Rightarrow> string \<Rightarrow> 'a \<Rightarrow> (string, runOpts option) result" where
  "command_opts parse otlp args =
     (let fs = newRootCmd otlp in
      case parse fs args of
        Inl e \<Rightarrow> Inl e
      | Inr Info \<Rightarrow> Inr None
      | Inr (Occur sets) \<Rightarrow>
          (case assign fs sets (declare_flags fs) of Inl e \<Rightarrow> Inl e | Inr v \<Rightarrow> Inr (Some (RunE v))))"

text \<open>The options by the names of their flags.\<close>

definition opt_list :: "runOpts \<Rightarrow> flag_val list" where
  "opt_list o' =
     [FStr (ro_listen o'), FStr (ro_metrics_addr o'), FStr (ro_etcd o'), FStr (ro_nats o'), FStr (ro_weft_socket o'),
      FStr (ro_router_image o'), FStr (ro_router_proj o'), FStr (ro_log_level o'), FStr (CertFile (ro_tls o')),
      FStr (KeyFile (ro_tls o')), FStr (ClientCAFile (ro_tls o')), FStr (OTLPEndpoint (ro_trace o')),
      FBool (OTLPInsecure (ro_trace o'))]"

definition flag_names :: "string list" where
  "flag_names = [''listen'', ''metrics-addr'', ''etcd'', ''nats'', ''weft-socket'', ''router-image'',
     ''router-project'', ''log-level'', ''tls-cert'', ''tls-key'', ''client-ca'', ''otlp-endpoint'', ''otlp-insecure'']"

definition opt_of :: "runOpts \<Rightarrow> string \<rightharpoonup> flag_val" where
  "opt_of o' = map_of (zip flag_names (opt_list o'))"

fun same_kind :: "flag_val \<Rightarrow> flag_val \<Rightarrow> bool" where
  "same_kind (FStr s) (FStr t) \<longleftrightarrow> True"
| "same_kind (FBool a) (FBool b) \<longleftrightarrow> True"
| "same_kind _ _ \<longleftrightarrow> False"

section \<open>Lemmas\<close>

lemma newRootCmd_names: "map fl_name (newRootCmd otlp) = flag_names"
  by (simp add: newRootCmd_def StringVar_def BoolVar_def flag_names_def)

lemma flag_names_distinct: "distinct flag_names"
  by (simp add: flag_names_def)

lemma map_of_zip_set:
  "distinct ks \<Longrightarrow> length ks = length xs \<Longrightarrow> i < length ks \<Longrightarrow>
   map_of (zip ks (xs[i := v])) = (map_of (zip ks xs))(ks ! i \<mapsto> v)"
proof (induction ks arbitrary: xs i)
  case (Cons k ks)
  then obtain x ys where xs: "xs = x # ys" by (cases xs) auto
  show ?case
  proof (cases i)
    case (Suc j)
    with Cons.prems xs have "k \<noteq> ks ! j" "j < length ks" by auto
    with Cons xs Suc show ?thesis by (auto simp: fun_eq_iff)
  qed (auto simp: xs fun_eq_iff)
qed simp

text \<open>Setting a flag changes its own option and no other.\<close>

lemma set_nth_flag:
  assumes "i < 13" and "same_kind (fl_default (newRootCmd otlp ! i)) v"
  shows "opt_list (RunE (fl_set (newRootCmd otlp ! i) v vars)) = (opt_list (RunE vars))[i := v]"
proof -
  have "i \<in> {0, 1, 2, 3, 4, 5, 6, 7, 8, 9, 10, 11, 12}" using assms(1) unfolding insert_iff empty_iff by presburger
  with assms(2) show ?thesis
    by (cases v; elim insertE emptyE) (simp_all add: newRootCmd_def StringVar_def BoolVar_def opt_list_def RunE_def)
qed

lemma set_flag:
  assumes "f \<in> set (newRootCmd otlp)" and "same_kind (fl_default f) v"
  shows "opt_of (RunE (fl_set f v vars)) = (opt_of (RunE vars))(fl_name f \<mapsto> v)"
proof -
  have len: "length (newRootCmd otlp) = 13" "length flag_names = 13" "length (opt_list (RunE vars)) = 13"
    by (simp_all add: newRootCmd_def flag_names_def opt_list_def)
  obtain i where i: "i < 13" "f = newRootCmd otlp ! i" using assms(1) len(1) by (metis in_set_conv_nth)
  have "fl_name f = flag_names ! i" using i len(1) newRootCmd_names [of otlp] by (metis nth_map)
  with map_of_zip_set [OF flag_names_distinct] set_nth_flag [of i otlp v vars] i assms(2) len show ?thesis
    by (simp add: opt_of_def)
qed

lemma declared: "opt_of (RunE (declare_flags (newRootCmd otlp))) = map_of (map (\<lambda>f. (fl_name f, fl_default f)) (newRootCmd otlp))"
  by (simp add: declare_flags_def newRootCmd_def StringVar_def BoolVar_def opt_of_def opt_list_def flag_names_def RunE_def)

lemma find_flag:
  assumes "f \<in> set (newRootCmd otlp)"
  shows "find (\<lambda>g. fl_name g = fl_name f) (newRootCmd otlp) = Some f"
proof -
  have "distinct (map fl_name (newRootCmd otlp))" unfolding newRootCmd_names by (rule flag_names_distinct)
  with assms show ?thesis by (intro find_distinct_key)
qed

text \<open>Occurrences of declared flags with values of their kind.\<close>

definition declared_flags :: "string \<Rightarrow> (string \<times> flag_val) list \<Rightarrow> bool" where
  "declared_flags otlp sets \<longleftrightarrow> (\<forall>(n, v) \<in> set sets. \<exists>f \<in> set (newRootCmd otlp). fl_name f = n \<and> same_kind (fl_default f) v)"

lemma assign_run:
  "declared_flags otlp sets \<Longrightarrow>
   \<exists>vars'. assign (newRootCmd otlp) sets vars = Inr vars' \<and> opt_of (RunE vars') = opt_of (RunE vars) ++ map_of (rev sets)"
proof (induction sets arbitrary: vars)
  case (Cons s sets)
  obtain n v where s: "s = (n, v)" by fastforce
  from Cons.prems s obtain f where f: "f \<in> set (newRootCmd otlp)" "fl_name f = n" "same_kind (fl_default f) v"
    by (auto simp: declared_flags_def)
  from Cons.prems have "declared_flags otlp sets" by (simp add: declared_flags_def)
  from Cons.IH [OF this, of "fl_set f v vars"] obtain vars' where
    vars': "assign (newRootCmd otlp) sets (fl_set f v vars) = Inr vars'"
      "opt_of (RunE vars') = opt_of (RunE (fl_set f v vars)) ++ map_of (rev sets)" by blast
  have "opt_of (RunE vars') = opt_of (RunE vars) ++ map_of (rev (s # sets))"
    unfolding vars'(2) set_flag [OF f(1,3)] by (auto simp: s f(2) fun_eq_iff map_add_def split: option.split)
  with vars'(1) find_flag [OF f(1)] show ?case by (simp add: s f(2))
qed simp

section \<open>Properties\<close>

text \<open>
  C34. Every flag reaches the option it names and no other: for any sequence of declared flags on the
  command line, an option has the value of the last occurrence of its flag, and its declared default when
  the flag does not occur; a flag that is not declared is refused.
\<close>

theorem flags_reach_options:
  assumes "parse (newRootCmd otlp) args = Inr (Occur sets)" and "declared_flags otlp sets"
  shows "(\<exists>o'. command_opts parse otlp args = Inr (Some o') \<and>
      (\<forall>n. opt_of o' n = (case map_of (rev sets) n of Some v \<Rightarrow> Some v
         | None \<Rightarrow> map_option fl_default (find (\<lambda>f. fl_name f = n) (newRootCmd otlp))))) \<and>
    (n \<notin> set flag_names \<longrightarrow> assign (newRootCmd otlp) ((n, v) # sets) vars = Inl (''unknown flag: --'' @ n))"
proof -
  have decl: "map_of (map (\<lambda>f. (fl_name f, fl_default f)) fs) n = map_option fl_default (find (\<lambda>f. fl_name f = n) fs)" for fs n
    by (induction fs) auto
  have "find (\<lambda>f. fl_name f = n) (newRootCmd otlp) = None" if "n \<notin> set flag_names"
    using that unfolding newRootCmd_names [of otlp, symmetric] by (auto simp: find_None_iff)
  then have "n \<notin> set flag_names \<longrightarrow> assign (newRootCmd otlp) ((n, v) # sets) vars = Inl (''unknown flag: --'' @ n)" by simp
  moreover obtain vars' where "assign (newRootCmd otlp) sets (declare_flags (newRootCmd otlp)) = Inr vars'"
      "opt_of (RunE vars') = opt_of (RunE (declare_flags (newRootCmd otlp))) ++ map_of (rev sets)"
    using assign_run [OF assms(2)] by blast
  moreover have "(opt_of (RunE (declare_flags (newRootCmd otlp))) ++ map_of (rev sets)) m =
      (case map_of (rev sets) m of Some v \<Rightarrow> Some v
       | None \<Rightarrow> map_option fl_default (find (\<lambda>f. fl_name f = m) (newRootCmd otlp)))" for m
    unfolding declared map_add_def decl by simp
  ultimately show ?thesis
    using assms(1) by (simp add: command_opts_def)
qed

theorem flags_reach_options_witness:
  "\<exists>o'. command_opts (\<lambda>_ _. Inr (Occur [(''etcd'', FStr ''http://a''), (''etcd'', FStr ''http://b'')])) [] () = Inr (Some o') \<and>
     opt_of o' ''etcd'' = Some (FStr ''http://b'') \<and> opt_of o' ''log-level'' = Some (FStr ''info'')"
proof -
  let ?sets = "[(''etcd'', FStr ''http://a''), (''etcd'', FStr ''http://b'')]"
  have "declared_flags [] ?sets" by (simp add: declared_flags_def newRootCmd_def StringVar_def BoolVar_def)
  from flags_reach_options [where parse = "\<lambda>_ _. Inr (Occur ?sets)" and args = "()", OF refl this]
  show ?thesis by (fastforce simp: newRootCmd_def StringVar_def BoolVar_def)
qed

text \<open>
  The daemon as it starts with no argument and no environment variable, when the directory of its
  socket can be made and bound: it serves on the unix socket without TLS, from memory, reports that it is not
  connected to etcd, and has no publisher, no lifecycle, no status receiver, no floating-IP loops and no traces.
\<close>

theorem default_daemon:
  assumes "parse (newRootCmd []) args = Inr (Occur [])" and "command_opts parse [] args = Inr (Some o')"
    and "env_mkdir env ''/var/run/weft-network'' = Inr ()"
    and "env_bind env ''unix'' ''/var/run/weft-network/weft-network.sock'' = Inr ()"
  shows "\<exists>dm. fst (run_daemon env o' s) = Serving dm \<and> dm_network dm = ''unix'' \<and> dm_tls dm = None \<and>
    srv_stores (dm_server dm) = env_memory env \<and> etcdConnected (dm_recorder dm) = 0 \<and> dm_nats dm = None \<and>
    dm_weft dm = None \<and> dm_receiver dm = None \<and> dm_loops dm = Some LoopsSkipped \<and>
    dm_trace_shutdown dm = NoopShutdown \<and> dm_logger dm = LevelInfo \<and> ro_metrics_addr o' = '':9100''"
proof -
  have o': "o' = RunE (declare_flags (newRootCmd []))" using assms(1,2) by (simp add: command_opts_def)
  have opts: "ro_listen o' = ''unix:///var/run/weft-network/weft-network.sock''" "ro_metrics_addr o' = '':9100''"
    "ro_etcd o' = []" "ro_nats o' = []" "ro_weft_socket o' = []" "ro_log_level o' = ''info''"
    "ro_tls o' = \<lparr>CertFile = [], KeyFile = [], ClientCAFile = []\<rparr>" "OTLPEndpoint (ro_trace o') = []"
    by (simp_all add: o' RunE_def declare_flags_def newRootCmd_def StringVar_def BoolVar_def vars_zero_def)
  have listen: "parseListen ''unix:///var/run/weft-network/weft-network.sock'' = (''unix'', ''/var/run/weft-network/weft-network.sock'')"
    "parentDir ''/var/run/weft-network/weft-network.sock'' = ''/var/run/weft-network''"
    by (simp_all add: parseListen_def has_prefix_def trim_prefix_def parentDir_def)
  obtain d w where r: "snd (ResyncRouters (wire_server env o') s) = (d, w)" by fastforce
  have wired: "wire_publisher env o' = None" "wire_lifecycle env o' = None" "wire_receiver env o' = None"
    "wire_loops env o' w = (LoopsSkipped, w)" "wire_tls env o' = Inr None" "wire_trace env o' = NoopShutdown"
    by (simp_all add: wire_publisher_def wire_lifecycle_def wire_receiver_def wire_loops_def startFIPLoops_def wire_tls_def
        tls_Empty_def wire_trace_def trace_Init_def opts)
  have "srv_stores (wire_server env o') = env_memory env" by (simp add: wire_server_def New_def opts)
  then show ?thesis
    using assms(3,4)
    by (simp add: run_daemon_def Let_def opts listen r wired apply_loops_def SetEtcdConnected_def metrics_New_def newLogger_def lower_char_def)
qed

theorem default_daemon_witness:
  "\<exists>o' dm. command_opts (\<lambda>_ _. Inr (Occur [])) [] () = Inr (Some o') \<and>
     fst (run_daemon demo_env o' (mem_new, {})) = Serving dm \<and> dm_loops dm = Some LoopsSkipped"
proof -
  have env: "env_mkdir demo_env ''/var/run/weft-network'' = Inr ()"
    "env_bind demo_env ''unix'' ''/var/run/weft-network/weft-network.sock'' = Inr ()"
    by (simp_all add: demo_env_def)
  have opts: "command_opts (\<lambda>_ _. Inr (Occur [])) [] () = Inr (Some (RunE (declare_flags (newRootCmd []))))"
    by (simp add: command_opts_def)
  from default_daemon [where parse = "\<lambda>_ _. Inr (Occur [])", OF refl opts env, of "(mem_new, {})"] opts show ?thesis by blast
qed

end
