(* ===== verification/Daemon_Exit.thy ===== *)
theory Daemon_Exit
  imports Command
begin

text \<open>
  How the daemon ends: what \<open>run\<close> opens on its way, what it closes again and in which order, on every way
  out: an error of the startup, a panic, a failed listener, a signal. A deferred call is an entry of a
  stack that \<open>run\<close> unwinds when it returns; \<open>main\<close> turns the result into the exit status.
\<close>

section \<open>Resources and deferred calls\<close>

datatype resource =
    LogSink | Traces | Listener | NatsPublisher | WeftConn | NetServer | StatusReceiver
  | ElectionLoop | FipConn | SignalContext | HupChannel | MetricsListener

datatype action = Open resource | Serve | GracefulStop | Closed resource

record progress =
  acts :: "action list"
  defers :: "resource list"

definition started :: progress where
  "started = \<lparr>acts = [], defers = []\<rparr>"

text \<open>Opened and deferred; opened and left to a goroutine; either only when it is there.\<close>

definition acquire :: "resource \<Rightarrow> progress \<Rightarrow> progress" where
  "acquire r p = \<lparr>acts = acts p @ [Open r], defers = r # defers p\<rparr>"

definition spawn :: "resource \<Rightarrow> progress \<Rightarrow> progress" where
  "spawn r p = p\<lparr>acts := acts p @ [Open r]\<rparr>"

definition when_do :: "bool \<Rightarrow> (progress \<Rightarrow> progress) \<Rightarrow> progress \<Rightarrow> progress" where
  "when_do b f p = (if b then f p else p)"

definition unwind :: "progress \<Rightarrow> action list" where
  "unwind p = acts p @ map Closed (defers p)"

definition note_acts :: "action list \<Rightarrow> progress \<Rightarrow> progress" where
  "note_acts as p = p\<lparr>acts := acts p @ as\<rparr>"

section \<open>The run\<close>

text \<open>
  What happens once the server accepts calls: the listener fails, SIGINT or SIGTERM arrives, SIGHUP arrives, or the
  instance wins the election and starts the loops beside the server. A signal nobody asked for kills a
  Go process.
\<close>

datatype served = ServeFailed string | Signalled | HungUp | Elected

datatype ending = Returned "(string \<times> store_err) option" | Panicked string | Killed | Running

definition loops_panic_msg :: "('c, 'p) loops \<Rightarrow> string option" where
  "loops_panic_msg l = (case l of LoopsPanicked m \<Rightarrow> Some m | _ \<Rightarrow> None)"

definition fip_open :: "('c, 'p) loops \<Rightarrow> bool" where
  "fip_open l = (case l of LoopsPanicked m \<Rightarrow> True | LoopsStarted n f ns \<Rightarrow> True | _ \<Rightarrow> False)"

text \<open>Up to the network listener.\<close>

definition boot :: progress where
  "boot = acquire Traces (acquire LogSink started)"

text \<open>From the listener to the election or the loops.\<close>

definition wired :: "('d, 'w, 'c, 'p, 'k) surroundings \<Rightarrow> runOpts \<Rightarrow> progress \<Rightarrow> progress" where
  "wired env o' p =
     when_do (wire_receiver env o' \<noteq> None) (acquire StatusReceiver)
       (acquire NetServer
         (when_do (wire_lifecycle env o' \<noteq> None) (acquire WeftConn)
           (when_do (wire_publisher env o' \<noteq> None) (acquire NatsPublisher)
             (acquire Listener p))))"

text \<open>
  \<open>tls\<close>: there is a reloader, and SIGHUP is asked for. The panic of the election goroutine ends the process, and
  so does the signal that is not asked for: no deferred call of \<open>run\<close> is made.
\<close>

definition serving :: "('d, 'w, 'c, 'p, 'k) surroundings \<Rightarrow> runOpts \<Rightarrow> 'w \<Rightarrow> served \<Rightarrow> bool \<Rightarrow> progress \<Rightarrow> ending \<times> action list" where
  "serving env o' w served tls p =
     (let p1 = when_do tls (acquire HupChannel) (acquire SignalContext p);
          metrics = ro_metrics_addr o' \<noteq> [];
          p2 = note_acts [Serve] (when_do metrics (spawn MetricsListener) p1) in
      case served of
        ServeFailed e \<Rightarrow> (Returned (Some (''grpc serve'', ErrMsg e)), unwind p2)
      | Signalled \<Rightarrow>
          (Returned None,
           unwind (note_acts [GracefulStop] (when_do metrics (note_acts [Closed MetricsListener]) p2)))
      | HungUp \<Rightarrow> (if tls then Running else Killed, acts p2)
      | Elected \<Rightarrow>
          (if ro_etcd o' = [] then (Running, acts p2)
           else case loops_panic_msg (fst (wire_loops env o' w)) of
             Some m \<Rightarrow> (Panicked m, acts p2)
           | None \<Rightarrow> (Running, acts p2)))"

definition run_life ::
  "('d, 'w, 'c, 'p, 'k) surroundings \<Rightarrow> runOpts \<Rightarrow> 'd \<times> 'w \<Rightarrow> served \<Rightarrow> ending \<times> action list" where
  "run_life env o' s served =
     (let (network, addr) = parseListen (ro_listen o') in
      case (if network = ''unix'' then env_mkdir env (parentDir addr) else Inr ()) of
        Inl e \<Rightarrow> (Returned (Some (''mkdir parent of '' @ addr, ErrMsg e)), unwind boot)
      | Inr _ \<Rightarrow>
          (case env_bind env network addr of
             Inl e \<Rightarrow> (Returned (Some (''listen '' @ network @ ''://'' @ addr, ErrMsg e)), unwind boot)
           | Inr _ \<Rightarrow>
               (let p = wired env o' boot;
                    w = snd (snd (ResyncRouters (wire_server env o') s));
                    loops = (if ro_etcd o' \<noteq> [] then LoopsSkipped else fst (wire_loops env o' w));
                    p1 = when_do (fip_open loops) (spawn FipConn) (when_do (ro_etcd o' \<noteq> []) (spawn ElectionLoop) p) in
                case loops_panic_msg loops of
                  Some m \<Rightarrow> (Panicked m, unwind p1)
                | None \<Rightarrow>
                    (case wire_tls env o' of
                       Inl e \<Rightarrow> (Returned (Some (''tls'', e)), unwind p1)
                     | Inr tls \<Rightarrow> serving env o' w served (tls \<noteq> None) p1))))"

text \<open>\<open>main\<close>: an error of the command is status 1; a panic ends a Go process with status 2; killed by a signal, it has none.\<close>

definition main_status :: "ending \<Rightarrow> nat option" where
  "main_status e = (case e of Returned None \<Rightarrow> Some 0 | Returned (Some _) \<Rightarrow> Some 1 | Panicked _ \<Rightarrow> Some 2
     | Killed \<Rightarrow> None | Running \<Rightarrow> None)"

section \<open>Bookkeeping\<close>

definition opened :: "action list \<Rightarrow> resource list" where
  "opened as = concat (map (\<lambda>a. case a of Open r \<Rightarrow> [r] | _ \<Rightarrow> []) as)"

definition closed :: "action list \<Rightarrow> resource list" where
  "closed as = concat (map (\<lambda>a. case a of Closed r \<Rightarrow> [r] | _ \<Rightarrow> []) as)"

lemma opened_simps [simp]:
  "opened [] = []" "opened (Open r # as) = r # opened as" "opened (Serve # as) = opened as"
  "opened (GracefulStop # as) = opened as" "opened (Closed r # as) = opened as"
  "opened (as @ bs) = opened as @ opened bs" "opened (map Closed rs) = []"
  by (simp_all add: opened_def comp_def)

lemma closed_simps [simp]:
  "closed [] = []" "closed (Open r # as) = closed as" "closed (Serve # as) = closed as"
  "closed (GracefulStop # as) = closed as" "closed (Closed r # as) = r # closed as"
  "closed (as @ bs) = closed as @ closed bs" "closed (map Closed rs) = rs"
  by (simp_all add: closed_def comp_def)

text \<open>
  The resources whose closing is left to a goroutine. A progress is tidy when what it deferred is what it
  opened beyond those, last first, and it has closed nothing.
\<close>

definition left_to_goroutine :: "resource \<Rightarrow> bool" where
  "left_to_goroutine r \<longleftrightarrow> r \<in> {ElectionLoop, FipConn, MetricsListener}"

definition tidy :: "progress \<Rightarrow> bool" where
  "tidy p \<longleftrightarrow> defers p = rev (filter (\<lambda>r. \<not> left_to_goroutine r) (opened (acts p))) \<and> closed (acts p) = []"

lemma tidy_steps [simp]:
  "tidy started"
  "\<not> left_to_goroutine r \<Longrightarrow> tidy (acquire r p) = tidy p"
  "left_to_goroutine r \<Longrightarrow> tidy (spawn r p) = tidy p"
  by (auto simp: tidy_def started_def acquire_def spawn_def)

lemma tidy_when [simp]: "tidy (f p) = tidy p \<Longrightarrow> tidy (when_do b f p) = tidy p"
  by (simp add: when_do_def)

lemma not_left [simp]:
  "\<not> left_to_goroutine LogSink" "\<not> left_to_goroutine Traces" "\<not> left_to_goroutine Listener" "\<not> left_to_goroutine NatsPublisher"
  "\<not> left_to_goroutine WeftConn" "\<not> left_to_goroutine NetServer" "\<not> left_to_goroutine StatusReceiver"
  "\<not> left_to_goroutine SignalContext" "\<not> left_to_goroutine HupChannel"
  "left_to_goroutine ElectionLoop" "left_to_goroutine FipConn" "left_to_goroutine MetricsListener"
  by (simp_all add: left_to_goroutine_def)

lemma tidy_boot [simp]: "tidy boot"
  by (simp add: boot_def)

lemma tidy_wired [simp]: "tidy (wired env o' p) = tidy p"
  by (simp add: wired_def)

lemma no_serve [simp]:
  "Serve \<notin> set (acts boot)" "Serve \<in> set (acts (acquire r p)) \<longleftrightarrow> Serve \<in> set (acts p)"
  "Serve \<in> set (acts (spawn r p)) \<longleftrightarrow> Serve \<in> set (acts p)"
  "Serve \<in> set (acts (wired env o' p)) \<longleftrightarrow> Serve \<in> set (acts p)" "Serve \<in> set (unwind p) \<longleftrightarrow> Serve \<in> set (acts p)"
  by (auto simp: boot_def started_def acquire_def spawn_def wired_def when_do_def unwind_def)

lemma no_serve_when [simp]:
  "(Serve \<in> set (acts (f p)) \<longleftrightarrow> Serve \<in> set (acts p)) \<Longrightarrow> Serve \<in> set (acts (when_do b f p)) \<longleftrightarrow> Serve \<in> set (acts p)"
  by (simp add: when_do_def)

text \<open>Unwinding a tidy progress closes what was opened, last first.\<close>

lemma unwind_tidy:
  assumes "tidy p"
  shows "opened (unwind p) = opened (acts p)"
    and "closed (unwind p) = rev (filter (\<lambda>r. \<not> left_to_goroutine r) (opened (acts p)))"
  using assms by (simp_all add: unwind_def tidy_def)

definition orderly :: "action list \<Rightarrow> bool" where
  "orderly as \<longleftrightarrow> filter (\<lambda>r. \<not> left_to_goroutine r) (closed as) = rev (filter (\<lambda>r. \<not> left_to_goroutine r) (opened as)) \<and>
     set (closed as) \<inter> {ElectionLoop, FipConn} = {}"

lemma orderly_unwind: "tidy p \<Longrightarrow> orderly (unwind p) \<and> MetricsListener \<notin> set (closed (unwind p))"
  by (auto simp: orderly_def unwind_tidy rev_filter)

lemma serving_orderly:
  assumes "tidy p" and "serving env o' w served tls p = (e, as)"
  shows "case served of
      ServeFailed x \<Rightarrow> (\<exists>r. e = Returned (Some r)) \<and> orderly as \<and> MetricsListener \<notin> set (closed as)
    | Signalled \<Rightarrow> e = Returned None \<and> orderly as \<and> (MetricsListener \<in> set (closed as) \<longleftrightarrow> ro_metrics_addr o' \<noteq> [])
    | HungUp \<Rightarrow> e = (if tls then Running else Killed) \<and> closed as = []
    | Elected \<Rightarrow> (e = Running \<or> (\<exists>m. e = Panicked m)) \<and> Serve \<in> set as \<and> closed as = []"
proof -
  define p1 where "p1 = when_do tls (acquire HupChannel) (acquire SignalContext p)"
  define p2 where "p2 = when_do (ro_metrics_addr o' \<noteq> []) (spawn MetricsListener) p1"
  have tidy: "tidy p2" using assms(1) by (simp add: p1_def p2_def)
  have served: "defers (note_acts as p2) = defers p2" "acts (note_acts as p2) = acts p2 @ as" for as
    by (simp_all add: note_acts_def)
  note rest = assms(2) [unfolded serving_def Let_def p1_def [symmetric] p2_def [symmetric]]
  show ?thesis
  proof (cases served)
    case (ServeFailed x)
    have "tidy (note_acts [Serve] p2)" using tidy by (simp add: tidy_def served)
    with rest ServeFailed orderly_unwind show ?thesis by auto
  next
    case Signalled
    let ?as = "acts p2 @ [Serve] @ (if ro_metrics_addr o' \<noteq> [] then [Closed MetricsListener] else []) @ [GracefulStop] @ map Closed (defers p2)"
    from rest Signalled have "e = Returned None" "as = ?as" by (auto simp: unwind_def when_do_def note_acts_def)
    moreover from this(2) have "opened as = opened (acts p2)"
      "closed as = (if ro_metrics_addr o' \<noteq> [] then [MetricsListener] else []) @ defers p2"
      using tidy by (simp_all add: tidy_def)
    ultimately show ?thesis using tidy Signalled by (auto simp: orderly_def tidy_def rev_filter)
  next
    case HungUp
    from rest HungUp have "e = (if tls then Running else Killed) \<and> as = acts p2 @ [Serve]" by (simp add: note_acts_def)
    with tidy HungUp show ?thesis by (simp add: tidy_def)
  next
    case Elected
    from rest Elected have "(e = Running \<or> (\<exists>m. e = Panicked m)) \<and> as = acts p2 @ [Serve]"
      by (auto simp: note_acts_def split: if_splits option.splits)
    with tidy Elected show ?thesis by (auto simp: tidy_def)
  qed
qed



text \<open>The run agrees with its startup (\<open>run_daemon\<close>): errors and panics are the same, and a daemon that serves reaches \<open>serving\<close>.\<close>

lemma run_life_startup:
  "case fst (run_daemon env o' s) of
     StartupError what e \<Rightarrow> fst (run_life env o' s served) = Returned (Some (what, e))
   | Crashed m \<Rightarrow> fst (run_life env o' s served) = Panicked m
   | Serving dm \<Rightarrow> \<exists>w tls p. run_life env o' s served = serving env o' w served tls p"
proof -
  obtain net addr where p: "parseListen (ro_listen o') = (net, addr)" by fastforce
  obtain d w where r: "snd (ResyncRouters (wire_server env o') s) = (d, w)" by fastforce
  obtain l w1 where l: "wire_loops env o' w = (l, w1)" by fastforce
  show ?thesis
    unfolding run_daemon_def run_life_def Let_def p prod.case r snd_conv l apfst_conv
    by (cases l) (auto simp: loops_panic_msg_def split_beta split: sum.split)
qed

text \<open>
  The exit status is 1 exactly when the startup failed or the listener did: a daemon that served and was
  told to stop by a signal exits with 0.
\<close>

theorem exit_status_1:
  "main_status (fst (run_life env o' s served)) = Some 1 \<longleftrightarrow>
     (\<exists>what e. fst (run_daemon env o' s) = StartupError what e) \<or>
     (\<exists>dm x. fst (run_daemon env o' s) = Serving dm \<and> served = ServeFailed x)"
proof -
  have serve: "main_status (fst (serving env o' w served tls p)) = Some 1 \<longleftrightarrow> (\<exists>x. served = ServeFailed x)" for w tls p
    by (auto simp: serving_def Let_def main_status_def split: served.split option.split)
  show ?thesis
    using run_life_startup [of env o' s served] serve
    by (cases "fst (run_daemon env o' s)") (auto simp: main_status_def)
qed

text \<open>
  SIGHUP kills a daemon without TLS: it only asks for the signal when it has certificates to reload, and a
  signal nobody asked for ends a Go process.
\<close>

theorem sighup_kills_plain_daemon:
  assumes "fst (run_daemon env o' s) = Serving dm"
  shows "fst (run_life env o' s HungUp) = (if dm_tls dm = None then Killed else Running)"
proof -
  obtain net addr where p: "parseListen (ro_listen o') = (net, addr)" by fastforce
  obtain d w where r: "snd (ResyncRouters (wire_server env o') s) = (d, w)" by fastforce
  obtain l w1 where l: "wire_loops env o' w = (l, w1)" by fastforce
  show ?thesis
    using assms
    unfolding run_daemon_def run_life_def Let_def p prod.case r snd_conv l apfst_conv
    by (cases l) (auto simp: loops_panic_msg_def split_beta serving_def Let_def split: sum.splits if_splits)
qed

end
