(* ===== verification/Daemon_Run.thy ===== *)
theory Daemon_Run
  imports Daemon_Exit Replicas
begin

text \<open>
  The daemon as it serves: RPCs through the metrics interceptor, status messages through the receiver,
  TLS handshakes and SIGHUPs, in any order, from the state its startup left. What the parts promise each
  holds of the whole at every moment of such a run.
\<close>

section \<open>Events\<close>

datatype 'k devent = DCall nat request | DStatus string etcd_value | DHangup "'k disk" | DHandshake

datatype 'k dout =
    Answer "(grpc_status, response) result" | StatusOut status_outcome | Unheard
  | Reloaded "(store_err, unit) result" | Certificate "'k option" | PlainText | Died

type_synonym ('d, 'w, 'c, 'p, 'k) dstate = "('d, 'w, 'c, 'p, 'k) daemon \<times> 'd \<times> 'w"

text \<open>
  \<open>mname\<close> is the full method name the RPC framework passes to the interceptor. No state after a SIGHUP that
  the daemon did not ask for.
\<close>

fun daemon_step ::
  "(request \<Rightarrow> string) \<Rightarrow> 'k devent \<Rightarrow> ('d, 'w, 'c, 'p, 'k) dstate \<Rightarrow> 'k dout \<times> ('d, 'w, 'c, 'p, 'k) dstate option" where
  "daemon_step mname (DCall t q) (dm, s) =
     (let (resp, s', rec) = UnaryInterceptor st_code t (mname q) (serve (dm_server dm) q) (s, dm_recorder dm) in
      (Answer resp, Some (dm\<lparr>dm_recorder := rec\<rparr>, s')))"
| "daemon_step mname (DStatus subject data) (dm, (d, w)) =
     (case dm_receiver dm of
        None \<Rightarrow> (Unheard, Some (dm, (d, w)))
      | Some _ \<Rightarrow> (let (res, d') = on_status (dm_server dm) subject data d in (StatusOut res, Some (dm, (d', w)))))"
| "daemon_step mname (DHangup disk) (dm, s) =
     (case dm_tls dm of
        None \<Rightarrow> (Died, None)
      | Some cfg \<Rightarrow> (let (res, cfg') = Reload disk cfg in (Reloaded res, Some (dm\<lparr>dm_tls := Some cfg'\<rparr>, s))))"
| "daemon_step mname DHandshake (dm, s) =
     (case dm_tls dm of
        None \<Rightarrow> (PlainText, Some (dm, s))
      | Some cfg \<Rightarrow> (Certificate (getCertificate (cfg_loader cfg)), Some (dm, s)))"

fun daemon_run ::
  "(request \<Rightarrow> string) \<Rightarrow> 'k devent list \<Rightarrow> ('d, 'w, 'c, 'p, 'k) dstate \<Rightarrow> 'k dout list \<times> ('d, 'w, 'c, 'p, 'k) dstate option" where
  "daemon_run mname [] s = ([], Some s)"
| "daemon_run mname (e # es) s =
     (case daemon_step mname e s of
        (r, None) \<Rightarrow> ([r], None)
      | (r, Some s') \<Rightarrow> (let (rs, res) = daemon_run mname es s' in (r # rs, res)))"

text \<open>The events of a run that reach the service.\<close>

fun service_events :: "bool \<Rightarrow> 'k devent list \<Rightarrow> event list" where
  "service_events rcv [] = []"
| "service_events rcv (DCall t q # es) = Call q # service_events rcv es"
| "service_events rcv (DStatus subject data # es) =
     (if rcv then StatusMsg subject data # service_events rcv es else service_events rcv es)"
| "service_events rcv (_ # es) = service_events rcv es"

text \<open>The answers of a method that ended with a code.\<close>

definition answer_label :: "(request \<Rightarrow> string) \<Rightarrow> 'k devent \<times> 'k dout \<Rightarrow> (string \<times> string) option" where
  "answer_label mname eo = (case eo of
     (DCall t q, Answer r) \<Rightarrow> Some (mname q, code_name (case r of Inl st \<Rightarrow> st_code st | Inr _ \<Rightarrow> OK))
   | _ \<Rightarrow> None)"

definition answered :: "(request \<Rightarrow> string) \<Rightarrow> 'k devent list \<Rightarrow> 'k dout list \<Rightarrow> string \<times> string \<Rightarrow> nat" where
  "answered mname es outs k = length (filter (\<lambda>eo. answer_label mname eo = Some k) (zip es outs))"

section \<open>A step\<close>

lemma step_call:
  assumes "serve (dm_server dm) q (d, w) = (r, d1, w1)"
  shows "\<exists>rec. daemon_step mname (DCall t q) (dm, (d, w)) = (Answer r, Some (dm\<lparr>dm_recorder := rec\<rparr>, (d1, w1))) \<and>
    (\<forall>k. rpcTotal rec k = rpcTotal (dm_recorder dm) k +
      (if (mname q, code_name (case r of Inl st \<Rightarrow> st_code st | Inr _ \<Rightarrow> OK)) = k then 1 else 0)) \<and>
    etcdConnected rec = etcdConnected (dm_recorder dm)"
  using assms by (auto simp: UnaryInterceptor_def Let_def)

text \<open>What no event changes.\<close>

lemma step_keeps:
  "daemon_step mname e (dm, s) = (r, Some (dm', s')) \<Longrightarrow>
   dm_server dm' = dm_server dm \<and> dm_receiver dm' = dm_receiver dm \<and> (dm_tls dm' = None \<longleftrightarrow> dm_tls dm = None)"
  by (cases e; cases s) (auto simp: UnaryInterceptor_def Let_def split_beta split: option.splits)

lemma step_dies: "daemon_step mname e (dm, s) = (r, None) \<Longrightarrow> dm_tls dm = None \<and> (\<exists>disk. e = DHangup disk)"
  by (cases e; cases s) (auto simp: UnaryInterceptor_def Let_def split_beta split: option.splits)

section \<open>A run\<close>

lemma run_cons:
  assumes "daemon_run mname (e # es) s = (outs, res)"
  obtains (died) r where "daemon_step mname e s = (r, None)" and "outs = [r]" and "res = None"
  | (lives) r s1 rs where "daemon_step mname e s = (r, Some s1)" and "daemon_run mname es s1 = (rs, res)" and "outs = r # rs"
proof (cases "daemon_step mname e s")
  case (Pair r x)
  show ?thesis
  proof (cases x)
    case None
    with assms Pair died show ?thesis by simp
  next
    case (Some s1)
    obtain rs y where "daemon_run mname es s1 = (rs, y)" by fastforce
    with assms Pair Some lives show ?thesis by simp
  qed
qed

lemma run_service:
  "daemon_run mname es (dm, (d, w)) = (outs, Some (dm', (d', w'))) \<Longrightarrow>
   \<exists>rs. run_calls (service_step (dm_server dm)) (service_events (dm_receiver dm \<noteq> None) es) (d, w) = (rs, d', w')"
proof (induction es arbitrary: dm d w outs)
  case (Cons e es)
  from Cons.prems show ?case
  proof (cases rule: run_cons)
    case (lives r s1 rs)
    obtain dm1 d1 w1 where s1: "s1 = (dm1, (d1, w1))" by (rule prod_cases3)
    from Cons.IH [OF lives(2) [unfolded s1]] obtain xs where
      xs: "run_calls (service_step (dm_server dm1)) (service_events (dm_receiver dm1 \<noteq> None) es) (d1, w1) = (xs, d', w')" by blast
    from step_keeps [OF lives(1) [unfolded s1]]
    have keep: "dm_server dm1 = dm_server dm" "dm_receiver dm1 = dm_receiver dm" by auto
    note rest = xs [unfolded keep]
    show ?thesis
    proof (cases e)
      case (DCall t q)
      obtain x d2 w2 where x: "serve (dm_server dm) q (d, w) = (x, d2, w2)" by (rule prod_cases3)
      have "d2 = d1" "w2 = w1" using step_call [OF x, of mname t] lives(1) unfolding s1 DCall by auto
      with x rest show ?thesis unfolding DCall by simp
    next
      case (DStatus subject data)
      show ?thesis
      proof (cases "dm_receiver dm")
        case None
        with rest lives(1) show ?thesis unfolding s1 DStatus by simp
      next
        case (Some rcv)
        obtain x d2 where x: "on_status (dm_server dm) subject data d = (x, d2)" by fastforce
        with Some lives(1) have "d2 = d1" "w = w1" unfolding s1 DStatus by simp_all
        with x Some rest show ?thesis unfolding DStatus by simp
      qed
    next
      case (DHangup disk)
      with lives(1) have "d1 = d" "w1 = w" unfolding s1 by (auto simp: split_beta split: option.splits)
      with rest show ?thesis unfolding DHangup by simp
    next
      case DHandshake
      with lives(1) have "d1 = d" "w1 = w" unfolding s1 by (auto split: option.splits)
      with rest show ?thesis unfolding DHandshake by simp
    qed
  qed simp
qed simp

lemma answered_cons:
  "answered mname (e # es) (r # rs) k = (if answer_label mname (e, r) = Some k then 1 else 0) + answered mname es rs k"
  by (simp add: answered_def)

lemma run_counts:
  "daemon_run mname es (dm, s) = (outs, Some (dm', s')) \<Longrightarrow>
   rpcTotal (dm_recorder dm') k = rpcTotal (dm_recorder dm) k + answered mname es outs k \<and>
   etcdConnected (dm_recorder dm') = etcdConnected (dm_recorder dm)"
proof (induction es arbitrary: dm s outs)
  case Nil
  then show ?case by (simp add: answered_def)
next
  case (Cons e es)
  from Cons.prems show ?case
  proof (cases rule: run_cons)
    case (lives r s1 rs)
    obtain dm1 t1 where s1: "s1 = (dm1, t1)" by (rule prod.exhaust)
    note IH = Cons.IH [OF lives(2) [unfolded s1]]
    have "rpcTotal (dm_recorder dm1) k = rpcTotal (dm_recorder dm) k + (if answer_label mname (e, r) = Some k then 1 else 0) \<and>
        etcdConnected (dm_recorder dm1) = etcdConnected (dm_recorder dm)"
    proof (cases e)
      case (DCall t q)
      obtain d w where s: "s = (d, w)" by fastforce
      obtain x d2 w2 where x: "serve (dm_server dm) q (d, w) = (x, d2, w2)" by (rule prod_cases3)
      from step_call [OF x, of mname t] obtain rec where
        rec: "daemon_step mname (DCall t q) (dm, (d, w)) = (Answer x, Some (dm\<lparr>dm_recorder := rec\<rparr>, (d2, w2)))"
          "rpcTotal rec k = rpcTotal (dm_recorder dm) k +
            (if (mname q, code_name (case x of Inl st \<Rightarrow> st_code st | Inr _ \<Rightarrow> OK)) = k then 1 else 0)"
          "etcdConnected rec = etcdConnected (dm_recorder dm)" by blast
      from lives(1) have "r = Answer x" "dm1 = dm\<lparr>dm_recorder := rec\<rparr>" unfolding s1 s DCall rec(1) by simp_all
      with rec(2,3) show ?thesis by (simp add: answer_label_def DCall)
    qed (use lives(1) s1 in \<open>cases s; auto simp: answer_label_def split_beta split: option.splits\<close>)+
    with IH show ?thesis by (simp add: lives(3) answered_cons)
  qed simp
qed

lemma step_certificate:
  assumes "daemon_step mname e (dm, s) = (r, Some (dm1, t1))"
    and "\<forall>cfg. dm_tls dm = Some cfg \<longrightarrow> getCertificate (cfg_loader cfg) \<noteq> None"
  shows "(\<forall>cfg. dm_tls dm1 = Some cfg \<longrightarrow> getCertificate (cfg_loader cfg) \<noteq> None) \<and>
    r \<noteq> Certificate None \<and> (dm_tls dm \<noteq> None \<longrightarrow> r \<noteq> PlainText)"
proof (cases e)
  case (DCall t q)
  then have "dm_tls dm1 = dm_tls dm" "\<exists>x. r = Answer x" using assms(1) by (auto simp: Let_def split_beta)
  with assms(2) show ?thesis by auto
next
  case (DStatus subject data)
  then have "dm_tls dm1 = dm_tls dm" "r = Unheard \<or> (\<exists>x. r = StatusOut x)"
    using assms(1) by (cases s; auto simp: split_beta split: option.splits)+
  with assms(2) show ?thesis by auto
next
  case (DHangup disk)
  with assms(1) obtain cfg where cfg: "dm_tls dm = Some cfg" "dm_tls dm1 = Some (snd (Reload disk cfg))" "\<exists>x. r = Reloaded x"
    by (auto simp: split_beta split: option.splits)
  with assms(2) have "getCertificate (cfg_loader (snd (Reload disk cfg))) \<noteq> None"
    by (auto simp: getCertificate_def Reload_sels split: sum.split)
  with cfg show ?thesis by auto
next
  case DHandshake
  with assms show ?thesis by (auto split: option.splits)
qed

lemma run_certificates:
  "daemon_run mname es (dm, s) = (outs, res) \<Longrightarrow>
   (\<forall>cfg. dm_tls dm = Some cfg \<longrightarrow> getCertificate (cfg_loader cfg) \<noteq> None) \<Longrightarrow>
   Certificate None \<notin> set outs \<and> (dm_tls dm \<noteq> None \<longrightarrow> PlainText \<notin> set outs \<and> res \<noteq> None)"
proof (induction es arbitrary: dm s outs)
  case (Cons e es)
  from Cons.prems(1) show ?case
  proof (cases rule: run_cons)
    case (died r)
    with step_dies [OF died(1)] show ?thesis by auto
  next
    case (lives r s1 rs)
    obtain dm1 t1 where s1: "s1 = (dm1, t1)" by (rule prod.exhaust)
    note keep = step_keeps [OF lives(1) [unfolded s1]]
    note step = step_certificate [OF lives(1) [unfolded s1] Cons.prems(2)]
    from Cons.IH [OF lives(2) [unfolded s1] conjunct1 [OF step]] step keep show ?thesis by (auto simp: lives(3))
  qed
qed auto

lemma run_dies: "daemon_run mname es (dm, s) = (outs, None) \<Longrightarrow> dm_tls dm = None \<and> (\<exists>disk. DHangup disk \<in> set es)"
proof (induction es arbitrary: dm s outs)
  case (Cons e es)
  from Cons.prems show ?case
  proof (cases rule: run_cons)
    case (died r)
    with step_dies [OF died(1)] show ?thesis by auto
  next
    case (lives r s1 rs)
    obtain dm1 t1 where s1: "s1 = (dm1, t1)" by (rule prod.exhaust)
    from Cons.IH [OF lives(2) [unfolded s1]] step_keeps [OF lives(1) [unfolded s1]] show ?thesis by auto
  qed
qed simp

lemma run_killed: "dm_tls dm = None \<Longrightarrow> DHangup disk \<in> set es \<Longrightarrow> snd (daemon_run mname es (dm, s)) = None"
proof (induction es arbitrary: dm s)
  case (Cons e es)
  show ?case
  proof (cases "daemon_step mname e (dm, s)")
    case (Pair r x)
    show ?thesis
    proof (cases x)
      case None
      with Pair show ?thesis by simp
    next
      case (Some s1)
      obtain dm1 t1 where s1: "s1 = (dm1, t1)" by (rule prod.exhaust)
      with Pair Some Cons.prems step_keeps [of mname e dm s r dm1 t1] have "dm_tls dm1 = None" "DHangup disk \<in> set es" by auto
      with Cons.IH [of dm1 t1] Pair Some s1 show ?thesis by (simp add: split_beta)
    qed
  qed
qed simp

section \<open>From the startup on\<close>

lemma wire_loops_outcome:
  "wire_loops env o' w = (LoopsSkipped, w) \<or> (\<exists>m. wire_loops env o' w = (LoopsPanicked m, w))"
proof (cases "wire_publisher env o'")
  case None
  then show ?thesis by (simp add: wire_loops_def startFIPLoops_def)
next
  case (Some n)
  then have "ro_nats o' \<noteq> []" and new: "NewNATS (env_nats_connect env) (ro_nats o') = Inr n"
    by (simp_all add: wire_publisher_def split: if_splits sum.splits)
  moreover from NewNATS_slot [OF new] obtain c where "env_nats_connect env (ro_nats o') = Inr c" by (elim conjE exE)
  ultimately show ?thesis by (intro disjI2 exI) (rule wire_loops_panic)
qed

lemma resync_new:
  "srv_stores sv = mem_stores ord \<Longrightarrow> snd (ResyncRouters sv (mem_new, w)) = (mem_new, w)"
  by (simp add: ResyncRouters_def mem_stores_def on_part_def router_mem_list_def mem_new_def router_mem_new_def range_vals_def map_filter_def)

lemma memory_startup:
  assumes "run_daemon env o' (mem_new, w) = (Serving dm, d1, w1)" and "ro_etcd o' = []" and "env_memory env = mem_stores ord"
  shows "d1 = mem_new" and "srv_stores (dm_server dm) = mem_stores ord" and "rpcTotal (dm_recorder dm) = (\<lambda>_. 0)"
    and "etcdConnected (dm_recorder dm) = 0"
    and "\<forall>cfg. dm_tls dm = Some cfg \<longrightarrow> getCertificate (cfg_loader cfg) \<noteq> None"
proof -
  obtain net addr where p: "parseListen (ro_listen o') = (net, addr)" by fastforce
  have sv: "srv_stores (wire_server env o') = mem_stores ord" using assms(2,3) by (simp add: wire_server_def New_def)
  note r = resync_new [OF sv, of w]
  have tls: "getCertificate (cfg_loader cfg) \<noteq> None" if "wire_tls env o' = Inr (Some cfg)" for cfg
    using that credentials_ok(3) by (fastforce simp: wire_tls_def credentials_with_reloader split: if_splits sum.splits)
  have "d1 = mem_new \<and> dm_server dm = wire_server env o' \<and> dm_recorder dm = SetEtcdConnected False (metrics_New ''dev'' ''none'' ''unknown'') \<and>
      wire_tls env o' = Inr (dm_tls dm)"
    using assms(1) wire_loops_outcome [of env o' w]
    unfolding run_daemon_def Let_def p prod.case r assms(2)
    by (auto simp: apply_loops_def split: sum.splits if_splits)
  with sv tls show "d1 = mem_new" "srv_stores (dm_server dm) = mem_stores ord" "rpcTotal (dm_recorder dm) = (\<lambda>_. 0)"
    "etcdConnected (dm_recorder dm) = 0" "\<forall>cfg. dm_tls dm = Some cfg \<longrightarrow> getCertificate (cfg_loader cfg) \<noteq> None"
    by (auto simp: SetEtcdConnected_def metrics_New_def)
qed


definition memory_env :: "(mem_world, (string \<times> string) set, unit, unit, nat) surroundings" where
  "memory_env = demo_env\<lparr>env_memory := mem_stores uuid_orders\<rparr>"


end
