(* ===== verification/Overlap.thy ===== *)
theory Overlap
  imports Service Server_Properties
begin

text \<open>
  Handlers of one process that overlap. The RPC framework runs each call in its own goroutine, and only the
  stores have a lock: between the store and the agent, and between two calls of the agent, any other
  handler may run. A job is a handler with what it has left to do, one call of a store, the publisher or
  the agent per turn; a pool of jobs takes turns in any order.
\<close>

section \<open>Jobs\<close>

text \<open>
  \<open>CreateRouter\<close> goes through \<open>Creating\<close> (checks and store), \<open>Publishing\<close> and the loop of \<open>Ensure\<close>;
  \<open>DeleteRouter\<close> through \<open>Removing\<close>, \<open>Withdrawing\<close> and the loop of \<open>Destroy\<close>; a status message is one
  update of the store. The names are those a loop has left.
\<close>

datatype job =
    Creating "8 word list" i64 CreateRouterRequest
  | Publishing Router
  | Registering Router "string list"
  | Starting Router "string list"
  | Removing string
  | Withdrawing string
  | Stopping "string list"
  | Erasing "string list"
  | Reporting string etcd_value
  | Finished outcome

abbreviation created_answer :: "Router \<Rightarrow> outcome" where
  "created_answer r \<equiv> Replied (Inr (OneRouter (router_to_proto r)))"

abbreviation deleted_answer :: outcome where
  "deleted_answer \<equiv> Replied (Inr Empty)"

fun job_step :: "('d, 'w) Server \<Rightarrow> 'w WeftClient \<Rightarrow> job \<Rightarrow> 'd \<times> 'w \<Rightarrow> job \<times> 'd \<times> 'w" where
  "job_step sv wc (Creating b t q) (d, w) =
     (case router_of_request b t q of
        Inl st \<Rightarrow> (Finished (Replied (Inl st)), d, w)
      | Inr r \<Rightarrow>
          (case rb_create (st_routers (srv_stores sv)) r d of
             (Inl e, d') \<Rightarrow> (Finished (Replied (Inl (create_status ''router'' (trim_space (cro_name q)) (cro_project q) e))), d', w)
           | (Inr saved, d') \<Rightarrow> (Publishing saved, d', w)))"
| "job_step sv wc (Publishing r) (d, w) =
     (let (_, w') = pub_publish (srv_publisher sv) r w in
      (if router_kind r \<noteq> ''egress'' \<or> router_backend r \<noteq> ''gobgp'' then Finished (created_answer r)
       else Registering r (vmNamesFor (router_uuid r) (router_replicas r)), d, w'))"
| "job_step sv wc (Registering r []) (d, w) = (Finished (created_answer r), d, w)"
| "job_step sv wc (Registering r (name # names)) (d, w) =
     (case RegisterMicroVM (wc_client wc) \<lparr>vm_name = name, vm_project = wc_project wc, vm_image = wc_image wc\<rparr> w of
        (Inl e, w') \<Rightarrow> (if fst e \<noteq> AlreadyExists then Finished (created_answer r) else Starting r (name # names), d, w')
      | (Inr _, w') \<Rightarrow> (Starting r (name # names), d, w'))"
| "job_step sv wc (Starting r []) (d, w) = (Finished (created_answer r), d, w)"
| "job_step sv wc (Starting r (name # names)) (d, w) =
     (case StartVM (wc_client wc) \<lparr>vm_name = name, vm_project = wc_project wc, vm_image = []\<rparr> w of
        (Inl e, w') \<Rightarrow>
          (if fst e \<in> {AlreadyExists, FailedPrecondition} then Registering r names else Finished (created_answer r), d, w')
      | (Inr _, w') \<Rightarrow> (Registering r names, d, w'))"
| "job_step sv wc (Removing u) (d, w) =
     (case delete_handler ''router'' (rb_delete (st_routers (srv_stores sv))) u d of
        (Inl st, d') \<Rightarrow> (Finished (Replied (Inl st)), d', w)
      | (Inr _, d') \<Rightarrow> (Withdrawing (trim_space u), d', w))"
| "job_step sv wc (Withdrawing u) (d, w) =
     (let (_, w') = pub_withdraw (srv_publisher sv) u w in (Stopping (vmBareName u # replicaNames u maxReplicas), d, w'))"
| "job_step sv wc (Stopping []) (d, w) = (Finished deleted_answer, d, w)"
| "job_step sv wc (Stopping (name # names)) (d, w) =
     (let (_, w') = StopVM (wc_client wc) \<lparr>vm_name = name, vm_project = wc_project wc, vm_image = []\<rparr> w in
      (Erasing (name # names), d, w'))"
| "job_step sv wc (Erasing []) (d, w) = (Finished deleted_answer, d, w)"
| "job_step sv wc (Erasing (name # names)) (d, w) =
     (case DeleteVM (wc_client wc) \<lparr>vm_name = name, vm_project = wc_project wc, vm_image = []\<rparr> w of
        (Inl e, w') \<Rightarrow> (if fst e = NotFound then Stopping names else Finished deleted_answer, d, w')
      | (Inr _, w') \<Rightarrow> (Stopping names, d, w'))"
| "job_step sv wc (Reporting subject data) (d, w) =
     (let (res, d') = on_status sv subject data d in (Finished (Handled res), d', w))"
| "job_step sv wc (Finished res) s = (Finished res, s)"

fun job_of :: "event \<Rightarrow> job option" where
  "job_of (Call (RqCreateRouter b t q)) = Some (Creating b t q)"
| "job_of (Call (RqDeleteRouter u)) = Some (Removing u)"
| "job_of (StatusMsg subject data) = Some (Reporting subject data)"
| "job_of _ = None"

definition busy :: "job \<Rightarrow> bool" where
  "busy j \<longleftrightarrow> (case j of Finished _ \<Rightarrow> False | _ \<Rightarrow> True)"

lemma busy_simps [simp]:
  "busy (Creating b t q)" "busy (Publishing r)" "busy (Registering r ns)" "busy (Starting r ns)" "busy (Removing u)"
  "busy (Withdrawing u)" "busy (Stopping ns)" "busy (Erasing ns)" "busy (Reporting sub data)" "\<not> busy (Finished res)"
  by (simp_all add: busy_def)

section \<open>A pool of jobs\<close>

inductive overlap ::
  "('d, 'w) Server \<Rightarrow> 'w WeftClient \<Rightarrow> job list \<times> 'd \<times> 'w \<Rightarrow> job list \<times> 'd \<times> 'w \<Rightarrow> bool"
  for sv wc where
  turn: "busy j \<Longrightarrow> job_step sv wc j s = (j', s') \<Longrightarrow> overlap sv wc (xs @ j # ys, s) (xs @ j' # ys, s')"

abbreviation overlaps ::
  "('d, 'w) Server \<Rightarrow> 'w WeftClient \<Rightarrow> job list \<times> 'd \<times> 'w \<Rightarrow> job list \<times> 'd \<times> 'w \<Rightarrow> bool" where
  "overlaps sv wc \<equiv> (overlap sv wc)\<^sup>*\<^sup>*"

inductive_cases overlapE: "overlap sv wc (js, s) (js', s')"

text \<open>One job that runs alone.\<close>

inductive solo :: "('d, 'w) Server \<Rightarrow> 'w WeftClient \<Rightarrow> job \<times> 'd \<times> 'w \<Rightarrow> job \<times> 'd \<times> 'w \<Rightarrow> bool"
  for sv wc where
  solo_refl: "solo sv wc x x"
| solo_step: "busy j \<Longrightarrow> solo sv wc (job_step sv wc j s) y \<Longrightarrow> solo sv wc (j, s) y"

lemma solo_overlaps: "solo sv wc x y \<Longrightarrow> overlaps sv wc (xs @ fst x # ys, snd x) (xs @ fst y # ys, snd y)"
proof (induction rule: solo.induct)
  case (solo_step j s y)
  have "overlap sv wc (xs @ j # ys, s) (xs @ fst (job_step sv wc j s) # ys, snd (job_step sv wc j s))"
    by (rule turn [OF solo_step.hyps(1)]) simp
  from converse_rtranclp_into_rtranclp [OF this solo_step.IH] show ?case by simp
qed simp

lemma solo_trans: "solo sv wc x y \<Longrightarrow> solo sv wc y z \<Longrightarrow> solo sv wc x z"
  by (induction rule: solo.induct) (auto intro: solo.solo_step)

section \<open>A job alone is its handler\<close>

lemma solo_ensure: "solo sv wc (Registering r ns, d, w) (Finished (created_answer r), d, snd (ensure_loop wc ns w))"
proof (induction ns arbitrary: w)
  case Nil
  show ?case by (rule solo_step) (simp_all add: solo_refl)
next
  case (Cons n ns)
  obtain r1 w1 where reg: "RegisterMicroVM (wc_client wc) \<lparr>vm_name = n, vm_project = wc_project wc, vm_image = wc_image wc\<rparr> w = (r1, w1)"
    by fastforce
  obtain r2 w2 where st: "StartVM (wc_client wc) \<lparr>vm_name = n, vm_project = wc_project wc, vm_image = []\<rparr> w1 = (r2, w2)" by fastforce
  have start: "solo sv wc (Starting r (n # ns), d, w1) (Finished (created_answer r), d,
      snd (case r2 of Inl e \<Rightarrow> if fst e \<in> {AlreadyExists, FailedPrecondition} then ensure_loop wc ns w2
             else (Inl (LcWrap (''StartVM '' @ n) e), w2) | Inr _ \<Rightarrow> ensure_loop wc ns w2))"
    using Cons.IH [of w2] st by (intro solo_step) (auto simp: solo_refl split: sum.split)
  show ?case
    by (rule solo_step, simp) (use start reg st in \<open>auto simp: solo_refl Let_def split: sum.splits\<close>)
qed

lemma solo_push:
  "solo sv wc (Publishing r, d, w) (Finished (created_answer r), d, snd (Ensure wc r (snd (pub_publish (srv_publisher sv) r w))))"
  using solo_ensure [of sv wc r "vmNamesFor (router_uuid r) (router_replicas r)" d]
  by (intro solo_step) (auto simp: Ensure_def solo_refl split_beta)

lemma solo_destroy: "solo sv wc (Stopping ns, d, w) (Finished deleted_answer, d, snd (destroy_loop wc ns w))"
proof (induction ns arbitrary: w)
  case Nil
  show ?case by (rule solo_step) (simp_all add: solo_refl)
next
  case (Cons n ns)
  let ?q = "\<lparr>vm_name = n, vm_project = wc_project wc, vm_image = []\<rparr>"
  obtain r1 w1 where stop: "StopVM (wc_client wc) ?q w = (r1, w1)" by fastforce
  obtain r2 w2 where del: "DeleteVM (wc_client wc) ?q w1 = (r2, w2)" by fastforce
  have "solo sv wc (Erasing (n # ns), d, w1) (Finished deleted_answer, d, snd (destroy_loop wc (n # ns) w))"
    using Cons.IH [of w2] stop del by (intro solo_step) (auto simp: solo_refl Let_def split: sum.split)
  with stop show ?case by (intro solo_step) simp_all
qed

lemma solo_create:
  assumes "srv_lifecycle sv = weft_lifecycle wc"
  shows "solo sv wc (Creating b t q, d, w)
    (Finished (Replied (map_sum id OneRouter (fst (CreateRouter sv b t q (d, w))))), snd (CreateRouter sv b t q (d, w)))"
proof (rule solo_step, simp, cases "router_of_request b t q")
  case (Inl st)
  then show "solo sv wc (job_step sv wc (Creating b t q) (d, w))
      (Finished (Replied (map_sum id OneRouter (fst (CreateRouter sv b t q (d, w))))), snd (CreateRouter sv b t q (d, w)))"
    by (simp add: CreateRouter_def solo_refl)
next
  case r: (Inr r)
  obtain out d1 where create: "rb_create (st_routers (srv_stores sv)) r d = (out, d1)" by fastforce
  have push: "solo sv wc (Publishing x, d1, w) (Finished (created_answer x), d1, push_router sv x w)" for x
    using solo_push [of sv wc x d1 w] by (simp add: push_router_def assms weft_lifecycle_def split_beta)
  from r create push show "solo sv wc (job_step sv wc (Creating b t q) (d, w))
      (Finished (Replied (map_sum id OneRouter (fst (CreateRouter sv b t q (d, w))))), snd (CreateRouter sv b t q (d, w)))"
    by (cases out) (simp_all add: CreateRouter_def solo_refl)
qed

lemma solo_withdraw:
  "solo sv wc (Withdrawing u, d, w) (Finished deleted_answer, d, snd (Destroy wc u (snd (pub_withdraw (srv_publisher sv) u w))))"
  using solo_destroy [of sv wc _ d]
  by (intro solo_step) (simp_all add: Destroy_def split_beta del: destroy_loop.simps)

lemma solo_delete:
  assumes "srv_lifecycle sv = weft_lifecycle wc"
  shows "solo sv wc (Removing u, d, w)
    (Finished (Replied (map_sum id (\<lambda>_. Empty) (fst (DeleteRouter sv u (d, w))))), snd (DeleteRouter sv u (d, w)))"
proof (rule solo_step, simp)
  obtain out d1 where del: "delete_handler ''router'' (rb_delete (st_routers (srv_stores sv))) u d = (out, d1)" by fastforce
  obtain r1 w1 where wd: "pub_withdraw (srv_publisher sv) (trim_space u) w = (r1, w1)" by fastforce
  have "solo sv wc (Withdrawing (trim_space u), d1, w) (Finished deleted_answer, d1, snd (Destroy wc (trim_space u) w1))"
    using solo_withdraw [of sv wc "trim_space u" d1 w] wd by simp
  with del wd show "solo sv wc (job_step sv wc (Removing u) (d, w))
      (Finished (Replied (map_sum id (\<lambda>_. Empty) (fst (DeleteRouter sv u (d, w))))), snd (DeleteRouter sv u (d, w)))"
    by (cases out) (simp_all add: DeleteRouter_def assms weft_lifecycle_def solo_refl Let_def split_beta)
qed

text \<open>Hence a job that nobody interrupts does to the state, and answers, what \<open>service_step\<close> says.\<close>

theorem solo_is_service_step:
  assumes "srv_lifecycle sv = weft_lifecycle wc" and "job_of e = Some j"
  shows "solo sv wc (j, s) (Finished (fst (service_step sv e s)), snd (service_step sv e s))"
proof -
  obtain d w where s: "s = (d, w)" by (rule prod.exhaust)
  have status: "solo sv wc (Reporting sub data, d, w)
      (Finished (fst (service_step sv (StatusMsg sub data) (d, w))), snd (service_step sv (StatusMsg sub data) (d, w)))" for sub data
    by (rule solo_step) (simp_all add: split_beta Let_def solo_refl)
  show ?thesis unfolding s
  proof (cases e rule: job_of.cases)
    case (1 b t q)
    with assms(2) solo_create [OF assms(1)] show "solo sv wc (j, d, w) (Finished (fst (service_step sv e (d, w))), snd (service_step sv e (d, w)))"
      by auto
  next
    case (2 u)
    with assms(2) solo_delete [OF assms(1)] show "solo sv wc (j, d, w) (Finished (fst (service_step sv e (d, w))), snd (service_step sv e (d, w)))"
      by auto
  next
    case (3 subject data)
    with assms(2) status show "solo sv wc (j, d, w) (Finished (fst (service_step sv e (d, w))), snd (service_step sv e (d, w)))"
      by (auto simp del: service_step.simps)
  qed (use assms(2) in simp_all)
qed

section \<open>What one turn does\<close>

text \<open>The micro-VMs a job will still register, those it may still delete, and the uuid it will still draw.\<close>

fun owed :: "'w WeftClient \<Rightarrow> job \<Rightarrow> (string \<times> string) set" where
  "owed wc (Publishing r) = wanted_vms wc r"
| "owed wc (Registering r names) = vm_pairs wc names"
| "owed wc (Starting r names) = vm_pairs wc (tl names)"
| "owed wc _ = {}"

fun doomed :: "job \<Rightarrow> string set" where
  "doomed (Withdrawing u) = set (probed_names u)"
| "doomed (Stopping names) = set names"
| "doomed (Erasing names) = set names"
| "doomed _ = {}"

fun coming :: "job \<Rightarrow> string list" where
  "coming (Creating b t q) = [newUUID b]"
| "coming _ = []"

abbreviation status_contract :: "('d \<Rightarrow> string \<rightharpoonup> Router) \<Rightarrow> ('d \<Rightarrow> bool) \<Rightarrow> ('d, 'w) Server \<Rightarrow> (Router \<Rightarrow> 'k) \<Rightarrow> bool" where
  "status_contract rows good sv pkey \<equiv> status_store rows good (rb_create (st_routers (srv_stores sv)))
     (rb_delete (st_routers (srv_stores sv))) (rb_get (st_routers (srv_stores sv))) pkey (st_update_status (srv_stores sv))"

text \<open>
  An agent that is there: it registers and starts what it is asked to (deleting may fail). The publisher
  does not touch micro-VMs.
\<close>

definition steady :: "('d, 'w) Server \<Rightarrow> 'w WeftClient \<Rightarrow> ('w \<Rightarrow> (string \<times> string) set) \<Rightarrow> bool" where
  "steady sv wc vms \<longleftrightarrow> agent_laws (wc_client wc) vms \<and>
     (\<forall>r w. vms (snd (pub_publish (srv_publisher sv) r w)) = vms w) \<and>
     (\<forall>u w. vms (snd (pub_withdraw (srv_publisher sv) u w)) = vms w) \<and>
     (\<forall>q w. case fst (RegisterMicroVM (wc_client wc) q w) of Inl e \<Rightarrow> fst e = AlreadyExists | Inr _ \<Rightarrow> True) \<and>
     (\<forall>q w. case fst (StartVM (wc_client wc) q w) of Inl e \<Rightarrow> fst e \<in> {AlreadyExists, FailedPrecondition} | Inr _ \<Rightarrow> True)"

lemma steadyD:
  assumes "steady sv wc vms"
  shows "agent_laws (wc_client wc) vms"
    and "pub_publish (srv_publisher sv) r w = (x, w') \<Longrightarrow> vms w' = vms w"
    and "pub_withdraw (srv_publisher sv) u w = (x, w') \<Longrightarrow> vms w' = vms w"
    and "RegisterMicroVM (wc_client wc) q w = (Inl e, w') \<Longrightarrow> fst e = AlreadyExists"
    and "StartVM (wc_client wc) q w = (Inl e, w') \<Longrightarrow> fst e \<in> {AlreadyExists, FailedPrecondition}"
proof -
  note parts = assms [unfolded steady_def]
  from parts have p: "\<forall>r w. vms (snd (pub_publish (srv_publisher sv) r w)) = vms w" by (elim conjE)
  from parts have p': "\<forall>u w. vms (snd (pub_withdraw (srv_publisher sv) u w)) = vms w" by (elim conjE)
  from parts have a: "\<forall>q w. case fst (RegisterMicroVM (wc_client wc) q w) of Inl e \<Rightarrow> fst e = AlreadyExists | Inr _ \<Rightarrow> True"
    by (elim conjE)
  from parts have a': "\<forall>q w. case fst (StartVM (wc_client wc) q w) of Inl e \<Rightarrow> fst e \<in> {AlreadyExists, FailedPrecondition} | Inr _ \<Rightarrow> True"
    by (elim conjE)
  show "agent_laws (wc_client wc) vms" using assms unfolding steady_def by (elim conjE)
  show "pub_publish (srv_publisher sv) r w = (x, w') \<Longrightarrow> vms w' = vms w" using spec [OF spec [OF p, of r], of w] by simp
  show "pub_withdraw (srv_publisher sv) u w = (x, w') \<Longrightarrow> vms w' = vms w" using spec [OF spec [OF p', of u], of w] by simp
  show "RegisterMicroVM (wc_client wc) q w = (Inl e, w') \<Longrightarrow> fst e = AlreadyExists" using spec [OF spec [OF a, of q], of w] by simp
  show "StartVM (wc_client wc) q w = (Inl e, w') \<Longrightarrow> fst e \<in> {AlreadyExists, FailedPrecondition}"
    using spec [OF spec [OF a', of q], of w] by simp
qed

lemma steady_calls:
  assumes "steady sv wc vms"
  shows "RegisterMicroVM (wc_client wc) q w = (res, w') \<Longrightarrow> vms w \<subseteq> vms w' \<and> (vm_project q, vm_name q) \<in> vms w'"
    and "StartVM (wc_client wc) q w = (y, w') \<Longrightarrow> vms w' = vms w"
    and "StopVM (wc_client wc) q w = (y, w') \<Longrightarrow> vms w' = vms w"
    and "DeleteVM (wc_client wc) q w = (y, w') \<Longrightarrow> vms w - {(vm_project q, vm_name q)} \<subseteq> vms w'"
proof -
  note laws = steadyD(1) [OF assms]
  show "vms w \<subseteq> vms w' \<and> (vm_project q, vm_name q) \<in> vms w'" if run: "RegisterMicroVM (wc_client wc) q w = (res, w')"
    using agent_register(1) [OF laws run] agent_register(3) [OF laws run, of "()" "projl res"] steadyD(4) [OF assms, of q w "projl res" w'] run
    by (cases res) auto
  show "StartVM (wc_client wc) q w = (y, w') \<Longrightarrow> vms w' = vms w" using agent_start_stop(1) [OF laws, of q w] by simp
  show "StopVM (wc_client wc) q w = (y, w') \<Longrightarrow> vms w' = vms w" using agent_start_stop(2) [OF laws, of q w] by simp
  show "DeleteVM (wc_client wc) q w = (y, w') \<Longrightarrow> vms w - {(vm_project q, vm_name q)} \<subseteq> vms w'" by (rule agent_delete(2) [OF laws])
qed

text \<open>
  One turn of a job: a new row comes with a job that owes its micro-VMs; what was there or owed is there or
  owed still, but for names the job was to delete; and the names to delete are those of a router whose row the turn removed.
\<close>

definition turn_ok ::
  "('d \<Rightarrow> string \<rightharpoonup> Router) \<Rightarrow> ('w \<Rightarrow> (string \<times> string) set) \<Rightarrow> 'w WeftClient \<Rightarrow> job \<times> 'd \<times> 'w \<Rightarrow> job \<times> 'd \<times> 'w \<Rightarrow> bool" where
  "turn_ok rows vms wc = (\<lambda>(j, d, w) (j', d', w').
     coming j' = [] \<and> dom (rows d') \<subseteq> dom (rows d) \<union> set (coming j) \<and>
     (\<forall>r \<in> ran (rows d'). wanted_vms wc r \<subseteq> owed wc j' \<or>
        (\<exists>r0 \<in> ran (rows d). router_uuid r0 = router_uuid r \<and> wanted_vms wc r0 = wanted_vms wc r)) \<and>
     vms w \<union> owed wc j \<subseteq> vms w' \<union> owed wc j' \<union> Pair (wc_project wc) ` doomed j \<and>
     (doomed j' \<subseteq> doomed j \<or> (\<exists>u \<in> dom (rows d) - dom (rows d'). doomed j' \<subseteq> set (probed_names u))))"

lemma same_rows_ok:
  assumes "rows d' = rows d" and "coming j' = []" and "doomed j' \<subseteq> doomed j"
    and "vms w \<union> owed wc j \<subseteq> vms w' \<union> owed wc j' \<union> Pair (wc_project wc) ` doomed j"
  shows "turn_ok rows vms wc (j, d, w) (j', d', w')"
  using assms by (auto simp: turn_ok_def)

lemma wanted_not_micro: "router_kind r \<noteq> ''egress'' \<or> router_backend r \<noteq> ''gobgp'' \<Longrightarrow> wanted_vms wc r = {}"
  by (auto simp: wanted_vms_def)

lemma wanted_set_status [simp]: "wanted_vms wc (set_status x r) = wanted_vms wc r"
  by (simp add: wanted_vms_def)

lemma create_turn:
  assumes "status_contract rows good sv pkey" and "good d" and "rows d (newUUID b) = None"
    and "job_step sv wc (Creating b t q) (d, w) = (j', d', w')"
  shows "good d' \<and> turn_ok rows vms wc (Creating b t q, d, w) (j', d', w')"
proof (cases "router_of_request b t q")
  case (Inl st)
  with assms show ?thesis by (auto intro!: same_rows_ok)
next
  case (Inr r)
  note store = status_store.axioms(1) [OF assms(1), THEN updating_store.axioms(1)]
  note uuid = router_of_request_ok(1) [OF Inr]
  obtain out d1 where run: "rb_create (st_routers (srv_stores sv)) r d = (out, d1)" by fastforce
  have sim: "spec_create router_uuid pkey r (rows d) = (out, rows d1)" "good d1"
    using row_store.create_sim [OF store assms(2) _ run] assms(3) uuid by simp_all
  show ?thesis
  proof (cases out)
    case (Inl e)
    with sim have "rows d1 = rows d" by (auto simp: spec_create_def split: if_splits)
    with Inl Inr run assms(4) sim(2) show ?thesis by (auto intro!: same_rows_ok)
  next
    case saved: (Inr x)
    with sim have rows: "x = r" "rows d1 = (rows d)(newUUID b \<mapsto> r)" by (auto simp: spec_create_def uuid split: if_splits)
    have "ran (rows d1) = insert r (ran (rows d))" using assms(3) by (simp add: rows(2))
    with saved rows Inr run assms(4) sim(2) show ?thesis by (auto simp: turn_ok_def)
  qed
qed

lemma remove_turn:
  assumes "status_contract rows good sv pkey" and "good d" and "job_step sv wc (Removing v) (d, w) = (j', d', w')"
  shows "good d' \<and> turn_ok rows vms wc (Removing v, d, w) (j', d', w')"
proof -
  note store = status_store.axioms(1) [OF assms(1), THEN updating_store.axioms(1)]
  let ?u = "trim_space v"
  obtain out d1 where run: "rb_delete (st_routers (srv_stores sv)) ?u d = (out, d1)" by fastforce
  from row_store.delete_sim [OF store assms(2) run] have sim: "spec_delete ?u (rows d) = (out, rows d1)" "good d1" by simp_all
  show ?thesis
  proof (cases "?u \<noteq> [] \<and> out = Inr ()")
    case True
    with sim(1) have "?u \<in> dom (rows d)" "rows d1 = (rows d)(?u := None)" by (auto simp: spec_delete_def split: option.splits)
    moreover from this have "ran (rows d1) \<subseteq> ran (rows d)" by (auto simp: ran_def)
    ultimately show ?thesis using True run assms(3) sim(2) by (auto simp: turn_ok_def delete_handler_def Let_def)
  next
    case False
    have "rows d1 = rows d" if "out \<noteq> Inr ()" using that sim(1) by (auto simp: spec_delete_def split: option.splits)
    with False assms(2,3) run sim(2) show ?thesis
      by (cases out) (auto simp: delete_handler_def Let_def intro!: same_rows_ok split: if_splits)
  qed
qed

lemma report_turn:
  assumes "status_contract rows good sv pkey" and "good d" and "job_step sv wc (Reporting sub data) (d, w) = (j', d', w')"
  shows "good d' \<and> turn_ok rows vms wc (Reporting sub data, d, w) (j', d', w')"
proof -
  note keyed = row_store.inv_keyed [OF status_store.axioms(1) [OF assms(1), THEN updating_store.axioms(1)]]
  obtain out where run: "status_handle (st_update_status (srv_stores sv)) sub data d = (out, d')" "w' = w" "j' = Finished (Handled out)"
    using assms(3) by (auto simp: on_status_def RouterStore_def split: prod.splits)
  note rows = status_store.handle_rows(1,2) [OF assms(1,2) run(1)]
  have "rows d' = rows d \<or> (\<exists>u r x. rows d u = Some r \<and> rows d' = (rows d)(u \<mapsto> set_status x r))"
  proof (cases "\<exists>u st r. uuidFromSubject sub = Some u \<and> unmarshal status_fields status_zero data = Some st \<and> rows d u = Some r")
    case True
    then obtain u st r where "uuidFromSubject sub = Some u" "unmarshal status_fields status_zero data = Some st" "rows d u = Some r"
      by blast
    then have "rows d u = Some r" "rows d' = (rows d)(u \<mapsto> set_status (derivedStateOf st) r)" using rows(2) by simp_all
    then show ?thesis by blast
  next
    case False
    then show ?thesis using rows(2) by (auto split: option.splits)
  qed
  then show ?thesis
  proof (elim disjE exE conjE)
    fix u r x
    assume r: "rows d u = Some r" and upd: "rows d' = (rows d)(u \<mapsto> set_status x r)"
    have "\<exists>r0 \<in> ran (rows d). router_uuid r0 = router_uuid r' \<and> wanted_vms wc r0 = wanted_vms wc r'" if "r' \<in> ran (rows d')" for r'
      using that r by (auto simp: upd ran_def split: if_splits)
    then show ?thesis using rows(1) run(2,3) r upd by (auto simp: turn_ok_def)
  qed (use rows(1) run(2,3) in \<open>auto intro!: same_rows_ok\<close>)
qed

lemma agent_turn:
  assumes "steady sv wc vms" and "\<And>b t q. j \<noteq> Creating b t q" and "\<And>u. j \<noteq> Removing u" and "\<And>x y. j \<noteq> Reporting x y"
    and "job_step sv wc j (d, w) = (j', d', w')"
  shows "d' = d \<and> turn_ok rows vms wc (j, d, w) (j', d', w')"
proof -
  note calls = steady_calls [OF assms(1)]
  show ?thesis
  proof (cases j)
    case (Publishing r)
    then show ?thesis using assms(5) steadyD(2) [OF assms(1)] wanted_not_micro [of r]
      by (auto simp: wanted_vms_def Let_def intro!: same_rows_ok split: prod.splits if_splits)
  next
    case (Registering r ns)
    show ?thesis
    proof (cases ns)
      case (Cons n ms)
      obtain res w1 where run: "RegisterMicroVM (wc_client wc) \<lparr>vm_name = n, vm_project = wc_project wc, vm_image = wc_image wc\<rparr> w = (res, w1)"
        by fastforce
      show ?thesis using Registering Cons run assms(5) calls(1) [OF run] steadyD(4) [OF assms(1)]
        by (cases res) (auto intro!: same_rows_ok split: if_splits)
    qed (use Registering assms(5) in \<open>auto intro!: same_rows_ok\<close>)
  next
    case (Starting r ns)
    show ?thesis
    proof (cases ns)
      case (Cons n ms)
      obtain res w1 where run: "StartVM (wc_client wc) \<lparr>vm_name = n, vm_project = wc_project wc, vm_image = []\<rparr> w = (res, w1)" by fastforce
      show ?thesis using Starting Cons run assms(5) calls(2) [OF run] steadyD(5) [OF assms(1)]
        by (cases res) (auto intro!: same_rows_ok split: if_splits)
    qed (use Starting assms(5) in \<open>auto intro!: same_rows_ok\<close>)
  next
    case (Withdrawing u)
    then show ?thesis using assms(5) steadyD(3) [OF assms(1)]
      by (auto simp: probed_names_def Let_def intro!: same_rows_ok split: prod.splits)
  next
    case (Stopping ns)
    then show ?thesis using assms(5) calls(3) by (cases ns) (auto simp: Let_def intro!: same_rows_ok split: prod.splits)
  next
    case (Erasing ns)
    show ?thesis
    proof (cases ns)
      case (Cons n ms)
      obtain res w1 where run: "DeleteVM (wc_client wc) \<lparr>vm_name = n, vm_project = wc_project wc, vm_image = []\<rparr> w = (res, w1)" by fastforce
      show ?thesis using Erasing Cons run assms(5) calls(4) [OF run]
        by (cases res) (auto intro!: same_rows_ok split: if_splits)
    qed (use Erasing assms(5) in \<open>auto intro!: same_rows_ok\<close>)
  qed (use assms(2-5) in \<open>auto intro!: same_rows_ok\<close>)
qed

lemma job_turn:
  assumes "status_contract rows good sv pkey" and "good d" and "steady sv wc vms" and "set (coming j) \<inter> dom (rows d) = {}"
    and "job_step sv wc j (d, w) = (j', d', w')"
  shows "good d' \<and> turn_ok rows vms wc (j, d, w) (j', d', w')"
proof (cases j)
  case (Creating b t q)
  with assms(4) have "rows d (newUUID b) = None" by auto
  from create_turn [OF assms(1,2) this] assms(5) Creating show ?thesis by simp
next
  case (Removing u)
  with remove_turn [OF assms(1,2)] assms(5) show ?thesis by simp
next
  case (Reporting x y)
  with report_turn [OF assms(1,2)] assms(5) show ?thesis by (simp del: job_step.simps)
qed (use agent_turn [OF assms(3) _ _ _ assms(5), of rows] assms(2) in auto)

section \<open>The invariant of a pool\<close>

text \<open>
  Every stored router has its micro-VMs or a job that owes them; what is to be deleted belongs to a router that
  is gone and will not come (its uuid is not stored and no job draws it).
\<close>

definition drawn :: "job list \<Rightarrow> string list" where
  "drawn js = concat (map coming js)"

lemma drawn_simps [simp]: "drawn [] = []" "drawn (j # js) = coming j @ drawn js" "drawn (xs @ ys) = drawn xs @ drawn ys"
  by (simp_all add: drawn_def)

definition retired :: "(string \<rightharpoonup> Router) \<Rightarrow> string set \<Rightarrow> string set \<Rightarrow> bool" where
  "retired R new names \<longleftrightarrow> names = {} \<or>
     (\<exists>u. CHR ''-'' \<notin> set u \<and> u \<notin> dom R \<and> u \<notin> new \<and> names \<subseteq> set (probed_names u))"

definition pool_ok ::
  "('d \<Rightarrow> string \<rightharpoonup> Router) \<Rightarrow> ('d \<Rightarrow> bool) \<Rightarrow> ('w \<Rightarrow> (string \<times> string) set) \<Rightarrow> 'w WeftClient \<Rightarrow> job list \<times> 'd \<times> 'w \<Rightarrow> bool" where
  "pool_ok rows good vms wc = (\<lambda>(js, d, w).
     good d \<and> (\<forall>u \<in> dom (rows d). CHR ''-'' \<notin> set u) \<and> distinct (drawn js) \<and> set (drawn js) \<inter> dom (rows d) = {} \<and>
     (\<forall>r \<in> ran (rows d). wanted_vms wc r \<subseteq> vms w \<union> \<Union> (owed wc ` set js)) \<and>
     (\<forall>j \<in> set js. retired (rows d) (set (drawn js)) (doomed j)))"

lemma retired_mono: "retired R new names \<Longrightarrow> names' \<subseteq> names \<Longrightarrow> retired R new names'"
  unfolding retired_def by blast

lemma coming_no_dash: "u \<in> set (coming j) \<Longrightarrow> CHR ''-'' \<notin> set u"
  by (cases j) (simp_all add: newUUID_no_dash)

lemma retired_spares:
  assumes "retired R new names" and "rows_keyed router_uuid R" and "\<forall>u \<in> dom R. CHR ''-'' \<notin> set u" and "r \<in> ran R"
  shows "wanted_vms wc r \<inter> Pair (wc_project wc) ` names = {}"
proof -
  have dom: "router_uuid r \<in> dom R" using assms(2,4) by (auto simp: rows_keyed_def ran_def)
  have "set (vmNamesFor (router_uuid r) (router_replicas r)) \<inter> names = {}"
  proof (cases "names = {}")
    case False
    with assms(1) obtain u where u: "CHR ''-'' \<notin> set u" "u \<notin> dom R" "names \<subseteq> set (probed_names u)"
      by (auto simp: retired_def)
    with dom have "u \<noteq> router_uuid r" by auto
    from probed_disjoint [OF this u(1)] assms(3) dom vmNamesFor_probed [of "router_uuid r"] u(3) show ?thesis by blast
  qed simp
  then show ?thesis by (auto simp: wanted_vms_def vm_pairs_def)
qed

lemma pool_turn:
  assumes "status_contract rows good sv pkey" and "steady sv wc vms" and "pool_ok rows good vms wc (xs @ j # ys, d, w)"
    and "job_step sv wc j (d, w) = (j', d', w')"
  shows "pool_ok rows good vms wc (xs @ j' # ys, d', w')"
proof -
  let ?old = "set (drawn (xs @ j # ys))" and ?new = "set (drawn (xs @ j' # ys))"
  note keyed = row_store.inv_keyed [OF status_store.axioms(1) [OF assms(1), THEN updating_store.axioms(1)]]
  from assms(3) have good: "good d" and dash: "\<forall>u \<in> dom (rows d). CHR ''-'' \<notin> set u" and dist: "distinct (drawn (xs @ j # ys))"
    and fresh: "?old \<inter> dom (rows d) = {}"
    and cov: "\<forall>r \<in> ran (rows d). wanted_vms wc r \<subseteq> vms w \<union> \<Union> (owed wc ` set (xs @ j # ys))"
    and ret: "\<forall>i \<in> set (xs @ j # ys). retired (rows d) ?old (doomed i)"
    unfolding pool_ok_def by auto
  have "good d' \<and> turn_ok rows vms wc (j, d, w) (j', d', w')"
    using job_turn [OF assms(1) good assms(2) _ assms(4)] fresh by auto
  then have good': "good d'" and coming: "coming j' = []" and dom: "dom (rows d') \<subseteq> dom (rows d) \<union> set (coming j)"
    and rows: "\<forall>r \<in> ran (rows d'). wanted_vms wc r \<subseteq> owed wc j' \<or>
        (\<exists>r0 \<in> ran (rows d). router_uuid r0 = router_uuid r \<and> wanted_vms wc r0 = wanted_vms wc r)"
    and there: "vms w \<union> owed wc j \<subseteq> vms w' \<union> owed wc j' \<union> Pair (wc_project wc) ` doomed j"
    and doom: "doomed j' \<subseteq> doomed j \<or> (\<exists>u \<in> dom (rows d) - dom (rows d'). doomed j' \<subseteq> set (probed_names u))"
    unfolding turn_ok_def by blast+
  have "wanted_vms wc r \<subseteq> vms w' \<union> \<Union> (owed wc ` set (xs @ j' # ys))" if "r \<in> ran (rows d')" for r
  proof (cases "wanted_vms wc r \<subseteq> owed wc j'")
    case False
    with rows that obtain r0 where r0: "r0 \<in> ran (rows d)" "wanted_vms wc r0 = wanted_vms wc r" by blast
    have "retired (rows d) ?old (doomed j)" using ret by simp
    then have spared: "wanted_vms wc r0 \<inter> Pair (wc_project wc) ` doomed j = {}"
      by (rule retired_spares [OF _ keyed [OF good] dash r0(1)])
    show ?thesis
    proof
      fix x assume "x \<in> wanted_vms wc r"
      with r0(2) have x: "x \<in> wanted_vms wc r0" by simp
      with spared have "x \<notin> Pair (wc_project wc) ` doomed j" by blast
      moreover have "x \<in> vms w \<union> owed wc j \<or> (\<exists>i \<in> set (xs @ ys). x \<in> owed wc i)" using cov r0(1) x by auto
      ultimately show "x \<in> vms w' \<union> \<Union> (owed wc ` set (xs @ j' # ys))" using there by auto
    qed
  qed auto
  moreover have "retired (rows d') ?new (doomed i)" if "i \<in> set (xs @ j' # ys)" for i
  proof -
    have sub: "?new \<subseteq> ?old" and dom': "dom (rows d') \<subseteq> dom (rows d) \<union> ?old" using coming dom by auto
    have keep: "retired (rows d') ?new names" if "retired (rows d) ?old names" for names
      using that dom' sub unfolding retired_def by blast
    have gone: "retired (rows d') ?new names" if "u \<in> dom (rows d) - dom (rows d')" "names \<subseteq> set (probed_names u)" for u names
      using that dash fresh sub unfolding retired_def by blast
    have "retired (rows d') ?new (doomed j')"
    proof (cases "doomed j' \<subseteq> doomed j")
      case True
      have "retired (rows d) ?old (doomed j)" using ret by simp
      from retired_mono [OF this True] show ?thesis by (rule keep)
    qed (use doom gone in blast)
    with that keep ret show ?thesis by auto
  qed
  moreover have "?new \<inter> dom (rows d') = {}"
  proof -
    have "?new \<subseteq> ?old" "?new \<inter> set (coming j) = {}" using dist coming by auto
    with fresh dom show ?thesis by blast
  qed
  moreover have "\<forall>u \<in> dom (rows d'). CHR ''-'' \<notin> set u" using dom dash coming_no_dash [of _ j] by blast
  moreover have "distinct (drawn (xs @ j' # ys))" using dist coming by auto
  ultimately show ?thesis using good' unfolding pool_ok_def prod.case by blast
qed

lemma pool_invariant:
  assumes "status_contract rows good sv pkey" and "steady sv wc vms"
  shows "overlaps sv wc x y \<Longrightarrow> pool_ok rows good vms wc x \<Longrightarrow> pool_ok rows good vms wc y"
proof (induction rule: rtranclp_induct)
  case (step y z)
  from step.hyps(2) step.IH [OF step.prems] show ?case
  proof (cases rule: overlap.cases)
    case (turn j s j' s' xs ys)
    obtain d w d' w' where "s = (d, w)" "s' = (d', w')" by fastforce
    with turn pool_turn [OF assms] step.IH [OF step.prems] show ?thesis by auto
  qed
qed

end
