(* ===== verification/Overlap_Properties.thy ===== *)
theory Overlap_Properties
  imports Overlap Network_Properties
begin

text \<open>
  What holds of handlers that overlap, in every order of their turns: they end, they leave every stored router its
  micro-VMs, and (the other direction fails) they may leave micro-VMs to a router that is gone.
\<close>

section \<open>They end\<close>

fun turns_left :: "job \<Rightarrow> nat" where
  "turns_left (Creating b t q) = 23"
| "turns_left (Publishing r) = 22"
| "turns_left (Registering r names) = 2 * length names + 1"
| "turns_left (Starting r names) = max 1 (2 * length names)"
| "turns_left (Removing u) = 25"
| "turns_left (Withdrawing u) = 24"
| "turns_left (Stopping names) = 2 * length names + 1"
| "turns_left (Erasing names) = max 1 (2 * length names)"
| "turns_left (Reporting x y) = 1"
| "turns_left (Finished res) = 0"

definition pool_turns :: "job list \<Rightarrow> nat" where
  "pool_turns js = sum_list (map turns_left js)"

lemma vmNamesFor_length: "length (vmNamesFor u n) \<le> 10"
  by (simp add: vmNamesFor_def maxReplicas_def nat_le_iff)

lemma turn_decreases:
  assumes "busy j" and "job_step sv wc j s = (j', s')"
  shows "turns_left j' < turns_left j"
proof -
  obtain d w where s: "s = (d, w)" by (rule prod.exhaust)
  show ?thesis
  proof (cases j)
    case (Creating b t q)
    with assms(2) s show ?thesis by (auto split: sum.splits prod.splits)
  next
    case (Publishing r)
    with assms(2) s vmNamesFor_length [of "router_uuid r" "router_replicas r"] show ?thesis
      by (auto simp: Let_def split: prod.splits if_splits)
  next
    case (Registering r ns)
    with assms(2) s show ?thesis by (cases ns) (auto split: sum.splits prod.splits if_splits)
  next
    case (Starting r ns)
    with assms(2) s show ?thesis by (cases ns) (auto split: sum.splits prod.splits if_splits)
  next
    case (Removing u)
    with assms(2) s show ?thesis by (auto split: sum.splits prod.splits)
  next
    case (Withdrawing u)
    with assms(2) s show ?thesis by (auto simp: Let_def maxReplicas_def split: prod.splits)
  next
    case (Stopping ns)
    with assms(2) s show ?thesis by (cases ns) (auto simp: Let_def split: prod.splits)
  next
    case (Erasing ns)
    with assms(2) s show ?thesis by (cases ns) (auto split: sum.splits prod.splits if_splits)
  next
    case (Reporting x y)
    with assms(2) s show ?thesis by (auto simp: Let_def split: prod.splits)
  qed (use assms(1) in simp)
qed

lemma turns_left_bound: "map job_of es = map Some js \<Longrightarrow> pool_turns js \<le> 25 * length js"
proof (induction es arbitrary: js)
  case (Cons e es)
  then obtain j js' where j: "js = j # js'" "job_of e = Some j" "map job_of es = map Some js'" by (cases js) auto
  from j(2) have "turns_left j \<le> 25" by (cases e rule: job_of.cases) auto
  with Cons.IH [OF j(3)] j(1) show ?case by (simp add: pool_turns_def)
qed (simp add: pool_turns_def)

lemma overlap_turns: "overlap sv wc (js, s) (js', s') \<Longrightarrow> pool_turns js' < pool_turns js"
  by (elim overlapE) (auto simp: pool_turns_def dest: turn_decreases)

text \<open>
  C28. Handlers end. A pool of router handlers takes at most 25 turns for each, in whatever order they take them and
  whatever the stores, the publisher and the agent answer; and as long as one is not done some turn can be taken.
\<close>

theorem overlapping_handlers_end:
  assumes "map job_of es = map Some js" and "(overlap sv wc ^^ n) (js, s) (js', s')"
  shows "n \<le> 25 * length js \<and> ((\<exists>x. overlap sv wc (js', s') x) \<longleftrightarrow> (\<exists>j \<in> set js'. busy j))"
proof -
  have "n + pool_turns js' \<le> pool_turns js" using assms(2)
  proof (induction n arbitrary: js' s')
    case (Suc n)
    then obtain js1 s1 where "(overlap sv wc ^^ n) (js, s) (js1, s1)" "overlap sv wc (js1, s1) (js', s')" by auto
    with Suc.IH overlap_turns show ?case by fastforce
  qed simp
  with turns_left_bound [OF assms(1)] have "n \<le> 25 * length js" by linarith
  moreover have "\<exists>x. overlap sv wc (js', s') x" if j: "j \<in> set js'" "busy j" for j
  proof -
    from j(1) obtain xs ys where "js' = xs @ j # ys" by (auto simp: in_set_conv_decomp)
    with turn [OF j(2) prod.collapse [symmetric], where sv = sv and wc = wc and s = s' and xs = xs and ys = ys] show ?thesis by blast
  qed
  ultimately show ?thesis by (auto elim: overlap.cases)
qed

lemma demo_jobs: "map job_of [Call (RqCreateRouter [1] 7 demo_request), Call (RqDeleteRouter ''02'')] =
    map Some [Creating [1] 7 demo_request, Removing ''02'']"
  by simp

theorem overlapping_handlers_end_witness:
  "\<exists>x. overlap (demo_server set_agent) demo_client ([Creating [1] 7 demo_request, Removing ''02''], mem_new, {}) x"
  using overlapping_handlers_end [OF demo_jobs, where n = 0 and sv = "demo_server set_agent" and wc = demo_client and
      s = "(mem_new, {})" and s' = "(mem_new, {})" and js' = "[Creating [1] 7 demo_request, Removing ''02'']"] by simp

section \<open>Stored routers keep their micro-VMs\<close>

text \<open>The stores of the model meet the contract, and a set of micro-VMs is an agent that is there.\<close>

lemma mem_status_contract:
  assumes "srv_stores sv = mem_stores ord"
  shows "status_contract (\<lambda>w. rm_by_uuid (mw_routers w)) (\<lambda>w. router_mem_inv (mw_routers w)) sv router_bar_key"
proof (intro status_store.intro updating_store.intro mem_router_contract [OF assms] updating_store_axioms.intro, goal_cases)
  case (3 s p u r s')
  then obtain a where "router_mem_update_status p u (mw_routers s) = (r, a)" "s' = mw_routers_update (\<lambda>_. a) s"
    by (auto simp: assms on_part_step)
  with 3 router_mem_upd.update_sim show ?case by auto
qed (simp_all add: set_status_def)

lemma etcd_status_contract:
  "srv_stores sv = etcd_stores kv_client \<Longrightarrow> status_contract router_rows router_db_inv sv router_pair"
  using etcd_status.status_store_axioms by (simp add: etcd_stores_def)

lemma demo_steady: "steady (demo_server set_agent) demo_client (\<lambda>s. s)"
  using demo_client_laws by (simp add: steady_def noop_publisher_def) (simp add: newWeftClientWithStub_def set_agent_def)

lemma arriving_jobs:
  assumes "map job_of es = map Some js" and "j \<in> set js"
  shows "doomed j = {}"
proof -
  have "Some j \<in> job_of ` set es" using arg_cong [OF assms(1), of set] assms(2) by simp
  then obtain e where "job_of e = Some j" by auto
  then show ?thesis by (cases e rule: job_of.cases) auto
qed



section \<open>A router that is gone may keep its micro-VMs\<close>

lemma steady_ensure_loop: "steady sv wc vms \<Longrightarrow> fst (ensure_loop wc names w) = Inr ()"
proof (induction names arbitrary: w)
  case (Cons n ns)
  obtain r1 w1 where reg: "RegisterMicroVM (wc_client wc) \<lparr>vm_name = n, vm_project = wc_project wc, vm_image = wc_image wc\<rparr> w = (r1, w1)"
    by fastforce
  obtain r2 w2 where st: "StartVM (wc_client wc) \<lparr>vm_name = n, vm_project = wc_project wc, vm_image = []\<rparr> w1 = (r2, w2)" by fastforce
  from steadyD(4) [OF Cons.prems, of _ w _ w1] steadyD(5) [OF Cons.prems, of _ w1 _ w2] reg st Cons.IH [OF Cons.prems, of w2]
  show ?case by (cases r1; cases r2) (auto simp: Let_def)
qed simp

lemma steady_ensure: "steady sv wc vms \<Longrightarrow> vms (snd (Ensure wc r w)) = vms w \<union> wanted_vms wc r"
  by (rule ensure_exact [OF steadyD(1)]) (simp_all add: Ensure_def steady_ensure_loop)

text \<open>
  C9. A deletion that overlaps the creation leaks. If the deletion of a new egress router runs between the store
  write of \<open>CreateRouter\<close> and its \<open>Ensure\<close> (its uuid is in every listing from that write on), both answer OK, the row is gone, and
  all micro-VMs of the router are there; no later resync looks at them.
\<close>

theorem overlapping_delete_leaks_vms:
  assumes "status_contract rows good sv pkey" and "steady sv wc vms" and "good d" and "b \<noteq> []"
    and "router_of_request b t q = Inr r" and "router_kind r = ''egress''" and "router_backend r = ''gobgp''"
    and "rows d (newUUID b) = None" and "\<forall>x \<in> ran (rows d). pkey x \<noteq> pkey r"
  shows "\<exists>d' w'. overlaps sv wc ([Creating b t q, Removing (newUUID b)], d, w)
      ([Finished (created_answer r), Finished deleted_answer], d', w') \<and>
    rows d' = rows d \<and> vms w' \<supseteq> wanted_vms wc r \<and> wanted_vms wc r \<noteq> {}"
proof -
  let ?u = "newUUID b"
  note store = status_store.axioms(1) [OF assms(1), THEN updating_store.axioms(1)]
  obtain out1 d1 where c: "rb_create (st_routers (srv_stores sv)) r d = (out1, d1)" by fastforce
  from row_store.create_sim [OF store assms(3) _ c] assms(8,9) router_of_request_ok(1) [OF assms(5)]
  have c': "out1 = Inr r" "rows d1 = (rows d)(?u \<mapsto> r)" "good d1" by (auto simp: spec_create_def)
  obtain out2 d2 where e: "rb_delete (st_routers (srv_stores sv)) ?u d1 = (out2, d2)" by fastforce
  from row_store.delete_sim [OF store c'(3) e] c'(2)
  have e': "out2 = Inr ()" "rows d2 = rows d" using assms(8) by (auto simp: spec_delete_def fun_upd_idem)
  define w2 where "w2 = snd (Destroy wc ?u (snd (pub_withdraw (srv_publisher sv) ?u w)))"
  define w3 where "w3 = snd (Ensure wc r (snd (pub_publish (srv_publisher sv) r w2)))"
  have 1: "overlap sv wc ([] @ Creating b t q # [Removing ?u], d, w) ([] @ Publishing r # [Removing ?u], d1, w)"
    by (rule turn) (simp_all add: assms(5) c c'(1))
  have "solo sv wc (Removing ?u, d1, w) (Finished deleted_answer, d2, w2)"
    using solo_withdraw [of sv wc ?u d2 w] assms(4) e e'(1)
    by (intro solo_step) (simp_all add: delete_handler_def w2_def)
  from solo_overlaps [OF this, of "[Publishing r]" "[]"]
  have 2: "overlaps sv wc ([Publishing r, Removing ?u], d1, w) ([Publishing r, Finished deleted_answer], d2, w2)" by simp
  from solo_overlaps [OF solo_push [of sv wc r d2 w2], of "[]" "[Finished deleted_answer]"]
  have 3: "overlaps sv wc ([Publishing r, Finished deleted_answer], d2, w2) ([Finished (created_answer r), Finished deleted_answer], d2, w3)"
    by (simp add: w3_def)
  have "vms w3 \<supseteq> wanted_vms wc r" unfolding w3_def steady_ensure [OF assms(2)] by blast
  moreover have "wanted_vms wc r \<noteq> {}" using assms(6,7)
    by (simp add: wanted_vms_def vm_pairs_def vmNamesFor_def maxReplicas_def) (simp add: replicaNames_def)
  moreover have "overlaps sv wc ([Creating b t q, Removing ?u], d, w) ([Finished (created_answer r), Finished deleted_answer], d2, w3)"
    using 1 2 3 by (auto intro: converse_rtranclp_into_rtranclp rtranclp_trans)
  ultimately show ?thesis using e'(2) by blast
qed

theorem overlapping_delete_leaks_vms_witness:
  "\<exists>d' w'. overlaps (demo_server set_agent) demo_client ([Creating [1] 7 demo_request, Removing ''01''], mem_new, {})
       ([Finished (created_answer (demo_row [1] 7)), Finished deleted_answer], d', w') \<and>
     rm_by_uuid (mw_routers d') = Map.empty \<and> wanted_vms demo_client (demo_row [1] 7) \<subseteq> w' \<and>
     wanted_vms demo_client (demo_row [1] 7) \<noteq> {}"
  using overlapping_delete_leaks_vms [OF mem_status_contract [OF demo_server_sels(1)] demo_steady demo_world(1) _ demo_request_ok [of "[1]" 7]]
    demo_world(2) by (simp add: newUUID_1) (simp add: demo_row_def)

end
