(* ===== verification/Announcements.thy ===== *)
theory Announcements
  imports Network_Properties Daemon_Properties
begin

text \<open>
  What the router VMs hear follows what is stored. A VM subscribes to its subject and applies the last message, or
  nothing. Over a bus that delivers what it accepts, after any requests and status messages the last message on every
  subject is the desired state of the row of that uuid, and the empty one where there is no row; when the
  floating IPs of a network change, the republishing brings the messages up to date.
\<close>

section \<open>The last message of a subject\<close>

text \<open>\<open>sent w\<close> has the last message of every subject. A flush may fail; it sends nothing.\<close>

definition bus_laws :: "'w bus \<Rightarrow> ('w \<Rightarrow> string \<rightharpoonup> etcd_value) \<Rightarrow> bool" where
  "bus_laws b sent \<longleftrightarrow>
     (\<forall>subj m w. fst (bus_publish b subj m w) = Inr () \<and> sent (snd (bus_publish b subj m w)) = (sent w)(subj \<mapsto> m)) \<and>
     (\<forall>w. sent (snd (bus_flush b w)) = sent w)"

text \<open>What a VM that knows nothing has after the last message.\<close>

definition heard :: "('w \<Rightarrow> string \<rightharpoonup> etcd_value) \<Rightarrow> 'w \<Rightarrow> string \<Rightarrow> etcd_value" where
  "heard sent w u = (case sent w (SubjectFor u) of None \<Rightarrow> marshal_state state_zero | Some m \<Rightarrow> m)"

definition desired :: "(string list \<Rightarrow> string list) \<Rightarrow> (string \<rightharpoonup> Router) \<Rightarrow> string \<Rightarrow> etcd_value" where
  "desired lookup R u = marshal_state (case R u of None \<Rightarrow> state_zero | Some r \<Rightarrow> StateFor r (Some lookup))"

text \<open>
  The lookup ranges over maps, and an address may be there twice: two lookups with the same addresses for
  every list of networks are as good as one another.
\<close>

definition same_addresses :: "(string list \<Rightarrow> string list) \<Rightarrow> (string list \<Rightarrow> string list) \<Rightarrow> bool" where
  "same_addresses f g \<longleftrightarrow> (\<forall>ns. set (f ns) = set (g ns))"

definition told :: "(string list \<Rightarrow> string list) \<Rightarrow> (string \<rightharpoonup> Router) \<Rightarrow> string \<Rightarrow> etcd_value \<Rightarrow> bool" where
  "told lookup R u m \<longleftrightarrow> (\<exists>f. same_addresses f lookup \<and> m = desired f R u)"

lemma told_desired [intro, simp]: "told lookup R u (desired lookup R u)"
  by (auto simp: told_def same_addresses_def)

lemma told_none [simp]: "R u = None \<Longrightarrow> told lookup R u m \<longleftrightarrow> m = marshal_state state_zero"
  by (auto simp: told_def desired_def same_addresses_def)

lemma told_row: "R' u = R u \<Longrightarrow> told lookup R' u = told lookup R u"
  by (simp add: told_def desired_def fun_eq_iff)

text \<open>The lifecycle does not send.\<close>

definition silent :: "'w router_lifecycle \<Rightarrow> ('w \<Rightarrow> string \<rightharpoonup> etcd_value) \<Rightarrow> bool" where
  "silent l sent \<longleftrightarrow> (\<forall>r w. sent (snd (lc_ensure l r w)) = sent w) \<and> (\<forall>u w. sent (snd (lc_destroy l u w)) = sent w)"

lemma SubjectFor_inj [simp]: "SubjectFor u = SubjectFor v \<longleftrightarrow> u = v"
  by (simp add: SubjectFor_def)

lemma send_flush_sent:
  "bus_laws b sent \<Longrightarrow> sent (snd (send_flush b what subj m w)) = (sent w)(subj \<mapsto> m)"
  unfolding bus_laws_def send_flush_def by (simp add: split_beta split: sum.split)

lemma publish_heard:
  assumes "bus_laws b sent"
  shows "heard sent (snd (nats_publish b lookup r w)) u =
    (if u = router_uuid r \<and> StateFor r (Some lookup) \<noteq> state_zero then marshal_state (StateFor r (Some lookup)) else heard sent w u)"
proof -
  have "ds_peers st = [] \<and> ds_prefixes st = [] \<longleftrightarrow> st = state_zero" for st :: DesiredState
    by (cases st) (simp add: state_zero_def)
  then show ?thesis
    unfolding nats_publish_def Let_def by (simp add: heard_def send_flush_sent [OF assms])
qed

lemma withdraw_heard:
  "bus_laws b sent \<Longrightarrow> heard sent (snd (nats_withdraw b v w)) u = (if u = v then marshal_state state_zero else heard sent w u)"
  by (simp add: heard_def nats_withdraw_def send_flush_sent marshal_state_def state_zero_def)

lemma StateFor_set_status [simp]: "StateFor (set_status x r) f = StateFor r f"
  unfolding StateFor_def Let_def by (simp split: option.split)

lemma told_status: "R u = Some r \<Longrightarrow> told lookup (R(u \<mapsto> set_status x r)) u = told lookup R u"
  by (simp add: told_def desired_def fun_eq_iff)

text \<open>Whether a router has a state to announce does not depend on the lookup.\<close>

lemma StateFor_zero: "StateFor r (Some f) = state_zero \<longleftrightarrow> StateFor r (Some g) = state_zero"
  by (auto simp: StateFor_def state_zero_def Let_def split: option.split)

lemma StateFor_lookup: "f (router_networks r) = g (router_networks r) \<Longrightarrow> StateFor r (Some f) = StateFor r (Some g)"
  unfolding StateFor_def Let_def by (simp split: option.split)

section \<open>The requests\<close>

abbreviation in_step :: "(string list \<Rightarrow> string list) \<Rightarrow> ('w \<Rightarrow> string \<rightharpoonup> etcd_value) \<Rightarrow> (string \<rightharpoonup> Router) \<Rightarrow> 'w \<Rightarrow> bool" where
  "in_step lookup sent R w \<equiv> \<forall>u. told lookup R u (heard sent w u)"

lemma create_router_in_step:
  assumes "bus_laws b sent" and "silent (srv_lifecycle sv) sent" and "srv_publisher sv = nats_publisher b lookup"
    and "n_routers n (newUUID bs) = None" and "in_step lookup sent (n_routers n) w"
    and "CreateRouter (net_server o' sv) bs t q (n, w) = (r, n', w')"
  shows "in_step lookup sent (n_routers n') w'"
proof (cases "router_of_request bs t q")
  case (Inl st)
  with assms(5,6) show ?thesis by (simp add: CreateRouter_def)
next
  case (Inr x)
  note uuid = router_of_request_ok(1) [OF Inr]
  have push: "heard sent (push_router sv x w) u = heard sent (snd (nats_publish b lookup x w)) u" for u
    using assms(2) by (simp add: push_router_def assms(3) nats_publisher_def silent_def heard_def split_beta)
  have zero: "heard sent w (newUUID bs) = marshal_state state_zero" using assms(4,5) told_none by blast
  let ?dup = "\<exists>y \<in> ran (n_routers n). router_pair y = router_pair x"
  have create: "?dup \<Longrightarrow> rb_create (st_routers (srv_stores (net_server o' sv))) x n = (Inl ErrAlreadyExists, n)"
    "\<not> ?dup \<Longrightarrow> rb_create (st_routers (srv_stores (net_server o' sv))) x n = (Inr x, put_routers ((n_routers n)(newUUID bs \<mapsto> x)) n)"
    by (simp_all add: on_part_def spec_create_def uuid del: prod.inject)
  consider "n' = n" "w' = w" | "n_routers n' = (n_routers n)(newUUID bs \<mapsto> x)" "w' = push_router (net_server o' sv) x w"
  proof (cases ?dup)
    case True
    from assms(6) have "n' = n \<and> w' = w" unfolding CreateRouter_def prod.case Inr sum.case create(1) [OF True] by auto
    then show ?thesis using that(1) by simp
  next
    case False
    from assms(6) have "n_routers n' = (n_routers n)(newUUID bs \<mapsto> x) \<and> w' = push_router (net_server o' sv) x w"
      unfolding CreateRouter_def prod.case Inr sum.case create(2) [OF False] by auto
    then show ?thesis using that(2) by simp
  qed
  then show ?thesis
  proof cases
    case 1
    with assms(5) show ?thesis by simp
  next
    case 2
    have "told lookup (n_routers n') u (heard sent w' u)" for u
    proof (cases "u = newUUID bs")
      case True
      have "heard sent w' u = desired lookup (n_routers n') u"
        using zero by (simp add: True 2 push publish_heard [OF assms(1)] uuid desired_def)
      then show ?thesis by simp
    next
      case False
      then show ?thesis using assms(5) told_row [of "n_routers n'" u "n_routers n"] by (simp add: 2 push publish_heard [OF assms(1)] uuid)
    qed
    then show ?thesis by blast
  qed
qed

lemma delete_router_in_step:
  assumes "bus_laws b sent" and "silent (srv_lifecycle sv) sent" and "srv_publisher sv = nats_publisher b lookup"
    and "in_step lookup sent (n_routers n) w" and "DeleteRouter (net_server o' sv) v (n, w) = (r, n', w')"
  shows "in_step lookup sent (n_routers n') w'"
proof (cases "trim_space v \<noteq> [] \<and> n_routers n (trim_space v) \<noteq> None")
  case True
  then have "n_routers n' = (n_routers n)(trim_space v := None)"
    "w' = snd (lc_destroy (srv_lifecycle sv) (trim_space v) (snd (nats_withdraw b (trim_space v) w)))"
    using assms(3,5) by (auto simp: DeleteRouter_def delete_handler_def on_part_def spec_delete_def Let_def nats_publisher_def split_beta)
  moreover from this(2) assms(2) have "heard sent w' u = heard sent (snd (nats_withdraw b (trim_space v) w)) u" for u
    by (simp add: silent_def heard_def)
  moreover have "told lookup ((n_routers n)(trim_space v := None)) u (heard sent w u)" if "u \<noteq> trim_space v" for u
    using assms(4) told_row [of "(n_routers n)(trim_space v := None)" u "n_routers n"] that by simp
  ultimately show ?thesis by (simp add: withdraw_heard [OF assms(1)])
next
  case False
  then have "n' = n \<and> w' = w"
    using assms(5) by (auto simp: DeleteRouter_def delete_handler_def on_part_def spec_delete_def Let_def split: if_splits)
  with assms(4) show ?thesis by simp
qed

text \<open>No other request touches the routers or sends anything.\<close>

definition same_routers :: "net \<times> 'w \<Rightarrow> net \<times> 'w \<Rightarrow> bool" where
  "same_routers s s' \<longleftrightarrow> n_routers (fst s') = n_routers (fst s) \<and> snd s' = snd s"

lemma store_only_same_routers:
  "n_routers (snd res) = n_routers n \<Longrightarrow> same_routers (n, w) (snd (store_only f res w))"
  by (simp add: store_only_def same_routers_def)

lemma handler_routers:
  "(\<And>n. n_routers (snd (f (trim_space u) n)) = n_routers n) \<Longrightarrow> n_routers (snd (delete_handler what f u n)) = n_routers n"
  by (simp add: delete_handler_def Let_def split_beta split: sum.split)

lemma list_routers_kept: "snd res = n \<Longrightarrow> n_routers (snd (list_handler what f res)) = n_routers n"
  by (cases res; cases "fst res") (auto simp: list_handler_def)

lemma create_handlers_routers:
  "n_routers (snd (CreateSchedulingRule (net_server o' sv) b t q1 n)) = n_routers n"
  "n_routers (snd (CreateDNSZone (net_server o' sv) b t q2 n)) = n_routers n"
  "n_routers (snd (CreateDNSRecord (net_server o' sv) b q3 n)) = n_routers n"
  "n_routers (snd (CreateLoadBalancer (net_server o' sv) b t q4 n)) = n_routers n"
  "n_routers (snd (SetLoadBalancerBackends (net_server o' sv) u bs n)) = n_routers n"
proof -
  show "n_routers (snd (CreateSchedulingRule (net_server o' sv) b t q1 n)) = n_routers n"
    unfolding CreateSchedulingRule_def Let_def by (simp add: split_beta snd_on_part split: sum.split)
  show "n_routers (snd (CreateDNSZone (net_server o' sv) b t q2 n)) = n_routers n"
    unfolding CreateDNSZone_def Let_def by (simp add: split_beta lift_dns_def snd_on_part split: sum.split)
  show "n_routers (snd (CreateDNSRecord (net_server o' sv) b q3 n)) = n_routers n"
    using record_ttl_net [of o' sv] unfolding CreateDNSRecord_def Let_def
    by (simp add: split_beta lift_dns_def snd_on_part split: sum.split)
  show "n_routers (snd (CreateLoadBalancer (net_server o' sv) b t q4 n)) = n_routers n"
    unfolding CreateLoadBalancer_def Let_def by (simp add: split_beta snd_on_part split: sum.split)
  show "n_routers (snd (SetLoadBalancerBackends (net_server o' sv) u bs n)) = n_routers n"
    unfolding SetLoadBalancerBackends_def Let_def by (simp add: split_beta snd_on_part split: sum.split)
qed

lemma serve_same_routers:
  assumes "\<And>b t c. q \<noteq> RqCreateRouter b t c" and "\<And>u. q \<noteq> RqDeleteRouter u"
  shows "same_routers (n, w) (snd (serve (net_server o' sv) q (n, w)))"
  using assms
  by (cases q) (auto intro!: store_only_same_routers list_routers_kept handler_routers create_handlers_routers
      simp: ListSchedulingRules_def ListDNSZones_def ListDNSRecords_def ListRouters_def ListLoadBalancers_def
        DeleteSchedulingRule_def DeleteDNSZone_def DeleteDNSRecord_def DeleteLoadBalancer_def net_stores_def row_spec_def
        on_part_def lift_dns_def split_beta)

lemma status_in_step:
  assumes "in_step lookup sent (n_routers n) w"
  shows "in_step lookup sent (n_routers (snd (on_status (net_server o' sv) subject data n))) w"
proof -
  have "told lookup (snd (spec_status x v R)) u = told lookup R u" for x u v R
    using told_status told_row [of "R(v \<mapsto> _)" u R] by (cases "u = v") (auto simp: spec_status_def spec_update_def split: option.split)
  then have "told lookup (n_routers (snd (st_update_status (net_stores o') x v n))) u = told lookup (n_routers n) u" for x u v
    by (simp add: snd_on_part)
  with assms show ?thesis
    by (simp add: on_status_def RouterStore_def status_handle_def split_beta split: option.split sum.split)
qed

lemma event_in_step:
  assumes "bus_laws b sent" and "silent (srv_lifecycle sv) sent" and "srv_publisher sv = nats_publisher b lookup"
    and "case e of Call q \<Rightarrow> admits q n | StatusMsg _ _ \<Rightarrow> True"
    and "in_step lookup sent (n_routers n) w" and "service_step (net_server o' sv) e (n, w) = (r, n', w')"
  shows "in_step lookup sent (n_routers n') w'"
proof (cases e)
  case (StatusMsg subject data)
  with assms(6) status_in_step [OF assms(5), of o' sv subject data] show ?thesis by (auto simp: split_beta)
next
  case (Call q)
  then obtain out where run: "serve (net_server o' sv) q (n, w) = (out, n', w')" using assms(6)
    by (cases "serve (net_server o' sv) q (n, w)") auto
  show ?thesis
  proof (cases q)
    case (RqCreateRouter bs t c)
    with run obtain x where create: "CreateRouter (net_server o' sv) bs t c (n, w) = (x, n', w')"
      by (cases "CreateRouter (net_server o' sv) bs t c (n, w)") auto
    with assms(4,5) Call RqCreateRouter show ?thesis by (intro create_router_in_step [OF assms(1-3) _ _ create]) simp_all
  next
    case (RqDeleteRouter u)
    with run obtain x where "DeleteRouter (net_server o' sv) u (n, w) = (x, n', w')"
      by (cases "DeleteRouter (net_server o' sv) u (n, w)") auto
    then show ?thesis by (rule delete_router_in_step [OF assms(1-3,5)])
  qed (use run serve_same_routers [of q n w o' sv] assms(5) in \<open>simp_all add: same_routers_def del: serve.simps\<close>)
qed

lemma events_in_step:
  assumes "bus_laws b sent" and "silent (srv_lifecycle sv) sent" and "srv_publisher sv = nats_publisher b lookup"
  shows "in_step lookup sent (n_routers n) w \<Longrightarrow> admits_events (net_server o' sv) es (n, w) \<Longrightarrow>
    run_calls (service_step (net_server o' sv)) es (n, w) = (rs, n', w') \<Longrightarrow> in_step lookup sent (n_routers n') w'"
proof (induction es arbitrary: n w rs)
  case (Cons e es)
  obtain r n1 w1 where step: "service_step (net_server o' sv) e (n, w) = (r, n1, w1)" by (rule prod_cases3)
  have adm: "case e of Call q \<Rightarrow> admits q n | StatusMsg _ _ \<Rightarrow> True" "admits_events (net_server o' sv) es (n1, w1)"
    using Cons.prems(2) step by (auto split: event.splits)
  have now: "in_step lookup sent (n_routers n1) w1" by (rule event_in_step [OF assms adm(1) Cons.prems(1) step])
  obtain rest where "run_calls (service_step (net_server o' sv)) es (n1, w1) = (rest, n', w')"
    using Cons.prems(3) step by (auto simp: Let_def split: prod.splits)
  from Cons.IH [OF now adm(2) this] show ?case .
qed simp


text \<open>A bus that keeps the last message of every subject, and a server on it.\<close>

definition map_bus :: "(string \<rightharpoonup> etcd_value) bus" where
  "map_bus = \<lparr>bus_publish = (\<lambda>subj m s. (Inr (), s(subj \<mapsto> m))), bus_flush = (\<lambda>s. (Inr (), s))\<rparr>"

definition nats_demo :: "(string list \<Rightarrow> string list) \<Rightarrow> (mem_world, string \<rightharpoonup> etcd_value) Server" where
  "nats_demo lookup = \<lparr>srv_stores = mem_stores uuid_orders, srv_publisher = nats_publisher map_bus lookup,
     srv_lifecycle = noop_lifecycle, srv_etcd = False\<rparr>"

lemma nats_demo_terms:
  "srv_stores (nats_demo lookup) = mem_stores uuid_orders" "srv_publisher (nats_demo lookup) = nats_publisher map_bus lookup"
  "silent (srv_lifecycle (nats_demo lookup)) (\<lambda>s. s)" "bus_laws map_bus (\<lambda>s. s)"
  "network (srv_stores (nats_demo lookup)) mem_net (mem_good uuid_orders)"
  using memory.network_axioms by (simp_all add: nats_demo_def silent_def noop_lifecycle_def bus_laws_def map_bus_def)

lemma demo_create:
  "admits_events (net_server by_uuid (nats_demo lookup)) [Call (RqCreateRouter [1] 0 demo_request)] (net_empty, w)"
  by (simp add: net_empty_def plain_def demo_request_def del: service_step.simps)

lemma nothing_heard: "in_step lookup (\<lambda>s. s) (n_routers net_empty) Map.empty"
  by (simp add: net_empty_def heard_def)

lemma demo_run:
  "\<exists>rs d w. run_calls (service_step (nats_demo lookup)) [Call (RqCreateRouter [1] 0 demo_request)] (mem_new, Map.empty) = (rs, d, w) \<and>
     mem_good uuid_orders d \<and> mem_net d = put_routers [''01'' \<mapsto> demo_row [1] 0] net_empty"
proof -
  let ?es = "[Call (RqCreateRouter [1] 0 demo_request)]" and ?sv = "net_server by_uuid (nats_demo lookup)"
  obtain rs d w where run: "run_calls (service_step (nats_demo lookup)) ?es (mem_new, Map.empty) = (rs, d, w)" by (rule prod_cases3)
  obtain xs where xs: "run_calls (service_step ?sv) ?es (net_empty, Map.empty) = (xs, mem_net d, w)" "mem_good uuid_orders d"
    using network.events_sim [OF nats_demo_terms(5) mem_new_good(1) [OF uuid_orders_ok] refl by_uuid_ok _ run] demo_create
    unfolding mem_new_good(2) by blast
  obtain x w1 where "serve ?sv (RqCreateRouter [1] 0 demo_request) (net_empty, Map.empty) = (x, put_routers [''01'' \<mapsto> demo_row [1] 0] net_empty, w1)"
    using demo_router_step [of ?sv by_uuid net_empty Map.empty] by (auto simp: net_empty_def)
  with xs(1) have "mem_net d = put_routers [''01'' \<mapsto> demo_row [1] 0] net_empty" by (auto simp: Let_def simp del: serve.simps)
  with run xs(2) show ?thesis by blast
qed


section \<open>Floating IPs\<close>

text \<open>A walk over rows publishes the state of each under its own uuid.\<close>

lemma walk_heard:
  assumes "bus_laws b sent" and "rows_keyed router_uuid R"
  shows "set rs \<subseteq> ran R \<Longrightarrow> heard sent (fold (\<lambda>r w. snd (nats_publish b lookup r w)) rs w) u =
    (case R u of None \<Rightarrow> heard sent w u
     | Some r \<Rightarrow> if r \<in> set rs \<and> StateFor r (Some lookup) \<noteq> state_zero then desired lookup R u else heard sent w u)"
proof (induction rs arbitrary: w)
  case (Cons x rs)
  have x: "R (router_uuid x) = Some x" using Cons.prems assms(2) by (auto simp: rows_keyed_def ran_def)
  have sub: "set rs \<subseteq> ran R" using Cons.prems by simp
  note rest = Cons.IH [OF sub, of "snd (nats_publish b lookup x w)"]
  show ?case
  proof (cases "R u")
    case None
    with x have "u \<noteq> router_uuid x" by auto
    with None rest show ?thesis by (simp add: publish_heard [OF assms(1)])
  next
    case (Some r)
    then have r: "router_uuid r = u" using assms(2) by (simp add: rows_keyed_def)
    show ?thesis
    proof (cases "r = x")
      case True
      with Some rest r show ?thesis by (simp add: publish_heard [OF assms(1)] desired_def)
    next
      case False
      with Some x have "u \<noteq> router_uuid x" by auto
      with Some False rest show ?thesis by (simp add: publish_heard [OF assms(1)])
    qed
  qed
qed (simp split: option.split)

lemma republish_heard:
  assumes "network (srv_stores sv) absn good" and "good d" and "bus_laws b sent"
    and "republishRoutersOnNetworkChange (fst (RouterStore sv)) (nats_publisher b lookup) c (d, w) = (d', w')"
  shows "good d' \<and> absn d' = absn d \<and> heard sent w' u =
    (case n_routers (absn d) u of None \<Rightarrow> heard sent w u
     | Some r \<Rightarrow> if c \<in> set (router_networks r) \<and> StateFor r (Some lookup) \<noteq> state_zero
         then desired lookup (n_routers (absn d)) u else heard sent w u)"
proof -
  let ?R = "n_routers (absn d)"
  have keyed: "rows_keyed router_uuid ?R" using network.abs_ok [OF assms(1,2)] by (simp add: net_ok_def table_ok_def)
  obtain out d1 where list: "rb_list (st_routers (srv_stores sv)) [] d = (out, d1)" by fastforce
  from network.list_routers [OF assms(1,2), of "[]"] obtain rs where
    rs: "out = Inr rs" "set rs = ran ?R" and d1: "absn d1 = absn d" "good d1"
    unfolding list by (auto simp: lists_def visible_def)
  have run: "d' = d1" "w' = fold (\<lambda>r w. snd (nats_publish b lookup r w)) (filter (\<lambda>r. c \<in> set (router_networks r)) rs) w"
    using assms(4) list rs(1) by (simp_all add: republishRoutersOnNetworkChange_def RouterStore_def publish_each_fold nats_publisher_def)
  have "r \<in> set rs" if "?R u = Some r" for r using that rs(2) by (auto simp: ran_def)
  then show ?thesis
    using d1 walk_heard [OF assms(3) keyed, of "filter (\<lambda>r. c \<in> set (router_networks r)) rs" lookup w u] rs(2)
    unfolding run by (auto split: option.split)
qed

lemma republishes_heard:
  assumes "network (srv_stores sv) absn good" and "bus_laws b sent"
  shows "good d \<Longrightarrow> fold (republishRoutersOnNetworkChange (fst (RouterStore sv)) (nats_publisher b lookup)) cs (d, w) = (d', w') \<Longrightarrow>
    absn d' = absn d \<and> heard sent w' u =
      (case n_routers (absn d) u of None \<Rightarrow> heard sent w u
       | Some r \<Rightarrow> if set cs \<inter> set (router_networks r) \<noteq> {} \<and> StateFor r (Some lookup) \<noteq> state_zero
           then desired lookup (n_routers (absn d)) u else heard sent w u)"
proof (induction cs arbitrary: d w)
  case (Cons c cs)
  obtain d1 w1 where step: "republishRoutersOnNetworkChange (fst (RouterStore sv)) (nats_publisher b lookup) c (d, w) = (d1, w1)"
    by fastforce
  note one = republish_heard [OF assms(1) Cons.prems(1) assms(2) step, of u]
  from one have abs: "absn d1 = absn d" and good: "good d1" by simp_all
  from Cons.prems(2) step have "fold (republishRoutersOnNetworkChange (fst (RouterStore sv)) (nats_publisher b lookup)) cs (d1, w1) = (d', w')"
    by simp
  from Cons.IH [OF good this, unfolded abs] have "absn d' = absn d \<and> heard sent w' u =
      (case n_routers (absn d) u of None \<Rightarrow> heard sent w1 u
       | Some r \<Rightarrow> if set cs \<inter> set (router_networks r) \<noteq> {} \<and> StateFor r (Some lookup) \<noteq> state_zero
           then desired lookup (n_routers (absn d)) u else heard sent w1 u)" .
  with one show ?case by (cases "n_routers (absn d) u") auto
qed (simp split: option.split)


lemma feed_orders: "index_ok i \<Longrightarrow> Publisher.orders_ok (i, sorted_orders i)"
  by (simp add: Publisher.orders_ok_def sorted_orders_range)


section \<open>A walk that overlaps a deletion\<close>

text \<open>
  The walk holds no lock. A router that is deleted between the listing and its turn is announced again, after
  its withdrawal: its row is gone and the last message on its subject is its old state.
\<close>

theorem late_republish_announces_deleted:
  assumes "network (srv_stores sv) absn good" and "good d" and "bus_laws b sent"
    and "n_routers (absn d) u = Some r" and "trim_space u = u" and "u \<noteq> []"
    and "StateFor r (Some lookup) \<noteq> state_zero" and "c \<in> set (router_networks r)"
    and "rb_list (st_routers (srv_stores sv)) [] d = (Inr rs, d1)"
    and "DeleteRouter sv u (d1, w) = (res, d2, w2)" and "w3 = publish_each (nats_publisher b lookup) c rs w2"
  shows "res = Inr () \<and> n_routers (absn d2) u = None \<and> heard sent w3 u = marshal_state (StateFor r (Some lookup))"
proof -
  let ?R = "n_routers (absn d)"
  have keyed: "rows_keyed router_uuid ?R" using network.abs_ok [OF assms(1,2)] by (simp add: net_ok_def table_ok_def)
  from network.list_routers [OF assms(1,2), of "[]"] have rs: "set rs = ran ?R" and d1: "absn d1 = absn d" "good d1"
    unfolding assms(9) by (auto simp: lists_def visible_def)
  have "DeleteRouter (net_server by_uuid sv) u (absn d1, w) = (res, absn d2, w2)"
    using network.delete_router_handler [OF assms(1) d1(2) refl assms(10), of by_uuid] by simp
  then have "res = Inr () \<and> n_routers (absn d2) u = None" unfolding d1(1) using assms(4-6)
    by (auto simp: DeleteRouter_def delete_handler_def on_part_def spec_delete_def Let_def split_beta dest!: sym [of _ "absn d2"])
  moreover have "r \<in> set (filter (\<lambda>r. c \<in> set (router_networks r)) rs)" using rs assms(4,8) by (auto simp: ran_def)
  then have "heard sent w3 u = desired lookup ?R u"
    using walk_heard [OF assms(3) keyed, of "filter (\<lambda>r. c \<in> set (router_networks r)) rs" lookup w2 u] rs assms(4,7)
    by (simp add: assms(11) publish_each_fold nats_publisher_def)
  ultimately show ?thesis using assms(4) by (simp add: desired_def)
qed

end
